(* ===== verification/Prelude.thy ===== *)
theory Prelude
  imports Complex_Main "HOL-Library.Word"
begin

text \<open>
  Shared vocabulary of the development: the fixed-width integers of the program, byte
  buffers with \<^verbatim>\<open>memcpy\<close>-style writes (\<open>put\<close>) and reads (\<open>slice\<close>), little-endian
  encoding of words, and the collections the component proofs draw on:
  \<open>buffer_simps\<close> moves a read past the writes before it, \<open>wire_consts\<close> unfolds the
  numeric constants of the wire format.
\<close>

unbundle bit_operations_syntax

section \<open>Fixed-width integers and bytes\<close>

type_synonym u8 = "8 word"
type_synonym u16 = "16 word"
type_synonym u32 = "32 word"
type_synonym u64 = "64 word"
type_synonym i64 = "64 word"
type_synonym bytes = "u8 list"

named_theorems buffer_simps
named_theorems wire_consts

section \<open>Buffers\<close>

text \<open>
  \<open>put off bs buf\<close> is \<^verbatim>\<open>memcpy(buf + off, bs, |bs|)\<close> and \<open>slice off n buf\<close> the \<open>n\<close>
  bytes at \<^verbatim>\<open>buf + off\<close>. A write past the end is outside the meaning of the program; here
  it is cut off, so that a buffer never changes its length.
\<close>

definition put :: "nat \<Rightarrow> 'a list \<Rightarrow> 'a list \<Rightarrow> 'a list" where
  "put off bs buf = take (length buf) (take off buf @ bs @ drop (off + length bs) buf)"

definition slice :: "nat \<Rightarrow> nat \<Rightarrow> 'a list \<Rightarrow> 'a list" where
  "slice off n buf = take n (drop off buf)"

lemma length_put [simp]: "length (put off bs buf) = length buf"
  by (simp add: put_def min_def)

lemma length_slice: "length (slice off n buf) = min n (length buf - off)"
  by (simp add: slice_def min.commute)

lemma nth_put:
  "i < length buf \<Longrightarrow>
     put off bs buf ! i = (if off \<le> i \<and> i < off + length bs then bs ! (i - off) else buf ! i)"
  by (auto simp: put_def nth_append min_def)

lemma nth_slice: "i < n \<Longrightarrow> off + i < length buf \<Longrightarrow> slice off n buf ! i = buf ! (off + i)"
  by (simp add: slice_def)

lemma put_Nil [simp]: "put off [] buf = buf"
  by (simp add: put_def)

lemma slice_put_same:
  "off + length bs \<le> length buf \<Longrightarrow> n = length bs \<Longrightarrow> slice off n (put off bs buf) = bs"
  by (rule nth_equalityI) (auto simp: length_slice nth_slice nth_put)

lemma slice_put_other:
  "o1 + n \<le> off \<or> off + length bs \<le> o1 \<Longrightarrow> slice o1 n (put off bs buf) = slice o1 n buf"
  by (rule nth_equalityI) (auto simp: length_slice nth_slice nth_put)

lemma slice_update_other:
  "i < o1 \<or> o1 + n \<le> i \<Longrightarrow> slice o1 n (buf[i := v]) = slice o1 n buf"
  by (rule nth_equalityI) (auto simp: length_slice nth_slice nth_list_update)

lemma slice_append: "slice off n buf @ slice (off + n) k buf = slice off (n + k) buf"
  by (simp add: slice_def take_add add.commute [of n off])

lemma slice_take: "off + n \<le> k \<Longrightarrow> slice off n (take k buf) = slice off n buf"
  by (simp add: slice_def drop_take min_absorb1)

lemma take_put: "n \<le> off \<Longrightarrow> take n (put off bs buf) = take n buf"
  by (rule nth_equalityI) (auto simp: nth_put)

lemma unat_u16_less: "unat (w :: u16) < 65536"
  using unsigned_less [of w] by simp

lemmas [buffer_simps] =
  slice_put_same slice_put_other slice_update_other nth_put nth_list_update

section \<open>Little-endian encoding\<close>

definition le_bytes :: "nat \<Rightarrow> 'a::len word \<Rightarrow> bytes" where
  "le_bytes n w = map (\<lambda>i. ucast (drop_bit (8 * i) w)) [0..<n]"

fun from_le :: "bytes \<Rightarrow> 'a::len word" where
  "from_le [] = 0"
| "from_le (b # bs) = ucast b OR push_bit 8 (from_le bs)"

lemma length_le_bytes [simp]: "length (le_bytes n w) = n"
  by (simp add: le_bytes_def)

lemma le_bytes_Suc: "le_bytes (Suc n) w = ucast w # le_bytes n (drop_bit 8 w)"
  by (simp add: le_bytes_def upt_conv_Cons map_Suc_upt [symmetric] add.commute del: upt_Suc)

lemma bit_from_le:
  "bit (from_le bs :: 'a::len word) k \<longleftrightarrow>
     k < LENGTH('a) \<and> k div 8 < length bs \<and> bit (bs ! (k div 8)) (k mod 8)"
proof (induction bs arbitrary: k)
  case Nil
  show ?case by simp
next
  case (Cons b bs)
  show ?case
  proof (cases "k < 8")
    case True
    then show ?thesis by (auto simp: bit_simps)
  next
    case False
    then have "k div 8 = Suc ((k - 8) div 8)" "k mod 8 = (k - 8) mod 8"
      by (simp_all add: le_div_geq le_mod_geq)
    moreover from False have "\<not> bit b k"
      using bit_imp_le_length [of b k] by auto
    ultimately show ?thesis using False
      by (auto simp: bit_simps Cons.IH)
  qed
qed

text \<open>Encoding and decoding are inverse to each other at matching widths.\<close>

lemma from_le_le_bytes:
  assumes "LENGTH('a) = 8 * n"
  shows "from_le (le_bytes n w) = (w :: 'a::len word)"
proof (rule bit_word_eqI)
  fix k assume "k < LENGTH('a)"
  then have "k div 8 < n" using assms by auto
  with \<open>k < LENGTH('a)\<close> show "bit (from_le (le_bytes n w) :: 'a word) k = bit w k"
    by (auto simp: bit_from_le le_bytes_def bit_simps)
qed

lemma le_bytes_from_le:
  assumes "length bs = n" "8 * n \<le> LENGTH('a::len)"
  shows "le_bytes n (from_le bs :: 'a word) = bs"
proof (rule nth_equalityI)
  show "length (le_bytes n (from_le bs :: 'a word)) = length bs" using assms by simp
next
  fix i assume "i < length (le_bytes n (from_le bs :: 'a word))"
  then have i: "i < n" by simp
  show "le_bytes n (from_le bs :: 'a word) ! i = bs ! i"
  proof (rule bit_word_eqI)
    fix k assume "k < LENGTH(8)"
    then have k: "k < 8" by simp
    then have "(8 * i + k) div 8 = i" "(8 * i + k) mod 8 = k" by simp_all
    moreover have "8 * i + k < LENGTH('a)" using i k assms(2) by linarith
    ultimately show "bit (le_bytes n (from_le bs :: 'a word) ! i) k = bit (bs ! i) k"
      using i k assms(1) by (simp add: le_bytes_def bit_simps bit_from_le)
  qed
qed

end
