(* ===== verification/Floating.thy ===== *)
theory Floating
  imports Prelude "HOL-Library.Log_Nat"
begin

text \<open>
  The floating-point arithmetic of the program. A finite \<^verbatim>\<open>double\<close> is its real value; each
  arithmetic operation is the exact real operation followed by \<open>f64_round\<close>, rounding to the
  nearest multiple of the unit in the last place with ties to even (IEEE 754 binary64,
  subnormals included). Infinities and NaN are not values of this model: no quantity of the
  program (seconds, world units, counts) comes near the binary64 range. The sign of a zero is
  not tracked. The interface every client uses is the locale \<open>rounding\<close>, interpreted for
  binary64 and binary32. \<open>f64_to_f32\<close> is the bit-level conversion behind
  \<^verbatim>\<open>static_cast<float>\<close>.
\<close>

section \<open>Rounding half to even\<close>

definition rhe :: "real \<Rightarrow> int" where
  "rhe x = (let f = \<lfloor>x\<rfloor>; d = x - of_int f in
     if d < 1/2 then f else if 1/2 < d then f + 1 else if even f then f else f + 1)"

lemma rhe_bounds: "\<lfloor>x\<rfloor> \<le> rhe x" "rhe x \<le> \<lfloor>x\<rfloor> + 1"
  by (simp_all add: rhe_def Let_def)

lemma rhe_of_int [simp]: "rhe (of_int n) = n"
  by (simp add: rhe_def)

lemma rhe_mono: "x \<le> y \<Longrightarrow> rhe x \<le> rhe y"
proof (cases "\<lfloor>x\<rfloor> = \<lfloor>y\<rfloor>")
  case True
  assume "x \<le> y" with True show ?thesis by (auto simp: rhe_def Let_def)
next
  case False
  assume "x \<le> y"
  then have "\<lfloor>x\<rfloor> + 1 \<le> \<lfloor>y\<rfloor>" using False floor_mono [of x y] by linarith
  then show ?thesis using rhe_bounds(2) [of x] rhe_bounds(1) [of y] by linarith
qed

lemma rhe_le: "x \<le> of_int n \<Longrightarrow> rhe x \<le> n"
  using rhe_mono [of x "of_int n"] by simp

lemma rhe_ge: "of_int n \<le> x \<Longrightarrow> n \<le> rhe x"
  using rhe_mono [of "of_int n" x] by simp

lemma rhe_uminus: "rhe (- x) = - rhe x"
proof (cases "x = of_int \<lfloor>x\<rfloor>")
  case True
  then show ?thesis by (metis of_int_minus rhe_of_int)
next
  case False
  then have "\<lfloor>- x\<rfloor> = - \<lfloor>x\<rfloor> - 1"
    using floor_correct [of x] by (intro floor_unique) (simp_all, linarith+)
  then show ?thesis by (auto simp: rhe_def Let_def)
qed

section \<open>The binary exponent of a positive real\<close>

text \<open>Computed on integers, so that it evaluates; \<open>ilog2_bounds\<close> characterises it.\<close>

definition ilog2 :: "real \<Rightarrow> int" where
  "ilog2 x = (if 1 \<le> x then bitlen \<lfloor>x\<rfloor> - 1 else - bitlen (\<lceil>1 / x\<rceil> - 1))"

lemma of_int_pow2:
  fixes a :: int
  shows of_int_le_pow2: "a \<le> 2 ^ n \<Longrightarrow> real_of_int a \<le> 2 ^ n"
    and of_int_less_pow2: "a < 2 ^ n \<Longrightarrow> real_of_int a < 2 ^ n"
    and pow2_le_of_int: "2 ^ n \<le> a \<Longrightarrow> 2 ^ n \<le> real_of_int a"
proof -
  have p: "real_of_int (2 ^ n) = 2 ^ n" by simp
  show "a \<le> 2 ^ n \<Longrightarrow> real_of_int a \<le> 2 ^ n" by (subst p [symmetric], subst of_int_le_iff)
  show "a < 2 ^ n \<Longrightarrow> real_of_int a < 2 ^ n" by (subst p [symmetric], subst of_int_less_iff)
  show "2 ^ n \<le> a \<Longrightarrow> 2 ^ n \<le> real_of_int a" by (subst p [symmetric], subst of_int_le_iff)
qed

lemma powi2_pos [simp]: "(0::real) < 2 powi k"
  by (simp add: zero_less_power_int)

lemma powi2_mono: "j \<le> k \<Longrightarrow> (2::real) powi j \<le> 2 powi k"
  by (simp add: power_int_increasing)

lemma powi2_add: "(2::real) powi (j + k) = 2 powi j * 2 powi k"
  by (simp add: power_int_add)

lemma powi2_nonneg_nat: "0 \<le> k \<Longrightarrow> (2::real) powi k = 2 ^ nat k"
  by (simp add: power_int_def)

lemma ilog2_bounds:
  assumes "0 < x"
  shows "2 powi (ilog2 x) \<le> x" "x < 2 powi (ilog2 x + 1)"
proof -
  have *: "2 powi (ilog2 x) \<le> x \<and> x < 2 powi (ilog2 x + 1)"
  proof (cases "1 \<le> x")
    case True
    then have fp: "0 < \<lfloor>x\<rfloor>" by simp
    have b: "2 ^ nat (bitlen \<lfloor>x\<rfloor> - 1) \<le> \<lfloor>x\<rfloor>" "\<lfloor>x\<rfloor> < 2 ^ nat (bitlen \<lfloor>x\<rfloor>)"
      using bitlen_bounds [OF fp] by auto
    have pos: "0 < bitlen \<lfloor>x\<rfloor>" using bitlen_nonneg bitlen_eq_zero_iff fp by (metis less_le not_le)
    from b(1) have "(2::real) ^ nat (bitlen \<lfloor>x\<rfloor> - 1) \<le> of_int \<lfloor>x\<rfloor>"
      by (rule pow2_le_of_int)
    moreover from b(2) have "\<lfloor>x\<rfloor> + 1 \<le> 2 ^ nat (bitlen \<lfloor>x\<rfloor>)" by linarith
    then have "of_int \<lfloor>x\<rfloor> + 1 \<le> (2::real) ^ nat (bitlen \<lfloor>x\<rfloor>)"
      using of_int_le_pow2 by fastforce
    ultimately have "(2::real) ^ nat (bitlen \<lfloor>x\<rfloor> - 1) \<le> x" "x < 2 ^ nat (bitlen \<lfloor>x\<rfloor>)"
      using of_int_floor_le [of x] real_of_int_floor_add_one_gt [of x] by linarith+
    then show ?thesis using True pos by (simp add: ilog2_def powi2_nonneg_nat)
  next
    case False
    let ?c = "\<lceil>1 / x\<rceil>"
    let ?b = "bitlen (?c - 1)"
    have "1 < 1 / x" using assms False by simp
    then have c: "1 < ?c" by linarith
    then have fp: "0 < ?c - 1" by simp
    have b: "2 ^ nat (?b - 1) \<le> ?c - 1" "?c - 1 < 2 ^ nat ?b"
      using bitlen_bounds [OF fp] by auto
    have pos: "0 < ?b" using bitlen_nonneg bitlen_eq_zero_iff fp by (metis less_le not_le)
    from b(1) have "(2::real) ^ nat (?b - 1) \<le> of_int (?c - 1)"
      by (rule pow2_le_of_int)
    then have lo: "2 powi (?b - 1) < 1 / x"
      using pos ceiling_correct [of "1/x"] by (simp add: powi2_nonneg_nat)
    from b(2) have "?c \<le> 2 ^ nat ?b" by linarith
    then have "of_int ?c \<le> (2::real) ^ nat ?b"
      by (rule of_int_le_pow2)
    then have "1 / x \<le> 2 ^ nat ?b" using le_of_int_ceiling [of "1 / x"] by linarith
    then have hi: "1 / x \<le> 2 powi ?b" using pos by (simp add: powi2_nonneg_nat)
    have e: "ilog2 x = - ?b" using False by (simp add: ilog2_def)
    have "2 powi (- ?b) \<le> x" using hi assms
      by (simp add: power_int_minus field_simps)
    moreover have "x < 2 powi (- ?b + 1)" 
    proof -
      have "x * 2 powi (?b - 1) < 1" using lo assms by (simp add: field_simps)
      moreover have "(2::real) powi (- ?b + 1) * 2 powi (?b - 1) = 1"
        by (simp flip: powi2_add)
      ultimately show ?thesis by (metis mult_less_cancel_right_pos powi2_pos)
    qed
    ultimately show ?thesis by (simp add: e)
  qed
  then show "2 powi (ilog2 x) \<le> x" "x < 2 powi (ilog2 x + 1)" by auto
qed

lemma ilog2_unique: "2 powi k \<le> x \<Longrightarrow> x < 2 powi (k + 1) \<Longrightarrow> ilog2 x = k"
proof -
  assume a: "2 powi k \<le> x" "x < 2 powi (k + 1)"
  then have "0 < x" using powi2_pos [of k] by linarith
  note b = ilog2_bounds [OF this]
  have "\<not> k < ilog2 x" using a b powi2_mono [of "k + 1" "ilog2 x"] by auto
  moreover have "\<not> ilog2 x < k" using a b powi2_mono [of "ilog2 x + 1" k] by auto
  ultimately show ?thesis by simp
qed

lemma ilog2_mono: "0 < x \<Longrightarrow> x \<le> y \<Longrightarrow> ilog2 x \<le> ilog2 y"
proof (rule ccontr)
  assume a: "0 < x" "x \<le> y" "\<not> ilog2 x \<le> ilog2 y"
  then have "(2::real) powi (ilog2 y + 1) \<le> 2 powi (ilog2 x)" by (intro powi2_mono) simp
  with ilog2_bounds [of x] ilog2_bounds [of y] a show False by linarith
qed

section \<open>Rounding to a binary format of precision \<open>p\<close>\<close>

definition fp_exp :: "nat \<Rightarrow> int \<Rightarrow> real \<Rightarrow> int" where
  "fp_exp p emin x = max emin (ilog2 \<bar>x\<bar> - int p + 1)"

definition fp_round :: "nat \<Rightarrow> int \<Rightarrow> real \<Rightarrow> real" where
  "fp_round p emin x =
     (if x = 0 then 0
      else let e = fp_exp p emin x in of_int (rhe (x / 2 powi e)) * 2 powi e)"

definition fp_rep :: "nat \<Rightarrow> int \<Rightarrow> real \<Rightarrow> bool" where
  "fp_rep p emin x \<longleftrightarrow> (\<exists>m e. x = of_int m * 2 powi e \<and> \<bar>m\<bar> < 2 ^ p \<and> emin \<le> e)"

lemma fp_round_0 [simp]: "fp_round p emin 0 = 0"
  by (simp add: fp_round_def)

lemma fp_round_uminus: "fp_round p emin (- x) = - fp_round p emin x"
  by (simp add: fp_round_def fp_exp_def Let_def rhe_uminus)


text \<open>An integer multiple of the unit in the last place bounds the rounded value.\<close>

lemma fp_grid:
  assumes "x \<noteq> 0" "g = of_int m * 2 powi e" "fp_exp p emin x \<le> e"
  shows fp_grid_upper: "x \<le> g \<Longrightarrow> fp_round p emin x \<le> g"
    and fp_grid_lower: "g \<le> x \<Longrightarrow> g \<le> fp_round p emin x"
proof -
  define u where "u = (2::real) powi fp_exp p emin x"
  define n where "n = m * 2 ^ nat (e - fp_exp p emin x)"
  have u: "0 < u" by (simp add: u_def)
  have "(2::real) powi e = 2 powi (e - fp_exp p emin x) * u"
    by (simp add: u_def power_int_diff)
  then have g: "g = of_int n * u"
    using assms(2,3) by (simp add: n_def powi2_nonneg_nat)
  have r: "fp_round p emin x = of_int (rhe (x / u)) * u"
    using assms(1) by (simp add: fp_round_def u_def Let_def)
  show "fp_round p emin x \<le> g" if "x \<le> g"
  proof -
    have "x / u \<le> of_int n" using that u g by (simp add: field_simps)
    then have "rhe (x / u) \<le> n" by (rule rhe_le)
    then show ?thesis using u by (simp add: r g)
  qed
  show "g \<le> fp_round p emin x" if "g \<le> x"
  proof -
    have "of_int n \<le> x / u" using that u g by (simp add: field_simps)
    then have "n \<le> rhe (x / u)" by (rule rhe_ge)
    then show ?thesis using u by (simp add: r g)
  qed
qed

lemma fp_round_rep:
  assumes "fp_rep p emin x"
  shows "fp_round p emin x = x"
proof (cases "x = 0")
  case False
  from assms obtain m e where x: "x = of_int m * 2 powi e" and m: "\<bar>m\<bar> < 2 ^ p" and e: "emin \<le> e"
    by (auto simp: fp_rep_def)
  have xp: "0 < \<bar>x\<bar>" using False by simp
  have "real_of_int \<bar>m\<bar> < 2 ^ p" using m by (rule of_int_less_pow2)
  then have "\<bar>x\<bar> < 2 powi (int p + e)" by (simp add: x abs_mult powi2_add)
  then have "ilog2 \<bar>x\<bar> < int p + e"
    using ilog2_bounds(1) [OF xp] powi2_mono [of "int p + e" "ilog2 \<bar>x\<bar>"] by linarith
  then have "fp_exp p emin x \<le> e" using e by (simp add: fp_exp_def)
  with False x show ?thesis using fp_grid [of x x m e p emin] by (simp add: antisym)
qed simp

lemma fp_rep_powi: "0 < p \<Longrightarrow> emin \<le> k \<Longrightarrow> fp_rep p emin (2 powi k)"
  unfolding fp_rep_def by (rule exI [of _ 1], rule exI [of _ k]) simp

lemma fp_rep_uminusI: "fp_rep p emin x \<Longrightarrow> fp_rep p emin (- x)"
  unfolding fp_rep_def
proof (elim exE conjE)
  fix m e
  assume "x = of_int m * 2 powi e" "\<bar>m\<bar> < 2 ^ p" "emin \<le> e"
  then show "\<exists>m e. - x = of_int m * 2 powi e \<and> \<bar>m\<bar> < 2 ^ p \<and> emin \<le> e"
    by (intro exI [of _ "- m"] exI [of _ e]) simp
qed

lemma fp_rep_uminus: "fp_rep p emin (- x) \<longleftrightarrow> fp_rep p emin x"
  using fp_rep_uminusI [of p emin x] fp_rep_uminusI [of p emin "- x"] by auto

lemma fp_rep_of_int:
  assumes "\<bar>n\<bar> < 2 ^ p" "emin \<le> 0"
  shows "fp_rep p emin (of_int n)"
  unfolding fp_rep_def using assms by (intro exI [of _ n] exI [of _ 0]) simp

lemma fp_round_mono_pos:
  assumes "0 < x" "x \<le> y" "0 < p"
  shows "fp_round p emin x \<le> fp_round p emin y"
proof (cases "fp_exp p emin x = fp_exp p emin y")
  case True
  have "rhe (x / 2 powi fp_exp p emin y) \<le> rhe (y / 2 powi fp_exp p emin y)"
    using assms by (intro rhe_mono) (simp add: divide_right_mono)
  then show ?thesis using True assms by (simp add: fp_round_def Let_def)
next
  case False
  have l: "ilog2 x \<le> ilog2 y" using assms by (intro ilog2_mono)
  with False assms have ex: "fp_exp p emin x < fp_exp p emin y" by (auto simp: fp_exp_def)
  let ?k = "ilog2 y"
  have k: "ilog2 x + 1 \<le> ?k" "fp_exp p emin y \<le> ?k"
    using ex assms l by (auto simp: fp_exp_def max_def split: if_splits)
  have "x \<le> 2 powi ?k"
    using ilog2_bounds(2) [OF assms(1)] powi2_mono [OF k(1)] by linarith
  then have "fp_round p emin x \<le> 2 powi ?k"
    using fp_grid_upper [of x "2 powi ?k" 1 ?k p emin] assms(1) k(2) ex by simp
  moreover have "2 powi ?k \<le> fp_round p emin y"
    using fp_grid_lower [of y "2 powi ?k" 1 ?k p emin] ilog2_bounds(1) [of y] assms k by simp
  ultimately show ?thesis by simp
qed

lemma fp_round_sign: "0 \<le> x \<Longrightarrow> 0 \<le> fp_round p emin x"
proof (cases "x = 0")
  case False
  assume "0 \<le> x"
  then show ?thesis using fp_grid_lower [of x 0 0 "fp_exp p emin x"] False by simp
qed simp

lemma fp_round_mono:
  assumes "x \<le> y" "0 < p"
  shows "fp_round p emin x \<le> fp_round p emin y"
proof -
  consider "0 < x" | "x \<le> 0" "0 \<le> y" | "y < 0" by linarith
  then show ?thesis
  proof cases
    case 1
    then show ?thesis using assms by (intro fp_round_mono_pos)
  next
    case 2
    then show ?thesis
      using fp_round_sign [of y p emin] fp_round_sign [of "- x" p emin] by (simp add: fp_round_uminus)
  next
    case 3
    then show ?thesis using fp_round_mono_pos [of "- y" "- x" p emin] assms
      by (simp add: fp_round_uminus)
  qed
qed

lemma fp_rep_round:
  assumes "0 < p"
  shows "fp_rep p emin (fp_round p emin x)"
proof (cases "x = 0")
  case True
  then show ?thesis unfolding fp_rep_def by (auto intro!: exI [of _ 0] exI [of _ emin])
next
  case False
  let ?e = "fp_exp p emin x"
  let ?m = "rhe (x / 2 powi ?e)"
  have e: "emin \<le> ?e" by (simp add: fp_exp_def)
  have r: "fp_round p emin x = of_int ?m * 2 powi ?e" using False by (simp add: fp_round_def Let_def)
  have "ilog2 \<bar>x\<bar> + 1 \<le> int p + ?e" by (simp add: fp_exp_def)
  from powi2_mono [OF this] have "\<bar>x\<bar> \<le> 2 powi (int p + ?e)"
    using ilog2_bounds(2) [of "\<bar>x\<bar>"] False by simp
  then have "\<bar>x / 2 powi ?e\<bar> \<le> 2 ^ p" by (simp add: field_simps powi2_add)
  from abs_le_D1 [OF this] abs_le_D2 [OF this]
  have "x / 2 powi ?e \<le> of_int (2 ^ p)" "of_int (- (2 ^ p)) \<le> x / 2 powi ?e" by simp_all
  then have "?m \<le> 2 ^ p" "- (2 ^ p) \<le> ?m" by - (erule rhe_le, erule rhe_ge)
  then consider "\<bar>?m\<bar> < 2 ^ p" | "?m = 2 ^ p" | "?m = - (2 ^ p)" by linarith
  then show ?thesis
  proof cases
    case 1
    then show ?thesis using e r unfolding fp_rep_def by blast
  next
    case 2
    then have "fp_round p emin x = 2 powi (int p + ?e)" by (simp add: r powi2_add)
    then show ?thesis using fp_rep_powi [OF assms, of emin "int p + ?e"] e by simp
  next
    case 3
    then have "fp_round p emin x = - (2 powi (int p + ?e))" by (simp add: r powi2_add)
    then show ?thesis using fp_rep_powi [OF assms, of emin "int p + ?e"] e by (simp add: fp_rep_uminus)
  qed
qed

section \<open>The interface of a rounding mode\<close>

locale rounding =
  fixes rnd :: "real \<Rightarrow> real"
    and rep :: "real \<Rightarrow> bool"
  assumes rnd_mono: "x \<le> y \<Longrightarrow> rnd x \<le> rnd y"
    and rnd_rep: "rep x \<Longrightarrow> rnd x = x"
    and rep_rnd: "rep (rnd x)"
    and rnd_uminus: "rnd (- x) = - rnd x"
begin

lemma rnd_idem: "rnd (rnd x) = rnd x"
  by (rule rnd_rep, rule rep_rnd)

lemma rnd_upper: "rep b \<Longrightarrow> x \<le> b \<Longrightarrow> rnd x \<le> b"
  using rnd_mono [of x b] rnd_rep [of b] by simp

lemma rnd_lower: "rep a \<Longrightarrow> a \<le> x \<Longrightarrow> a \<le> rnd x"
  using rnd_mono [of a x] rnd_rep [of a] by simp

lemma rnd_zero: "rnd 0 = 0"
  using rnd_uminus [of 0] by simp

lemma rnd_nonneg: "0 \<le> x \<Longrightarrow> 0 \<le> rnd x"
  using rnd_mono [of 0 x] rnd_zero by simp

lemma rnd_nonpos: "x \<le> 0 \<Longrightarrow> rnd x \<le> 0"
  using rnd_mono [of x 0] rnd_zero by simp

end

definition f64_round :: "real \<Rightarrow> real" where
  "f64_round = fp_round 53 (- 1074)"

definition f64_rep :: "real \<Rightarrow> bool" where
  "f64_rep = fp_rep 53 (- 1074)"

definition f32_round :: "real \<Rightarrow> real" where
  "f32_round = fp_round 24 (- 149)"

definition f32_rep :: "real \<Rightarrow> bool" where
  "f32_rep = fp_rep 24 (- 149)"

interpretation f64: rounding f64_round f64_rep
  unfolding f64_round_def f64_rep_def
  by unfold_locales (auto intro: fp_round_mono fp_round_rep fp_rep_round simp: fp_round_uminus)

interpretation f32: rounding f32_round f32_rep
  unfolding f32_round_def f32_rep_def
  by unfold_locales (auto intro: fp_round_mono fp_round_rep fp_rep_round simp: fp_round_uminus)

lemma f64_rep_of_int: "\<bar>n\<bar> < 2 ^ 53 \<Longrightarrow> f64_rep (of_int n)"
  unfolding f64_rep_def by (rule fp_rep_of_int) auto

lemma f64_rep_of_nat: "n < 2 ^ 53 \<Longrightarrow> f64_rep (of_nat n)"
  using f64_rep_of_int [of "int n"] by simp

lemma f64_rep_numeral: "numeral k < (2 ^ 53 :: int) \<Longrightarrow> f64_rep (numeral k)"
  using f64_rep_of_int [of "numeral k"] by simp

lemma f64_rep_0: "f64_rep 0" and f64_rep_1: "f64_rep 1"
  using f64_rep_of_int [of 0] f64_rep_of_int [of 1] by simp_all

lemma f64_rep_uminus: "f64_rep (- x) = f64_rep x"
  by (simp add: f64_rep_def fp_rep_uminus)

section \<open>The operations on doubles\<close>

type_synonym double = real

definition fadd :: "double \<Rightarrow> double \<Rightarrow> double" where "fadd a b = f64_round (a + b)"
definition fsub :: "double \<Rightarrow> double \<Rightarrow> double" where "fsub a b = f64_round (a - b)"
definition fmul :: "double \<Rightarrow> double \<Rightarrow> double" where "fmul a b = f64_round (a * b)"
definition fdiv :: "double \<Rightarrow> double \<Rightarrow> double" where "fdiv a b = f64_round (a / b)"

text \<open>\<^verbatim>\<open>static_cast<double>\<close> of an integer.\<close>

definition int_to_f64 :: "int \<Rightarrow> double" where "int_to_f64 n = f64_round (of_int n)"

lemma int_to_f64_exact: "\<bar>n\<bar> < 2 ^ 53 \<Longrightarrow> int_to_f64 n = of_int n"
  by (simp add: int_to_f64_def f64.rnd_rep f64_rep_of_int)

lemma nat_to_f64: "n < 2 ^ 53 \<Longrightarrow> int_to_f64 (int n) = real n"
  using int_to_f64_exact [of "int n"] by simp

lemma u64_to_f64: "unat (w :: u64) < 2 ^ 53 \<Longrightarrow> int_to_f64 (uint w) = real (unat w)"
  by (metis nat_to_f64 uint_nat)

lemma int_to_f64_mono: "m \<le> n \<Longrightarrow> int_to_f64 m \<le> int_to_f64 n"
  by (simp add: int_to_f64_def f64.rnd_mono)

lemma int_to_f64_nonneg: "0 \<le> n \<Longrightarrow> 0 \<le> int_to_f64 n"
  by (simp add: int_to_f64_def f64.rnd_nonneg)

lemma fdiv_mono: "x \<le> y \<Longrightarrow> 0 \<le> d \<Longrightarrow> fdiv x d \<le> fdiv y d"
  by (simp add: fdiv_def f64.rnd_mono divide_right_mono)

lemma fsub_mono: "x \<le> y \<Longrightarrow> fsub x d \<le> fsub y d"
  by (simp add: fsub_def f64.rnd_mono)

lemma fmul_mono: "x \<le> y \<Longrightarrow> 0 \<le> d \<Longrightarrow> fmul x d \<le> fmul y d"
  by (simp add: fmul_def f64.rnd_mono mult_right_mono)

section \<open>Narrowing a double to a float, on bit patterns\<close>

text \<open>
  \<open>rne_shift m k\<close> is \<open>m / 2 ^ k\<close> rounded to the nearest integer, ties to even. The
  exponent field counts from 1 for subnormals; a carry out of the rounded significand moves
  into the exponent field by addition, and a result past the largest float is an infinity. A
  NaN keeps its sign and the top bits of its payload and becomes quiet.
\<close>

definition rne_shift :: "nat \<Rightarrow> nat \<Rightarrow> nat" where
  "rne_shift m k = (if k = 0 then m else (m + 2 ^ (k - 1) - 1 + m div 2 ^ k mod 2) div 2 ^ k)"

definition f64_to_f32 :: "u64 \<Rightarrow> u32" where
  "f64_to_f32 w =
     (let s = unat w div 2 ^ 63;
          e = unat w div 2 ^ 52 mod 2 ^ 11;
          m = unat w mod 2 ^ 52;
          mag =
            (if e = 2047 then
               (if m = 0 then 255 * 2 ^ 23
                else 255 * 2 ^ 23 + 2 ^ 22 + m div 2 ^ 29 mod 2 ^ 22)
             else if 897 \<le> e then
               min (255 * 2 ^ 23) ((e - 897) * 2 ^ 23 + rne_shift (m + 2 ^ 52) 29)
             else if 1 \<le> e then rne_shift (m + 2 ^ 52) (29 + (897 - e))
             else 0)
      in of_nat (s * 2 ^ 31 + mag))"

end
