(* ===== verification/Json.thy ===== *)
theory Json
  imports Floating "HOL-Library.List_Lexorder" "HOL-Library.Char_ord"
begin

text \<open>
  JSON values as the program handles them through nlohmann::json: the value type, the
  accessors the sources call (\<^verbatim>\<open>contains\<close>, \<^verbatim>\<open>value\<close>, \<^verbatim>\<open>get\<close>, the type tests) with the
  library's exceptions as values of a sum type, and the decimal printing of integers that
  \<^verbatim>\<open>std::to_string\<close> and \<^verbatim>\<open>snprintf\<close> do. JSON text is the library's: a parser and a printer are
  arguments of the definitions that use them. The printer is partial, because \<^verbatim>\<open>dump\<close> raises type
  error 316 on a string that is not well-formed UTF-8, and what it prints is read back as
  \<open>canon\<close> of the value, not as the value itself.
\<close>

section \<open>Results that may be errors\<close>

fun ebind :: "'e + 'a \<Rightarrow> ('a \<Rightarrow> 'e + 'b) \<Rightarrow> 'e + 'b" where
  "ebind (Inl e) f = Inl e"
| "ebind (Inr x) f = f x"

lemma ebind_Inr_iff: "ebind x f = Inr y \<longleftrightarrow> (\<exists>a. x = Inr a \<and> f a = Inr y)"
  by (cases x) auto

lemma ebind_Inl_iff: "ebind x f = Inl e \<longleftrightarrow> x = Inl e \<or> (\<exists>a. x = Inr a \<and> f a = Inl e)"
  by (cases x) auto

text \<open>A function that may fail, on a list; the first failure ends it.\<close>

fun emap :: "('a \<Rightarrow> 'e + 'b) \<Rightarrow> 'a list \<Rightarrow> 'e + 'b list" where
  "emap f [] = Inr []"
| "emap f (x # xs) = ebind (f x) (\<lambda>y. ebind (emap f xs) (\<lambda>ys. Inr (y # ys)))"

lemma emap_total: "(\<And>x. x \<in> set xs \<Longrightarrow> f x = Inr (g x)) \<Longrightarrow> emap f xs = Inr (map g xs)"
  by (induction xs) simp_all

lemma emap_map: "emap f (map g xs) = emap (f \<circ> g) xs"
  by (induction xs) simp_all

lemma emap_length: "emap f xs = Inr ys \<Longrightarrow> length ys = length xs"
  by (induction xs arbitrary: ys) (auto simp: ebind_Inr_iff)

section \<open>Decimal printing\<close>

definition digit :: "nat \<Rightarrow> char" where
  "digit d = char_of (48 + d)"

fun dec :: "nat \<Rightarrow> string" where
  "dec n = (if n < 10 then [digit n] else dec (n div 10) @ [digit (n mod 10)])"

declare dec.simps [simp del]

definition dec_int :: "int \<Rightarrow> string" where
  "dec_int i = (if i < 0 then CHR ''-'' # dec (nat (- i)) else dec (nat i))"

fun undec :: "string \<Rightarrow> nat" where
  "undec [] = 0"
| "undec (c # cs) = (of_char c - 48) * 10 ^ length cs + undec cs"

lemma undec_append: "undec (xs @ ys) = undec xs * 10 ^ length ys + undec ys"
  by (induction xs) (simp_all add: power_add algebra_simps)

lemma of_char_digit: "d < 10 \<Longrightarrow> of_char (digit d) = 48 + d"
  by (simp add: digit_def)

lemma undec_dec [simp]: "undec (dec n) = n"
proof (induction n rule: dec.induct)
  case (1 n)
  then show ?case
    by (subst dec.simps) (auto simp: undec_append of_char_digit)
qed

lemma undec_zeros: "undec (replicate k (CHR ''0'') @ s) = undec s"
  by (induction k) simp_all

lemma dec_inj: "dec m = dec n \<Longrightarrow> m = n"
  by (metis undec_dec)

lemma dec_not_Nil [simp]: "dec n \<noteq> []"
  by (subst dec.simps) simp

lemma set_dec: "set (dec n) \<subseteq> digit ` {..<10}"
proof (induction n rule: dec.induct)
  case (1 n)
  then show ?case by (subst dec.simps) auto
qed

section \<open>Values\<close>

datatype json =
    JNull
  | JBool bool
  | JUInt u64
  | JInt i64
  | JFloat double
  | JStr string
  | JArr "json list"
  | JObj "(string \<times> json) list"

text \<open>
  What an operation on a value can end in besides a result: an exception of the library, or
  \<open>NoMeaning\<close>, where the language gives the program no meaning (a conversion of a number that does
  not fit, a signed sum that overflows); no handler catches that.
\<close>

datatype json_error = TypeError nat | ParseError | NoMeaning

fun is_object :: "json \<Rightarrow> bool" where
  "is_object (JObj kvs) = True"
| "is_object _ = False"

definition jlookup :: "json \<Rightarrow> string \<Rightarrow> json option" where
  "jlookup j k = (case j of JObj kvs \<Rightarrow> map_of kvs k | _ \<Rightarrow> None)"

lemma jlookup_JObj [simp]: "jlookup (JObj kvs) k = map_of kvs k"
  by (simp add: jlookup_def)

definition contains :: "json \<Rightarrow> string \<Rightarrow> bool" where
  "contains j k \<longleftrightarrow> jlookup j k \<noteq> None"

text \<open>\<^verbatim>\<open>j[key] = v\<close> on an object.\<close>

definition jset :: "string \<Rightarrow> json \<Rightarrow> json \<Rightarrow> json" where
  "jset k v j = (case j of JObj kvs \<Rightarrow> JObj ((k, v) # filter (\<lambda>kv. fst kv \<noteq> k) kvs) | _ \<Rightarrow> j)"

text \<open>
  \<^verbatim>\<open>get<T>()\<close>. Conversions of integers to \<^verbatim>\<open>int\<close> keep the low 32 bits, those of a floating number
  have a meaning only if its integral part fits; a boolean converts to \<^verbatim>\<open>int\<close> but not to the
  64-bit and floating types; anything else raises type error 302.
\<close>

definition is_int32 :: "int \<Rightarrow> bool" where
  "is_int32 i \<longleftrightarrow> - (2 ^ 31) \<le> i \<and> i < 2 ^ 31"

text \<open>A sum of two \<^verbatim>\<open>int\<close>s.\<close>

definition add_int :: "int \<Rightarrow> int \<Rightarrow> json_error + int" where
  "add_int a b = (if is_int32 (a + b) then Inr (a + b) else Inl NoMeaning)"

definition to_int32 :: "int \<Rightarrow> int" where
  "to_int32 i = signed_take_bit 31 i"

lemma to_int32_id: "- (2 ^ 31) \<le> i \<Longrightarrow> i < 2 ^ 31 \<Longrightarrow> to_int32 i = i"
  by (simp add: to_int32_def signed_take_bit_int_eq_self)

definition trunc :: "double \<Rightarrow> int" where
  "trunc x = (if x < 0 then \<lceil>x\<rceil> else \<lfloor>x\<rfloor>)"

fun get_int :: "json \<Rightarrow> json_error + int" where
  "get_int (JUInt w) = Inr (to_int32 (uint w))"
| "get_int (JInt w) = Inr (to_int32 (sint w))"
| "get_int (JFloat x) = (if is_int32 (trunc x) then Inr (trunc x) else Inl NoMeaning)"
| "get_int (JBool b) = Inr (if b then 1 else 0)"
| "get_int _ = Inl (TypeError 302)"

definition fits_u64 :: "double \<Rightarrow> bool" where
  "fits_u64 x \<longleftrightarrow> 0 \<le> trunc x \<and> trunc x < 2 ^ 64"

fun get_u64 :: "json \<Rightarrow> json_error + u64" where
  "get_u64 (JUInt w) = Inr w"
| "get_u64 (JInt w) = Inr w"
| "get_u64 (JFloat x) = (if fits_u64 x then Inr (word_of_int (trunc x)) else Inl NoMeaning)"
| "get_u64 _ = Inl (TypeError 302)"

fun get_double :: "json \<Rightarrow> json_error + double" where
  "get_double (JUInt w) = Inr (int_to_f64 (uint w))"
| "get_double (JInt w) = Inr (int_to_f64 (sint w))"
| "get_double (JFloat x) = Inr x"
| "get_double _ = Inl (TypeError 302)"

fun get_string :: "json \<Rightarrow> json_error + string" where
  "get_string (JStr s) = Inr s"
| "get_string _ = Inl (TypeError 302)"

fun get_bool :: "json \<Rightarrow> json_error + bool" where
  "get_bool (JBool b) = Inr b"
| "get_bool _ = Inl (TypeError 302)"

text \<open>\<^verbatim>\<open>j.value(key, default)\<close>: only on objects, else type error 306.\<close>

definition jvalue :: "(json \<Rightarrow> json_error + 'a) \<Rightarrow> json \<Rightarrow> string \<Rightarrow> 'a \<Rightarrow> json_error + 'a" where
  "jvalue get j k dflt =
     (case j of
        JObj kvs \<Rightarrow> (case map_of kvs k of Some v \<Rightarrow> get v | None \<Rightarrow> Inr dflt)
      | _ \<Rightarrow> Inl (TypeError 306))"

lemma jvalue_JObj [simp]:
  "jvalue get (JObj kvs) k dflt = (case map_of kvs k of Some v \<Rightarrow> get v | None \<Rightarrow> Inr dflt)"
  by (simp add: jvalue_def)

text \<open>An \<^verbatim>\<open>int\<close> stored in a value.\<close>

definition jint :: "int \<Rightarrow> json" where
  "jint i = JInt (word_of_int i)"

lemma get_int_jint: "- (2 ^ 31) \<le> i \<Longrightarrow> i < 2 ^ 31 \<Longrightarrow> get_int (jint i) = Inr i"
proof -
  assume i: "- (2 ^ 31) \<le> i" "i < 2 ^ 31"
  then have "sint (word_of_int i :: i64) = i"
    by (simp add: signed_of_int signed_take_bit_int_eq_self)
  then show ?thesis using i by (simp add: jint_def to_int32_id)
qed

section \<open>What a printed value is read back as\<close>

text \<open>
  The parser gives a number without sign, point or exponent the unsigned type, and an object holds
  its keys in order.
\<close>

fun canon :: "json \<Rightarrow> json" where
  "canon (JInt w) = (if sint w \<ge> 0 then JUInt w else JInt w)"
| "canon (JArr js) = JArr (map canon js)"
| "canon (JObj kvs) = JObj (sort_key fst (map (map_prod id canon) kvs))"
| "canon j = j"

text \<open>Documented behaviour of the library, for one document.\<close>

definition reads_back :: "(string \<Rightarrow> 'e + json) \<Rightarrow> (json \<Rightarrow> string option) \<Rightarrow> json \<Rightarrow> bool" where
  "reads_back parse dump j \<longleftrightarrow> (\<exists>text. dump j = Some text \<and> text \<noteq> [] \<and> parse text = Inr (canon j))"

lemma map_of_filter_key: "map_of (filter (\<lambda>kv. fst kv = k) kvs) k = map_of kvs k"
  by (induction kvs) auto

lemma map_of_sort_key: "map_of (sort_key fst kvs) = map_of (kvs :: ('k :: linorder \<times> 'v) list)"
proof
  fix k
  have "filter (\<lambda>kv. fst kv = k) (sort_key fst kvs) = filter (\<lambda>kv. fst kv = k) kvs"
    by (rule sort_key_stable)
  then show "map_of (sort_key fst kvs) k = map_of kvs k" by (metis map_of_filter_key)
qed

lemma map_of_map_prod: "map_of (map (map_prod id f) kvs) k = map_option f (map_of kvs k)"
  by (induction kvs) auto

lemma jlookup_canon [simp]: "jlookup (canon j) k = map_option canon (jlookup j k)"
  by (cases j) (simp_all add: jlookup_def map_of_sort_key map_of_map_prod)

lemma is_object_canon [simp]: "is_object (canon j) = is_object j"
  by (cases j) simp_all

lemma sint_nonneg_uint: "sint (w :: i64) \<ge> 0 \<Longrightarrow> sint w = uint w"
proof -
  assume w: "sint w \<ge> 0"
  have "sint w < 2 ^ 64" using sint_lt [of w] by simp
  then have "take_bit 64 (sint w) = sint w" using w by (intro take_bit_int_eq_self) simp_all
  then show ?thesis by (simp add: uint_sint)
qed

lemma get_canon [simp]:
  "get_int (canon j) = get_int j" "get_u64 (canon j) = get_u64 j" "get_double (canon j) = get_double j"
  "get_string (canon j) = get_string j" "get_bool (canon j) = get_bool j"
  by (cases j; simp add: sint_nonneg_uint)+

lemma jvalue_canon:
  assumes "\<And>v. get (canon v) = get v"
  shows "jvalue get (canon j) k d = jvalue get j k d"
  by (cases j) (simp_all add: jvalue_def map_of_sort_key map_of_map_prod assms split: option.split)

lemma jvalue_any_canon: "canon d = d \<Longrightarrow> jvalue Inr (canon j) k d = map_sum id canon (jvalue Inr j k d)"
  by (cases j) (simp_all add: jvalue_def map_of_sort_key map_of_map_prod split: option.split)

end
