(* ===== verification/Snapshot.thy ===== *)
theory Snapshot
  imports Json "HOL-Library.Multiset"
begin

text \<open>
  Counter snapshots (\<^verbatim>\<open>CounterSnap\<close> in \<^verbatim>\<open>src/Stats.hpp\<close> and \<^verbatim>\<open>src/Stats.cpp\<close>): the record, the
  window difference \<open>snap_minus\<close>, the fleet sum \<open>snap_plus\<close>, the interpolated percentile and
  the conversion to and from JSON. Counters are 64-bit words and wrap as the program's do; the
  three sign-in tallies are \<^verbatim>\<open>int\<close>s, and a sum of them that does not fit has no meaning (\<open>snap_sum\<close> is
  the sum without that bound, a specification). \<open>snap_fromJson\<close> reads any document, \<open>read_snap\<close> only one
  whose floating counters can be converted.
\<close>

section \<open>The record\<close>

record CounterSnap =
  cs_txPackets :: u64
  cs_txBytes :: u64
  cs_txSendErrors :: u64
  cs_rxDatagrams :: u64
  cs_rxBytes :: u64
  cs_rxBundles :: u64
  cs_rxSignedBundles :: u64
  cs_rxSignedMembers :: u64
  cs_txCapabilities :: u64
  cs_rxActorNotifications :: u64
  cs_rxOtherSpatial :: u64
  cs_rxErrorMessages :: u64
  cs_rxReconnectCommands :: u64
  cs_rxSilentReassigns :: u64
  cs_rcvbufSetFailures :: u64
  cs_rxHmacFailures :: u64
  cs_rxMalformed :: u64
  cs_tokenRefreshes :: u64
  cs_refreshesKeptServer :: u64
  cs_reassignments :: u64
  cs_controlFailures :: u64
  cs_unauthorizedFirstContact :: u64
  cs_unauthorizedWindowReload :: u64
  cs_latencySamples :: u64
  cs_latencySumMs :: u64
  cs_latencyMaxMs :: u64
  cs_latencyHist :: "u64 list"
  cs_errorCodes :: "u64 list"
  cs_signInReused :: int
  cs_signInMintedBefore :: int
  cs_signInMintedDuring :: int

definition LATENCY_BUCKETS :: nat where
  "LATENCY_BUCKETS = 23"

definition kLatencyBounds :: "int list" where
  "kLatencyBounds =
     [1, 2, 3, 4, 5, 7, 10, 15, 20, 25, 30,
      40, 50, 75, 100, 150, 200, 250, 400, 600, 1000, 2000]"

text \<open>A value-initialised snapshot.\<close>

definition CounterSnap_init :: CounterSnap where
  "CounterSnap_init = \<lparr>
     cs_txPackets = 0,
     cs_txBytes = 0,
     cs_txSendErrors = 0,
     cs_rxDatagrams = 0,
     cs_rxBytes = 0,
     cs_rxBundles = 0,
     cs_rxSignedBundles = 0,
     cs_rxSignedMembers = 0,
     cs_txCapabilities = 0,
     cs_rxActorNotifications = 0,
     cs_rxOtherSpatial = 0,
     cs_rxErrorMessages = 0,
     cs_rxReconnectCommands = 0,
     cs_rxSilentReassigns = 0,
     cs_rcvbufSetFailures = 0,
     cs_rxHmacFailures = 0,
     cs_rxMalformed = 0,
     cs_tokenRefreshes = 0,
     cs_refreshesKeptServer = 0,
     cs_reassignments = 0,
     cs_controlFailures = 0,
     cs_unauthorizedFirstContact = 0,
     cs_unauthorizedWindowReload = 0,
     cs_latencySamples = 0,
     cs_latencySumMs = 0,
     cs_latencyMaxMs = 0,
     cs_latencyHist = replicate LATENCY_BUCKETS 0, cs_errorCodes = replicate 256 0,
     cs_signInReused = 0, cs_signInMintedBefore = 0, cs_signInMintedDuring = 0\<rparr>"

section \<open>Difference and sum\<close>

definition satSub :: "u64 \<Rightarrow> u64 \<Rightarrow> u64" where
  "satSub a b = (if a \<ge> b then a - b else 0)"

definition saturatingIntSub :: "int \<Rightarrow> int \<Rightarrow> int" where
  "saturatingIntSub a b =
     (let d = a - b in
      if d < 0 then 0 else if d > 2000000000 then 2000000000 else d)"

definition snap_minus :: "CounterSnap \<Rightarrow> CounterSnap \<Rightarrow> CounterSnap" where
  "snap_minus now origin = \<lparr>
     cs_txPackets = satSub (cs_txPackets now) (cs_txPackets origin),
     cs_txBytes = satSub (cs_txBytes now) (cs_txBytes origin),
     cs_txSendErrors = satSub (cs_txSendErrors now) (cs_txSendErrors origin),
     cs_rxDatagrams = satSub (cs_rxDatagrams now) (cs_rxDatagrams origin),
     cs_rxBytes = satSub (cs_rxBytes now) (cs_rxBytes origin),
     cs_rxBundles = satSub (cs_rxBundles now) (cs_rxBundles origin),
     cs_rxSignedBundles = satSub (cs_rxSignedBundles now) (cs_rxSignedBundles origin),
     cs_rxSignedMembers = satSub (cs_rxSignedMembers now) (cs_rxSignedMembers origin),
     cs_txCapabilities = satSub (cs_txCapabilities now) (cs_txCapabilities origin),
     cs_rxActorNotifications = satSub (cs_rxActorNotifications now) (cs_rxActorNotifications origin),
     cs_rxOtherSpatial = satSub (cs_rxOtherSpatial now) (cs_rxOtherSpatial origin),
     cs_rxErrorMessages = satSub (cs_rxErrorMessages now) (cs_rxErrorMessages origin),
     cs_rxReconnectCommands = satSub (cs_rxReconnectCommands now) (cs_rxReconnectCommands origin),
     cs_rxSilentReassigns = satSub (cs_rxSilentReassigns now) (cs_rxSilentReassigns origin),
     cs_rcvbufSetFailures = satSub (cs_rcvbufSetFailures now) (cs_rcvbufSetFailures origin),
     cs_rxHmacFailures = satSub (cs_rxHmacFailures now) (cs_rxHmacFailures origin),
     cs_rxMalformed = satSub (cs_rxMalformed now) (cs_rxMalformed origin),
     cs_tokenRefreshes = satSub (cs_tokenRefreshes now) (cs_tokenRefreshes origin),
     cs_refreshesKeptServer = satSub (cs_refreshesKeptServer now) (cs_refreshesKeptServer origin),
     cs_reassignments = satSub (cs_reassignments now) (cs_reassignments origin),
     cs_controlFailures = satSub (cs_controlFailures now) (cs_controlFailures origin),
     cs_unauthorizedFirstContact = satSub (cs_unauthorizedFirstContact now) (cs_unauthorizedFirstContact origin),
     cs_unauthorizedWindowReload = satSub (cs_unauthorizedWindowReload now) (cs_unauthorizedWindowReload origin),
     cs_latencySamples = satSub (cs_latencySamples now) (cs_latencySamples origin),
     cs_latencySumMs = satSub (cs_latencySumMs now) (cs_latencySumMs origin),
     cs_latencyMaxMs = cs_latencyMaxMs now,
     cs_latencyHist =
       map (\<lambda>i. satSub (cs_latencyHist now ! i) (cs_latencyHist origin ! i)) [0..<LATENCY_BUCKETS],
     cs_errorCodes =
       map (\<lambda>i. satSub (cs_errorCodes now ! i) (cs_errorCodes origin ! i)) [0..<256],
     cs_signInReused = saturatingIntSub (cs_signInReused now) (cs_signInReused origin),
     cs_signInMintedBefore = saturatingIntSub (cs_signInMintedBefore now) (cs_signInMintedBefore origin),
     cs_signInMintedDuring = saturatingIntSub (cs_signInMintedDuring now) (cs_signInMintedDuring origin)\<rparr>"

text \<open>\<open>snap_sum\<close> adds without bounds; the program's sum has a meaning where the tallies stay \<^verbatim>\<open>int\<close>s.\<close>

definition snap_sum :: "CounterSnap \<Rightarrow> CounterSnap \<Rightarrow> CounterSnap" where
  "snap_sum a b = \<lparr>
     cs_txPackets = cs_txPackets a + cs_txPackets b,
     cs_txBytes = cs_txBytes a + cs_txBytes b,
     cs_txSendErrors = cs_txSendErrors a + cs_txSendErrors b,
     cs_rxDatagrams = cs_rxDatagrams a + cs_rxDatagrams b,
     cs_rxBytes = cs_rxBytes a + cs_rxBytes b,
     cs_rxBundles = cs_rxBundles a + cs_rxBundles b,
     cs_rxSignedBundles = cs_rxSignedBundles a + cs_rxSignedBundles b,
     cs_rxSignedMembers = cs_rxSignedMembers a + cs_rxSignedMembers b,
     cs_txCapabilities = cs_txCapabilities a + cs_txCapabilities b,
     cs_rxActorNotifications = cs_rxActorNotifications a + cs_rxActorNotifications b,
     cs_rxOtherSpatial = cs_rxOtherSpatial a + cs_rxOtherSpatial b,
     cs_rxErrorMessages = cs_rxErrorMessages a + cs_rxErrorMessages b,
     cs_rxReconnectCommands = cs_rxReconnectCommands a + cs_rxReconnectCommands b,
     cs_rxSilentReassigns = cs_rxSilentReassigns a + cs_rxSilentReassigns b,
     cs_rcvbufSetFailures = cs_rcvbufSetFailures a + cs_rcvbufSetFailures b,
     cs_rxHmacFailures = cs_rxHmacFailures a + cs_rxHmacFailures b,
     cs_rxMalformed = cs_rxMalformed a + cs_rxMalformed b,
     cs_tokenRefreshes = cs_tokenRefreshes a + cs_tokenRefreshes b,
     cs_refreshesKeptServer = cs_refreshesKeptServer a + cs_refreshesKeptServer b,
     cs_reassignments = cs_reassignments a + cs_reassignments b,
     cs_controlFailures = cs_controlFailures a + cs_controlFailures b,
     cs_unauthorizedFirstContact = cs_unauthorizedFirstContact a + cs_unauthorizedFirstContact b,
     cs_unauthorizedWindowReload = cs_unauthorizedWindowReload a + cs_unauthorizedWindowReload b,
     cs_latencySamples = cs_latencySamples a + cs_latencySamples b,
     cs_latencySumMs = cs_latencySumMs a + cs_latencySumMs b,
     cs_latencyMaxMs = max (cs_latencyMaxMs a) (cs_latencyMaxMs b),
     cs_latencyHist =
       map (\<lambda>i. cs_latencyHist a ! i + cs_latencyHist b ! i) [0..<LATENCY_BUCKETS],
     cs_errorCodes = map (\<lambda>i. cs_errorCodes a ! i + cs_errorCodes b ! i) [0..<256],
     cs_signInReused = cs_signInReused a + cs_signInReused b,
     cs_signInMintedBefore = cs_signInMintedBefore a + cs_signInMintedBefore b,
     cs_signInMintedDuring = cs_signInMintedDuring a + cs_signInMintedDuring b\<rparr>"

definition snap_plus :: "CounterSnap \<Rightarrow> CounterSnap \<Rightarrow> json_error + CounterSnap" where
  "snap_plus a b =
     ebind (add_int (cs_signInReused a) (cs_signInReused b)) (\<lambda>_.
     ebind (add_int (cs_signInMintedBefore a) (cs_signInMintedBefore b)) (\<lambda>_.
     ebind (add_int (cs_signInMintedDuring a) (cs_signInMintedDuring b)) (\<lambda>_.
     Inr (snap_sum a b))))"

section \<open>Percentiles\<close>

text \<open>
  The bucket loop of \<^verbatim>\<open>percentileMs\<close>: the bucket in which the running count reaches the
  target, interpolated between its bounds.
\<close>

function percentile_loop :: "u64 list \<Rightarrow> double \<Rightarrow> nat \<Rightarrow> u64 \<Rightarrow> int \<Rightarrow> double" where
  "percentile_loop hist target i cum lo =
     (if i < LATENCY_BUCKETS then
        let n = hist ! i;
            hi = (if i < LATENCY_BUCKETS - 1 then kLatencyBounds ! i
                  else kLatencyBounds ! (LATENCY_BUCKETS - 2) * 2)
        in if int_to_f64 (uint (cum + n)) \<ge> target \<or> i = LATENCY_BUCKETS - 1 then
             if n = 0 then int_to_f64 hi
             else let frac = fdiv (fsub target (int_to_f64 (uint cum))) (int_to_f64 (uint n));
                      frac = (if frac < 0 then 0 else frac);
                      frac = (if frac > 1 then 1 else frac)
                  in fadd (int_to_f64 lo) (fmul frac (int_to_f64 (hi - lo)))
           else percentile_loop hist target (i + 1) (cum + n) hi
      else int_to_f64 lo)"
  by pat_completeness auto
termination
  by (relation "measure (\<lambda>(hist, target, i, cum, lo). LATENCY_BUCKETS - i)") auto

declare percentile_loop.simps [simp del]

definition percentileMs :: "CounterSnap \<Rightarrow> double \<Rightarrow> double" where
  "percentileMs snap p =
     (if cs_latencySamples snap = 0 then 0
      else let p = (if p < 0 then 0 else p);
               p = (if p > 1 then 1 else p);
               target = fmul p (int_to_f64 (uint (cs_latencySamples snap)));
               target = (if target < 1 then 1 else target)
           in percentile_loop (cs_latencyHist snap) target 0 0 0)"

section \<open>JSON\<close>

definition errorCodeName :: "int \<Rightarrow> string" where
  "errorCodeName code =
     (if code = 5 then ''INVALID_TOKEN''
      else if code = 6 then ''APP_NOT_FOUND''
      else if code = 7 then ''UNAUTHORIZED''
      else if code = 13 then ''GAME_TOKEN_WRONG_SIZE''
      else if code = 15 then ''INVALID_REQUEST''
      else if code = 18 then ''INVALID_APP_ID''
      else if code = 20 then ''USER_NOT_AUTHENTICATED''
      else if code = 32 then ''TOKEN_EXPIRED''
      else ''UNKNOWN'')"

definition bucketLabel :: "int \<Rightarrow> string" where
  "bucketLabel i =
     (if i \<le> 0 then ''<'' @ dec_int (kLatencyBounds ! 0) @ ''ms''
      else if i \<ge> int LATENCY_BUCKETS - 1 then
        ''>='' @ dec_int (kLatencyBounds ! (LATENCY_BUCKETS - 2)) @ ''ms''
      else ''<'' @ dec_int (kLatencyBounds ! nat i) @ ''ms'')"

definition latencyJson :: "CounterSnap \<Rightarrow> json" where
  "latencyJson s =
     (let hist = map (\<lambda>i. JObj
            [(''le_ms'', if i < LATENCY_BUCKETS - 1 then jint (kLatencyBounds ! i) else JNull),
             (''n'', JUInt (cs_latencyHist s ! i)),
             (''label'', JStr (bucketLabel (int i)))]) [0..<LATENCY_BUCKETS]
      in JObj
        [(''samples'', JUInt (cs_latencySamples s)),
         (''sum_ms'', JUInt (cs_latencySumMs s)),
         (''avg_ms'', JFloat (if cs_latencySamples s \<noteq> 0
                             then fdiv (int_to_f64 (uint (cs_latencySumMs s)))
                                       (int_to_f64 (uint (cs_latencySamples s)))
                             else 0)),
         (''max_ms'', JUInt (cs_latencyMaxMs s)),
         (''p50_ms'', JFloat (percentileMs s (f64_round (50 / 100)))),
         (''p95_ms'', JFloat (percentileMs s (f64_round (95 / 100)))),
         (''p99_ms'', JFloat (percentileMs s (f64_round (99 / 100)))),
         (''hist'', JArr hist)])"

definition error_row :: "u64 list \<Rightarrow> nat \<Rightarrow> json" where
  "error_row codes c = JObj
     [(''code'', jint (int c)), (''name'', JStr (errorCodeName (int c))), (''n'', JUInt (codes ! c))]"

definition errorsJson :: "CounterSnap \<Rightarrow> json" where
  "errorsJson s =
     (let arr = map (error_row (cs_errorCodes s)) (filter (\<lambda>c. cs_errorCodes s ! c \<noteq> 0) [0..<256]);
          unauth = cs_errorCodes s ! 7;
          unexplained =
            (if unauth > cs_unauthorizedFirstContact s + cs_unauthorizedWindowReload s
             then unauth - cs_unauthorizedFirstContact s - cs_unauthorizedWindowReload s else 0)
      in JObj
        [(''by_code'', JArr arr),
         (''unauthorized_first_contact'', JUInt (cs_unauthorizedFirstContact s)),
         (''unauthorized_window_reload'', JUInt (cs_unauthorizedWindowReload s)),
         (''unauthorized_unexplained'', JUInt unexplained)])"

definition countersJson :: "CounterSnap \<Rightarrow> json" where
  "countersJson s = JObj
     [(''tx_packets'', JUInt (cs_txPackets s)),
      (''tx_bytes'', JUInt (cs_txBytes s)),
      (''tx_send_errors'', JUInt (cs_txSendErrors s)),
      (''rx_datagrams'', JUInt (cs_rxDatagrams s)),
      (''rx_bytes'', JUInt (cs_rxBytes s)),
      (''rx_bundles'', JUInt (cs_rxBundles s)),
      (''rx_signed_bundles'', JUInt (cs_rxSignedBundles s)),
      (''rx_signed_members'', JUInt (cs_rxSignedMembers s)),
      (''tx_capabilities'', JUInt (cs_txCapabilities s)),
      (''rx_actor_notifications'', JUInt (cs_rxActorNotifications s)),
      (''rx_other_spatial'', JUInt (cs_rxOtherSpatial s)),
      (''rx_error_messages'', JUInt (cs_rxErrorMessages s)),
      (''rx_reconnect_commands'', JUInt (cs_rxReconnectCommands s)),
      (''rx_silent_reassigns'', JUInt (cs_rxSilentReassigns s)),
      (''rcvbuf_set_failures'', JUInt (cs_rcvbufSetFailures s)),
      (''rx_hmac_failures'', JUInt (cs_rxHmacFailures s)),
      (''rx_malformed'', JUInt (cs_rxMalformed s)),
      (''token_refreshes'', JUInt (cs_tokenRefreshes s)),
      (''refreshes_kept_server'', JUInt (cs_refreshesKeptServer s)),
      (''reassignments'', JUInt (cs_reassignments s)),
      (''control_failures'', JUInt (cs_controlFailures s)),
      (''latency'', latencyJson s),
      (''errors'', errorsJson s),
      (''sign_in'', JObj
         [(''reused'', jint (cs_signInReused s)),
          (''minted_before'', jint (cs_signInMintedBefore s)),
          (''minted_during'', jint (cs_signInMintedDuring s))])]"

definition jU64 :: "json \<Rightarrow> string \<Rightarrow> u64" where
  "jU64 j k =
     (case jlookup j k of
        Some (JUInt w) \<Rightarrow> w
      | Some (JInt w) \<Rightarrow> w
      | Some (JFloat x) \<Rightarrow> word_of_int (trunc x)
      | _ \<Rightarrow> 0)"

definition jInt :: "json \<Rightarrow> string \<Rightarrow> int" where
  "jInt j k =
     (case jlookup j k of
        Some (JUInt w) \<Rightarrow> to_int32 (uint w)
      | Some (JInt w) \<Rightarrow> to_int32 (sint w)
      | _ \<Rightarrow> 0)"

definition read_error_row :: "u64 list \<Rightarrow> json \<Rightarrow> u64 list" where
  "read_error_row codes row =
     (let code = jInt row ''code'' in
      if code \<ge> 0 \<and> code < 256 then codes[nat code := jU64 row ''n''] else codes)"

definition fromJson_latency :: "json \<Rightarrow> CounterSnap \<Rightarrow> CounterSnap" where
  "fromJson_latency j s =
     (case jlookup j ''latency'' of
        Some (JObj kvs) \<Rightarrow>
          let L = JObj kvs;
              s = s\<lparr>cs_latencySamples := jU64 L ''samples'', cs_latencySumMs := jU64 L ''sum_ms'',
                    cs_latencyMaxMs := jU64 L ''max_ms''\<rparr>
          in (case jlookup L ''hist'' of
                Some (JArr bs) \<Rightarrow>
                  s\<lparr>cs_latencyHist :=
                      put 0 (take LATENCY_BUCKETS (map (\<lambda>b. jU64 b ''n'') bs)) (cs_latencyHist s)\<rparr>
              | _ \<Rightarrow> s)
      | _ \<Rightarrow> s)"

definition fromJson_errors :: "json \<Rightarrow> CounterSnap \<Rightarrow> CounterSnap" where
  "fromJson_errors j s =
     (case jlookup j ''errors'' of
        Some (JObj kvs) \<Rightarrow>
          let E = JObj kvs;
              s = s\<lparr>cs_unauthorizedFirstContact := jU64 E ''unauthorized_first_contact'',
                    cs_unauthorizedWindowReload := jU64 E ''unauthorized_window_reload''\<rparr>
          in (case jlookup E ''by_code'' of
                Some (JArr rows) \<Rightarrow>
                  s\<lparr>cs_errorCodes := foldl read_error_row (cs_errorCodes s) rows\<rparr>
              | _ \<Rightarrow> s)
      | _ \<Rightarrow> s)"

definition fromJson_sign_in :: "json \<Rightarrow> CounterSnap \<Rightarrow> CounterSnap" where
  "fromJson_sign_in j s =
     (case jlookup j ''sign_in'' of
        Some (JObj kvs) \<Rightarrow>
          s\<lparr>cs_signInReused := jInt (JObj kvs) ''reused'',
            cs_signInMintedBefore := jInt (JObj kvs) ''minted_before'',
            cs_signInMintedDuring := jInt (JObj kvs) ''minted_during''\<rparr>
      | _ \<Rightarrow> s)"

definition snap_fromJson :: "json \<Rightarrow> CounterSnap" where
  "snap_fromJson j =
     (if \<not> is_object j then CounterSnap_init
      else let s = CounterSnap_init\<lparr>
           cs_txPackets := jU64 j ''tx_packets'',
           cs_txBytes := jU64 j ''tx_bytes'',
           cs_txSendErrors := jU64 j ''tx_send_errors'',
           cs_rxDatagrams := jU64 j ''rx_datagrams'',
           cs_rxBytes := jU64 j ''rx_bytes'',
           cs_rxBundles := jU64 j ''rx_bundles'',
           cs_rxSignedBundles := jU64 j ''rx_signed_bundles'',
           cs_rxSignedMembers := jU64 j ''rx_signed_members'',
           cs_txCapabilities := jU64 j ''tx_capabilities'',
           cs_rxActorNotifications := jU64 j ''rx_actor_notifications'',
           cs_rxOtherSpatial := jU64 j ''rx_other_spatial'',
           cs_rxErrorMessages := jU64 j ''rx_error_messages'',
           cs_rxReconnectCommands := jU64 j ''rx_reconnect_commands'',
           cs_rxSilentReassigns := jU64 j ''rx_silent_reassigns'',
           cs_rcvbufSetFailures := jU64 j ''rcvbuf_set_failures'',
           cs_rxHmacFailures := jU64 j ''rx_hmac_failures'',
           cs_rxMalformed := jU64 j ''rx_malformed'',
           cs_tokenRefreshes := jU64 j ''token_refreshes'',
           cs_refreshesKeptServer := jU64 j ''refreshes_kept_server'',
           cs_reassignments := jU64 j ''reassignments'',
           cs_controlFailures := jU64 j ''control_failures''\<rparr>
       in fromJson_sign_in j (fromJson_errors j (fromJson_latency j s)))"

text \<open>
  \<^verbatim>\<open>fromJson\<close> raises nothing, but a floating number in the place of a counter must fit it; then
  \<open>snap_fromJson\<close> is what is read.
\<close>

definition fits_at :: "json \<Rightarrow> string \<Rightarrow> bool" where
  "fits_at j k = (case jlookup j k of Some (JFloat x) \<Rightarrow> fits_u64 x | _ \<Rightarrow> True)"

definition counter_keys :: "string list" where
  "counter_keys =
     [''tx_packets'', ''tx_bytes'', ''tx_send_errors'', ''rx_datagrams'', ''rx_bytes'', ''rx_bundles'',
      ''rx_signed_bundles'', ''rx_signed_members'', ''tx_capabilities'', ''rx_actor_notifications'',
      ''rx_other_spatial'', ''rx_error_messages'', ''rx_reconnect_commands'', ''rx_silent_reassigns'',
      ''rcvbuf_set_failures'', ''rx_hmac_failures'', ''rx_malformed'', ''token_refreshes'',
      ''refreshes_kept_server'', ''reassignments'', ''control_failures'']"

definition latency_fits :: "json \<Rightarrow> bool" where
  "latency_fits j =
     (case jlookup j ''latency'' of
        Some (JObj kvs) \<Rightarrow>
          list_all (fits_at (JObj kvs)) [''samples'', ''sum_ms'', ''max_ms''] \<and>
          (case map_of kvs ''hist'' of
             Some (JArr bs) \<Rightarrow> list_all (\<lambda>b. fits_at b ''n'') (take LATENCY_BUCKETS bs)
           | _ \<Rightarrow> True)
      | _ \<Rightarrow> True)"

definition error_row_fits :: "json \<Rightarrow> bool" where
  "error_row_fits row \<longleftrightarrow> (0 \<le> jInt row ''code'' \<and> jInt row ''code'' < 256 \<longrightarrow> fits_at row ''n'')"

definition errors_fit :: "json \<Rightarrow> bool" where
  "errors_fit j =
     (case jlookup j ''errors'' of
        Some (JObj kvs) \<Rightarrow>
          list_all (fits_at (JObj kvs)) [''unauthorized_first_contact'', ''unauthorized_window_reload''] \<and>
          (case map_of kvs ''by_code'' of Some (JArr rows) \<Rightarrow> list_all error_row_fits rows | _ \<Rightarrow> True)
      | _ \<Rightarrow> True)"

definition read_snap :: "json \<Rightarrow> json_error + CounterSnap" where
  "read_snap j =
     (if \<not> is_object j \<or> list_all (fits_at j) counter_keys \<and> latency_fits j \<and> errors_fit j
      then Inr (snap_fromJson j) else Inl NoMeaning)"

section \<open>Specification vocabulary\<close>

text \<open>
  Shape of a snapshot (\<open>snap_wf\<close>: the two arrays have their declared lengths), the list of all 64-bit counters but the maximum, and for the percentile the
  bounds of a bucket, the samples below a bucket and the rank a percentile asks for.
\<close>

definition snap_wf :: "CounterSnap \<Rightarrow> bool" where
  "snap_wf s \<longleftrightarrow> length (cs_latencyHist s) = LATENCY_BUCKETS \<and> length (cs_errorCodes s) = 256"

definition snap_counters :: "CounterSnap \<Rightarrow> u64 list" where
  "snap_counters s =
     [cs_txPackets s, cs_txBytes s, cs_txSendErrors s,
      cs_rxDatagrams s, cs_rxBytes s, cs_rxBundles s,
      cs_rxSignedBundles s, cs_rxSignedMembers s, cs_txCapabilities s,
      cs_rxActorNotifications s, cs_rxOtherSpatial s, cs_rxErrorMessages s,
      cs_rxReconnectCommands s, cs_rxSilentReassigns s, cs_rcvbufSetFailures s,
      cs_rxHmacFailures s, cs_rxMalformed s, cs_tokenRefreshes s,
      cs_refreshesKeptServer s, cs_reassignments s, cs_controlFailures s,
      cs_unauthorizedFirstContact s, cs_unauthorizedWindowReload s, cs_latencySamples s,
      cs_latencySumMs s]
     @ cs_latencyHist s @ cs_errorCodes s"

definition sign_in_int32 :: "CounterSnap \<Rightarrow> bool" where
  "sign_in_int32 s \<longleftrightarrow> is_int32 (cs_signInReused s) \<and> is_int32 (cs_signInMintedBefore s) \<and>
     is_int32 (cs_signInMintedDuring s)"

definition bucket_hi :: "nat \<Rightarrow> int" where
  "bucket_hi i = (if i < LATENCY_BUCKETS - 1 then kLatencyBounds ! i
                  else kLatencyBounds ! (LATENCY_BUCKETS - 2) * 2)"

definition bucket_lo :: "nat \<Rightarrow> int" where
  "bucket_lo i = (if i = 0 then 0 else bucket_hi (i - 1))"

definition below :: "u64 list \<Rightarrow> nat \<Rightarrow> nat" where
  "below hist i = sum_list (map unat (take i hist))"

definition clamp01 :: "double \<Rightarrow> double" where
  "clamp01 x = (let z = (if x < 0 then 0 else x) in if z > 1 then 1 else z)"

definition interpolate :: "int \<Rightarrow> int \<Rightarrow> double \<Rightarrow> double" where
  "interpolate lo hi x = fadd (int_to_f64 lo) (fmul (clamp01 x) (int_to_f64 (hi - lo)))"

definition percentile_rank :: "CounterSnap \<Rightarrow> double \<Rightarrow> double" where
  "percentile_rank s p = max 1 (fmul (clamp01 p) (int_to_f64 (uint (cs_latencySamples s))))"

section \<open>The percentile loop\<close>

lemma bucket_bounds:
  assumes "i < LATENCY_BUCKETS"
  shows "0 \<le> bucket_lo i \<and> bucket_lo i < bucket_hi i \<and> bucket_hi i \<le> 4000"
proof -
  have "list_all (\<lambda>i. 0 \<le> bucket_lo i \<and> bucket_lo i < bucket_hi i \<and> bucket_hi i \<le> 4000)
          [0..<LATENCY_BUCKETS]"
    by code_simp
  then show ?thesis using assms by (simp add: list_all_iff)
qed

lemma clamp01_bounds: "0 \<le> clamp01 x" "clamp01 x \<le> 1"
  by (simp_all add: clamp01_def Let_def)

lemma clamp01_mono: "x \<le> y \<Longrightarrow> clamp01 x \<le> clamp01 y"
  by (simp add: clamp01_def Let_def)

lemma interpolate_mono:
  assumes "lo \<le> hi" "x \<le> y"
  shows "interpolate lo hi x \<le> interpolate lo hi y"
proof -
  have "0 \<le> int_to_f64 (hi - lo)"
    using assms by (simp add: int_to_f64_def f64.rnd_nonneg)
  then show ?thesis using clamp01_mono [OF assms(2)]
    by (simp add: interpolate_def fadd_def fmul_def f64.rnd_mono mult_right_mono)
qed

lemma interpolate_bounds:
  assumes "0 \<le> lo" "lo \<le> hi" "hi \<le> 4000"
  shows "int_to_f64 lo \<le> interpolate lo hi x" "interpolate lo hi x \<le> int_to_f64 hi"
proof -
  have e: "int_to_f64 lo = of_int lo" "int_to_f64 hi = of_int hi"
    using assms by (auto intro!: int_to_f64_exact)
  have e': "int_to_f64 (hi - lo) = of_int (hi - lo)" using assms by (intro int_to_f64_exact) simp
  have r: "f64_rep (of_int lo)" "f64_rep (of_int hi)" using assms by (auto intro!: f64_rep_of_int)
  have r': "f64_rep (of_int (hi - lo))" using assms by (intro f64_rep_of_int) simp
  define f where "f = clamp01 x"
  have f: "0 \<le> f" "f \<le> 1" by (auto simp: f_def clamp01_bounds)
  have i: "interpolate lo hi x = f64_round (of_int lo + f64_round (f * of_int (hi - lo)))"
    by (simp only: interpolate_def f_def fadd_def fmul_def e e')
  have d: "(0::real) \<le> of_int (hi - lo)" using assms by simp
  have m: "0 \<le> f64_round (f * of_int (hi - lo))" "f64_round (f * of_int (hi - lo)) \<le> of_int (hi - lo)"
    using f d r' by (auto intro!: f64.rnd_nonneg f64.rnd_upper mult_left_le_one_le simp del: of_int_diff)
  show "int_to_f64 lo \<le> interpolate lo hi x"
    unfolding i e using m r by (intro f64.rnd_lower) auto
  show "interpolate lo hi x \<le> int_to_f64 hi"
    unfolding i e using m r by (intro f64.rnd_upper) auto
qed

lemma percentile_loop_unfold:
  assumes "i < LATENCY_BUCKETS" "lo = bucket_lo i"
  shows "percentile_loop hist target i cum lo =
    (if target \<le> int_to_f64 (uint (cum + hist ! i)) \<or> i = LATENCY_BUCKETS - 1 then
       if hist ! i = 0 then int_to_f64 (bucket_hi i)
       else interpolate (bucket_lo i) (bucket_hi i)
          (fdiv (fsub target (int_to_f64 (uint cum))) (int_to_f64 (uint (hist ! i))))
     else percentile_loop hist target (Suc i) (cum + hist ! i) (bucket_lo (Suc i)))"
  using assms
  by (subst percentile_loop.simps) (simp add: bucket_hi_def bucket_lo_def interpolate_def clamp01_def Let_def)

lemma percentile_loop_bounds:
  assumes "i < LATENCY_BUCKETS"
  shows "int_to_f64 (bucket_lo i) \<le> percentile_loop hist target i cum (bucket_lo i) \<and>
         percentile_loop hist target i cum (bucket_lo i) \<le> 4000"
  using assms
proof (induction "LATENCY_BUCKETS - i" arbitrary: i cum rule: less_induct)
  case less
  note b = bucket_bounds [OF less.prems]
  have hi: "int_to_f64 (bucket_hi i) \<le> 4000" using b by (subst int_to_f64_exact) auto
  have lohi: "int_to_f64 (bucket_lo i) \<le> int_to_f64 (bucket_hi i)" using b by (intro int_to_f64_mono) simp
  show ?case
  proof (cases "target \<le> int_to_f64 (uint (cum + hist ! i)) \<or> i = LATENCY_BUCKETS - 1")
    case True
    then show ?thesis using b hi lohi interpolate_bounds [of "bucket_lo i" "bucket_hi i"]
      by (subst (1 2) percentile_loop_unfold [OF less.prems refl]) (auto intro: order_trans)
  next
    case False
    then have "Suc i < LATENCY_BUCKETS" using less.prems by auto
    moreover have "bucket_lo (Suc i) = bucket_hi i" by (simp add: bucket_lo_def)
    moreover have "LATENCY_BUCKETS - Suc i < LATENCY_BUCKETS - i" using less.prems by simp
    ultimately have "int_to_f64 (bucket_hi i) \<le>
        percentile_loop hist target (Suc i) (cum + hist ! i) (bucket_lo (Suc i)) \<and>
        percentile_loop hist target (Suc i) (cum + hist ! i) (bucket_lo (Suc i)) \<le> 4000"
      using less.hyps [of "Suc i" "cum + hist ! i"] by simp
    then show ?thesis using lohi False
      by (subst (1 2) percentile_loop_unfold [OF less.prems refl]) auto
  qed
qed

lemma percentile_loop_mono:
  assumes "i < LATENCY_BUCKETS" "s \<le> t"
  shows "percentile_loop hist s i cum (bucket_lo i) \<le> percentile_loop hist t i cum (bucket_lo i)"
  using assms(1)
proof (induction "LATENCY_BUCKETS - i" arbitrary: i cum rule: less_induct)
  case less
  let ?n = "hist ! i"
  note b = bucket_bounds [OF less.prems]
  note u = percentile_loop_unfold [OF less.prems refl, of hist _ cum]
  have lo_next: "bucket_lo (Suc i) = bucket_hi i" by (simp add: bucket_lo_def)
  show ?case
  proof (cases "i = LATENCY_BUCKETS - 1 \<or> t \<le> int_to_f64 (uint (cum + ?n))")
    case True
    then have stop: "i = LATENCY_BUCKETS - 1 \<or> s \<le> int_to_f64 (uint (cum + ?n))" using assms(2) by auto
    have "0 \<le> int_to_f64 (uint ?n)" by (simp add: int_to_f64_nonneg)
    then have "interpolate (bucket_lo i) (bucket_hi i)
          (fdiv (fsub s (int_to_f64 (uint cum))) (int_to_f64 (uint ?n)))
        \<le> interpolate (bucket_lo i) (bucket_hi i)
          (fdiv (fsub t (int_to_f64 (uint cum))) (int_to_f64 (uint ?n)))"
      using b assms(2) by (intro interpolate_mono fdiv_mono fsub_mono) simp_all
    then show ?thesis using True stop by (simp add: u disj_commute)
  next
    case False
    then have next_ok: "Suc i < LATENCY_BUCKETS" using less.prems by auto
    show ?thesis
    proof (cases "s \<le> int_to_f64 (uint (cum + ?n))")
      case True
      have "int_to_f64 (bucket_hi i) \<le> percentile_loop hist t (Suc i) (cum + ?n) (bucket_lo (Suc i))"
        using percentile_loop_bounds [OF next_ok, of hist t "cum + ?n"] by (simp add: lo_next)
      moreover have "percentile_loop hist s i cum (bucket_lo i) \<le> int_to_f64 (bucket_hi i)"
        using True b interpolate_bounds(2) [of "bucket_lo i" "bucket_hi i"] by (simp add: u)
      ultimately have "percentile_loop hist s i cum (bucket_lo i) \<le>
          percentile_loop hist t (Suc i) (cum + ?n) (bucket_lo (Suc i))"
        by (rule order_trans [rotated])
      then show ?thesis using False by (subst u [of t]) simp
    next
      case s: False
      have "LATENCY_BUCKETS - Suc i < LATENCY_BUCKETS - i" using less.prems by simp
      then show ?thesis using less.hyps [of "Suc i" "cum + ?n"] next_ok False s by (simp add: u)
    qed
  qed
qed

lemma below_Suc: "i < length hist \<Longrightarrow> below hist (Suc i) = below hist i + unat (hist ! i)"
  by (simp add: below_def take_Suc_conv_app_nth)

lemma below_mono: "i \<le> j \<Longrightarrow> below hist i \<le> below hist j"
proof -
  assume "i \<le> j"
  then have "take j hist = take i hist @ take (j - i) (drop i hist)"
    by (metis le_add_diff_inverse take_add)
  then show ?thesis by (simp add: below_def)
qed

lemma percentile_loop_bracket:
  assumes "i < LATENCY_BUCKETS" "length hist = LATENCY_BUCKETS" "below hist LATENCY_BUCKETS < 2 ^ 53"
    and "unat cum = below hist i" "real (below hist i) < target" "target \<le> real (below hist LATENCY_BUCKETS)"
  shows "\<exists>k < LATENCY_BUCKETS. real (below hist k) < target \<and> target \<le> real (below hist (Suc k)) \<and>
     of_int (bucket_lo k) \<le> percentile_loop hist target i cum (bucket_lo i) \<and>
     percentile_loop hist target i cum (bucket_lo i) \<le> of_int (bucket_hi k)"
  using assms(1,4,5)
proof (induction "LATENCY_BUCKETS - i" arbitrary: i cum rule: less_induct)
  case less
  let ?n = "hist ! i"
  note b = bucket_bounds [OF less.prems(1)]
  have S: "below hist (Suc i) = below hist i + unat ?n" using less.prems assms by (intro below_Suc) simp
  have le: "below hist (Suc i) \<le> below hist LATENCY_BUCKETS" using less.prems by (intro below_mono) simp
  have nooverflow: "unat cum + unat ?n < 2 ^ 64" using S le less.prems assms(3) by simp
  have add: "unat (cum + ?n) = below hist (Suc i)"
    using nooverflow S less.prems by (simp add: unat_word_ariths)
  have conv: "int_to_f64 (uint (cum + ?n)) = real (below hist (Suc i))"
    using add le assms(3) by (simp add: u64_to_f64)
  have e: "int_to_f64 (bucket_lo i) = of_int (bucket_lo i)" "int_to_f64 (bucket_hi i) = of_int (bucket_hi i)"
    using b by (auto intro!: int_to_f64_exact)
  show ?case
  proof (cases "target \<le> real (below hist (Suc i))")
    case True
    have "of_int (bucket_lo i) \<le> percentile_loop hist target i cum (bucket_lo i)"
      using percentile_loop_bounds [OF less.prems(1)] e by metis
    moreover have "percentile_loop hist target i cum (bucket_lo i) \<le> of_int (bucket_hi i)"
      using True b interpolate_bounds(2) [of "bucket_lo i" "bucket_hi i"]
      by (simp add: percentile_loop_unfold [OF less.prems(1) refl] conv e)
    ultimately show ?thesis using True less.prems by blast
  next
    case False
    then have "Suc i \<noteq> LATENCY_BUCKETS" using assms(6) by auto
    then have n: "Suc i < LATENCY_BUCKETS" using less.prems by simp
    have "percentile_loop hist target i cum (bucket_lo i) =
        percentile_loop hist target (Suc i) (cum + ?n) (bucket_lo (Suc i))"
      using False n by (subst percentile_loop_unfold [OF less.prems(1) refl]) (auto simp: conv)
    then show ?thesis using less.hyps [of "Suc i" "cum + ?n"] n add False by simp
  qed
qed

lemma percentileMs_loop:
  "cs_latencySamples s \<noteq> 0 \<Longrightarrow>
     percentileMs s p = percentile_loop (cs_latencyHist s) (percentile_rank s p) 0 0 (bucket_lo 0)"
  by (simp add: percentileMs_def percentile_rank_def clamp01_def Let_def bucket_lo_def max_def)

lemma percentileMs_no_samples: "cs_latencySamples s = 0 \<Longrightarrow> percentileMs s p = 0"
  by (simp add: percentileMs_def)

lemma percentile_rank_mono: "p \<le> q \<Longrightarrow> percentile_rank s p \<le> percentile_rank s q"
  unfolding percentile_rank_def
  by (intro max.mono order_refl fmul_mono clamp01_mono int_to_f64_nonneg) simp_all

section \<open>Windows\<close>

lemma satSub_add: "o1 \<le> n \<Longrightarrow> satSub n o1 + o1 = n"
  by (simp add: satSub_def)

lemma map_satSub_add:
  assumes "length xs = n" "length ys = n" "list_all2 (\<le>) ys xs"
  shows "map (\<lambda>i. map (\<lambda>i. satSub (xs ! i) (ys ! i)) [0..<n] ! i + ys ! i) [0..<n] = xs"
  using assms by (intro nth_equalityI) (auto simp: list_all2_conv_all_nth satSub_add)

lemma list_all2_append_same:
  "length ys = length ys' \<Longrightarrow> list_all2 P (ys @ zs) (ys' @ zs') \<longleftrightarrow> list_all2 P ys ys' \<and> list_all2 P zs zs'"
  by (simp add: list_all2_append)

lemma snap_sum_wf [simp]: "snap_wf (snap_sum a b)"
  by (simp add: snap_wf_def snap_sum_def)

lemma snap_minus_wf [simp]: "snap_wf (snap_minus a b)"
  by (simp add: snap_wf_def snap_minus_def)

lemma CounterSnap_init_wf [simp]: "snap_wf CounterSnap_init"
  by (simp add: snap_wf_def CounterSnap_init_def)

section \<open>Sums\<close>

lemma snap_sum_commute: "snap_sum a b = snap_sum b a"
  by (simp add: snap_sum_def add.commute max.commute)

lemma snap_sum_assoc: "snap_sum (snap_sum a b) c = snap_sum a (snap_sum b c)"
  by (simp add: snap_sum_def add.assoc max.assoc)

lemma snap_sum_init: "snap_wf a \<Longrightarrow> snap_sum CounterSnap_init a = a"
  by (cases a) (auto simp: snap_sum_def snap_wf_def CounterSnap_init_def intro: nth_equalityI)

locale merge_monoid =
  fixes mplus :: "'a \<Rightarrow> 'a \<Rightarrow> 'a" and mzero :: 'a and wf :: "'a \<Rightarrow> bool"
  assumes commute: "mplus a b = mplus b a"
    and assoc: "mplus (mplus a b) c = mplus a (mplus b c)"
    and unit: "wf a \<Longrightarrow> mplus mzero a = a"
    and wf_zero: "wf mzero"
    and wf_plus: "wf (mplus a b)"
begin

lemma left_commute: "mplus a (mplus b c) = mplus b (mplus a c)"
  by (metis assoc commute)

lemma fold_start: "foldl mplus (mplus a x) xs = mplus x (foldl mplus a xs)"
proof (induction xs arbitrary: a)
  case Nil
  show ?case by (simp add: commute)
next
  case (Cons y ys)
  have "mplus (mplus a x) y = mplus (mplus a y) x" by (metis assoc commute)
  then show ?case using Cons.IH by simp
qed

lemma fold_order: "mset xs = mset ys \<Longrightarrow> foldl mplus a xs = foldl mplus a ys"
proof (induction xs arbitrary: a ys)
  case Nil
  then show ?case by simp
next
  case (Cons x xs)
  then have "x \<in> set ys" by (metis list.set_intros(1) set_mset_mset)
  then obtain us vs where ys: "ys = us @ x # vs" by (meson split_list)
  with Cons.prems have "mset xs = mset (us @ vs)" by simp
  then have "foldl mplus a (x # xs) = mplus x (foldl mplus a (us @ vs))"
    using Cons.IH [of "us @ vs"] by (simp only: foldl_Cons fold_start)
  also have "\<dots> = foldl mplus a ys"
    by (simp add: ys fold_start)
  finally show ?case .
qed

lemma fold_split:
  "foldl mplus mzero (xs @ ys) = mplus (foldl mplus mzero xs) (foldl mplus mzero ys)"
proof (induction ys rule: rev_induct)
  case Nil
  have "wf (foldl mplus mzero xs)" by (cases xs rule: rev_cases) (simp_all add: wf_zero wf_plus)
  then show ?case using unit [of "foldl mplus mzero xs"] commute [of mzero "foldl mplus mzero xs"] by simp
next
  case (snoc y ys)
  then show ?case by (simp add: assoc flip: append_assoc)
qed

end

interpretation snap: merge_monoid snap_sum CounterSnap_init snap_wf
  by unfold_locales
     (rule snap_sum_commute snap_sum_assoc snap_sum_init CounterSnap_init_wf snap_sum_wf, assumption?)+

section \<open>JSON round trip\<close>

lemma jU64_row: "jU64 (JObj kvs) k = (case map_of kvs k of
        Some (JUInt w) \<Rightarrow> w
      | Some (JInt w) \<Rightarrow> w
      | Some (JFloat x) \<Rightarrow> word_of_int (trunc x)
      | _ \<Rightarrow> 0)"
  by (simp add: jU64_def)

lemma jInt_jint: "map_of kvs k = Some (jint i) \<Longrightarrow> is_int32 i \<Longrightarrow> jInt (JObj kvs) k = i"
  using get_int_jint [of i] by (simp add: jInt_def is_int32_def jint_def)

lemma read_error_row_row:
  assumes "c < 256"
  shows "read_error_row acc (error_row codes c) = acc[c := codes ! c]"
proof -
  have "jInt (error_row codes c) ''code'' = int c"
    unfolding error_row_def using assms by (intro jInt_jint) (simp_all add: is_int32_def)
  then show ?thesis using assms by (simp add: read_error_row_def error_row_def jU64_row)
qed

lemma read_error_rows:
  assumes "set cs \<subseteq> {..<256}" "length acc = 256"
  shows "foldl read_error_row acc (map (error_row codes) cs) =
         map (\<lambda>i. if i \<in> set cs then codes ! i else acc ! i) [0..<256]"
  using assms
proof (induction cs arbitrary: acc)
  case Nil
  then show ?case using map_nth [of acc] by simp
next
  case (Cons c cs)
  have "foldl read_error_row acc (map (error_row codes) (c # cs)) =
        map (\<lambda>i. if i \<in> set cs then codes ! i else acc[c := codes ! c] ! i) [0..<256]"
    using Cons by (simp add: read_error_row_row)
  also have "\<dots> = map (\<lambda>i. if i \<in> set (c # cs) then codes ! i else acc ! i) [0..<256]"
    using Cons.prems by (intro map_cong refl) (auto simp: nth_list_update)
  finally show ?case .
qed

lemma errors_back:
  assumes "length codes = 256"
  shows "foldl read_error_row (replicate 256 0)
           (map (error_row codes) (filter (\<lambda>c. codes ! c \<noteq> 0) [0..<256])) = codes"
  using assms by (subst read_error_rows) (auto intro!: nth_equalityI)

lemma fromJson_latency_countersJson:
  assumes "snap_wf s" "length (cs_latencyHist t) = LATENCY_BUCKETS"
  shows "fromJson_latency (countersJson s) t =
     t\<lparr>cs_latencySamples := cs_latencySamples s, cs_latencySumMs := cs_latencySumMs s,
       cs_latencyMaxMs := cs_latencyMaxMs s, cs_latencyHist := cs_latencyHist s\<rparr>"
proof -
  have 1: "jlookup (countersJson s) ''latency'' = Some (latencyJson s)"
    by (simp add: countersJson_def)
  have h: "put 0 (map (\<lambda>i. cs_latencyHist s ! i) [0..<LATENCY_BUCKETS]) (cs_latencyHist t) = cs_latencyHist s"
    using assms by (intro nth_equalityI) (simp_all add: nth_put snap_wf_def)
  show ?thesis
    unfolding fromJson_latency_def 1
    using h by (simp add: latencyJson_def Let_def jU64_row comp_def)
qed

lemma fromJson_errors_countersJson:
  assumes "snap_wf s" "cs_errorCodes t = replicate 256 0"
  shows "fromJson_errors (countersJson s) t =
     t\<lparr>cs_unauthorizedFirstContact := cs_unauthorizedFirstContact s,
       cs_unauthorizedWindowReload := cs_unauthorizedWindowReload s,
       cs_errorCodes := cs_errorCodes s\<rparr>"
proof -
  have 1: "jlookup (countersJson s) ''errors'' = Some (errorsJson s)"
    by (simp add: countersJson_def)
  show ?thesis
    unfolding fromJson_errors_def 1
    using errors_back [of "cs_errorCodes s"] assms
    by (simp add: errorsJson_def Let_def jU64_row snap_wf_def)
qed

lemma fromJson_sign_in_countersJson:
  assumes "sign_in_int32 s"
  shows "fromJson_sign_in (countersJson s) t =
     t\<lparr>cs_signInReused := cs_signInReused s, cs_signInMintedBefore := cs_signInMintedBefore s,
       cs_signInMintedDuring := cs_signInMintedDuring s\<rparr>"
proof -
  have 1: "jlookup (countersJson s) ''sign_in'' = Some (JObj
         [(''reused'', jint (cs_signInReused s)),
          (''minted_before'', jint (cs_signInMintedBefore s)),
          (''minted_during'', jint (cs_signInMintedDuring s))])"
    by (simp add: countersJson_def)
  show ?thesis
    unfolding fromJson_sign_in_def 1
    using assms by (simp add: sign_in_int32_def jInt_jint)
qed

lemma snap_fromJson_countersJson:
  assumes "snap_wf s" "sign_in_int32 s"
  shows "snap_fromJson (countersJson s) = s"
proof -
  have o: "is_object (countersJson s)" by (simp add: countersJson_def)
  have k: "jU64 (countersJson s) ''tx_packets'' = cs_txPackets s"
     "jU64 (countersJson s) ''tx_bytes'' = cs_txBytes s"
     "jU64 (countersJson s) ''tx_send_errors'' = cs_txSendErrors s"
     "jU64 (countersJson s) ''rx_datagrams'' = cs_rxDatagrams s"
     "jU64 (countersJson s) ''rx_bytes'' = cs_rxBytes s"
     "jU64 (countersJson s) ''rx_bundles'' = cs_rxBundles s"
     "jU64 (countersJson s) ''rx_signed_bundles'' = cs_rxSignedBundles s"
     "jU64 (countersJson s) ''rx_signed_members'' = cs_rxSignedMembers s"
     "jU64 (countersJson s) ''tx_capabilities'' = cs_txCapabilities s"
     "jU64 (countersJson s) ''rx_actor_notifications'' = cs_rxActorNotifications s"
     "jU64 (countersJson s) ''rx_other_spatial'' = cs_rxOtherSpatial s"
     "jU64 (countersJson s) ''rx_error_messages'' = cs_rxErrorMessages s"
     "jU64 (countersJson s) ''rx_reconnect_commands'' = cs_rxReconnectCommands s"
     "jU64 (countersJson s) ''rx_silent_reassigns'' = cs_rxSilentReassigns s"
     "jU64 (countersJson s) ''rcvbuf_set_failures'' = cs_rcvbufSetFailures s"
     "jU64 (countersJson s) ''rx_hmac_failures'' = cs_rxHmacFailures s"
     "jU64 (countersJson s) ''rx_malformed'' = cs_rxMalformed s"
     "jU64 (countersJson s) ''token_refreshes'' = cs_tokenRefreshes s"
     "jU64 (countersJson s) ''refreshes_kept_server'' = cs_refreshesKeptServer s"
     "jU64 (countersJson s) ''reassignments'' = cs_reassignments s"
     "jU64 (countersJson s) ''control_failures'' = cs_controlFailures s"
    by (simp_all add: countersJson_def jU64_row)
  show ?thesis
    unfolding snap_fromJson_def Let_def k using assms o
    by (cases s) (simp add: CounterSnap_init_def fromJson_latency_countersJson
        fromJson_errors_countersJson fromJson_sign_in_countersJson)
qed

lemma first_bucket: "0 < LATENCY_BUCKETS"
  by (simp add: LATENCY_BUCKETS_def)

text \<open>
  When the histogram accounts for every sample, the percentile lies in the bucket that holds the
  sample of the asked rank.
\<close>

lemma percentile_bracket:
  assumes "snap_wf s" "cs_latencySamples s \<noteq> 0" "unat (cs_latencySamples s) < 2 ^ 53"
    and "unat (cs_latencySamples s) = sum_list (map unat (cs_latencyHist s))"
  shows "\<exists>k < LATENCY_BUCKETS.
     real (sum_list (map unat (take k (cs_latencyHist s)))) < percentile_rank s p \<and>
     percentile_rank s p \<le> real (sum_list (map unat (take (Suc k) (cs_latencyHist s)))) \<and>
     of_int (bucket_lo k) \<le> percentileMs s p \<and> percentileMs s p \<le> of_int (bucket_hi k)"
proof -
  have len: "length (cs_latencyHist s) = LATENCY_BUCKETS" using assms by (simp add: snap_wf_def)
  have tot: "below (cs_latencyHist s) LATENCY_BUCKETS = unat (cs_latencySamples s)"
    using assms len by (simp add: below_def)
  have c: "int_to_f64 (uint (cs_latencySamples s)) = real (unat (cs_latencySamples s))"
    using assms(3) by (rule u64_to_f64)
  have r: "f64_rep (real (unat (cs_latencySamples s)))"
    using assms(3) by (rule f64_rep_of_nat)
  have "fmul (clamp01 p) (real (unat (cs_latencySamples s))) \<le> real (unat (cs_latencySamples s))"
    unfolding fmul_def using clamp01_bounds r by (intro f64.rnd_upper mult_left_le_one_le of_nat_0_le_iff) simp_all
  moreover have "1 \<le> real (unat (cs_latencySamples s))"
  proof -
    have "1 \<le> unat (cs_latencySamples s)" using assms(2) by (simp add: Suc_le_eq unat_gt_0)
    then show ?thesis by (metis of_nat_1 of_nat_mono)
  qed
  ultimately have "percentile_rank s p \<le> real (unat (cs_latencySamples s))"
    by (simp add: percentile_rank_def c)
  moreover have "0 < percentile_rank s p" by (simp add: percentile_rank_def)
  ultimately show ?thesis
    using percentile_loop_bracket [OF first_bucket len, of 0 "percentile_rank s p"] tot assms
    by (simp add: percentileMs_loop below_def)
qed

section \<open>Reading a snapshot that was printed\<close>

lemma snap_plus_fits:
  "snap_plus a b =
     (if is_int32 (cs_signInReused a + cs_signInReused b) \<and> is_int32 (cs_signInMintedBefore a + cs_signInMintedBefore b) \<and>
         is_int32 (cs_signInMintedDuring a + cs_signInMintedDuring b) then Inr (snap_sum a b) else Inl NoMeaning)"
  by (simp add: snap_plus_def add_int_def)

lemma read_snap_countersJson:
  assumes "snap_wf s" "sign_in_int32 s"
  shows "read_snap (countersJson s) = Inr s"
proof -
  have "list_all (fits_at (countersJson s)) counter_keys"
    by (simp add: counter_keys_def fits_at_def countersJson_def)
  moreover have "latency_fits (countersJson s)"
    by (auto simp: latency_fits_def countersJson_def latencyJson_def fits_at_def Let_def list_all_iff dest!: in_set_takeD)
  moreover have "errors_fit (countersJson s)"
    by (auto simp: errors_fit_def countersJson_def errorsJson_def fits_at_def Let_def list_all_iff error_row_fits_def error_row_def)
  ultimately show ?thesis by (simp add: read_snap_def snap_fromJson_countersJson [OF assms])
qed

lemma jU64_canon [simp]: "jU64 (canon j) k = jU64 j k"
proof (cases "jlookup j k")
  case (Some v)
  then show ?thesis by (cases v) (simp_all add: jU64_def)
qed (simp add: jU64_def)

lemma jInt_canon [simp]: "jInt (canon j) k = jInt j k"
proof (cases "jlookup j k")
  case (Some v)
  then show ?thesis by (cases v) (simp_all add: jInt_def sint_nonneg_uint)
qed (simp add: jInt_def)

lemma fits_at_canon [simp]: "fits_at (canon j) k = fits_at j k"
proof (cases "jlookup j k")
  case (Some v)
  then show ?thesis by (cases v) (simp_all add: fits_at_def)
qed (simp add: fits_at_def)

lemmas object_canon = jU64_canon [of "JObj kvs" for kvs, unfolded canon.simps] jInt_canon [of "JObj kvs" for kvs, unfolded canon.simps]
  fits_at_canon [of "JObj kvs" for kvs, unfolded canon.simps]

lemma read_error_row_canon: "read_error_row codes (canon row) = read_error_row codes row"
  by (simp add: read_error_row_def Let_def)

lemma fromJson_parts_canon:
  "fromJson_latency (canon j) s = fromJson_latency j s" "fromJson_errors (canon j) s = fromJson_errors j s"
  "fromJson_sign_in (canon j) s = fromJson_sign_in j s" "latency_fits (canon j) = latency_fits j" "errors_fit (canon j) = errors_fit j"
proof -
  show "fromJson_sign_in (canon j) s = fromJson_sign_in j s"
  proof (cases "jlookup j ''sign_in''")
    case (Some v)
    then show ?thesis by (cases v) (simp_all add: fromJson_sign_in_def object_canon)
  qed (simp add: fromJson_sign_in_def)
  show "fromJson_latency (canon j) s = fromJson_latency j s"
  proof (cases "\<exists>kvs. jlookup j ''latency'' = Some (JObj kvs)")
    case True
    then obtain kvs where kvs: "jlookup j ''latency'' = Some (JObj kvs)" by blast
    show ?thesis
    proof (cases "map_of kvs ''hist''")
      case (Some w)
      then show ?thesis using kvs
        by (cases w) (simp_all add: fromJson_latency_def object_canon map_of_sort_key map_of_map_prod Let_def comp_def take_map foldl_map
            list_all_iff read_error_row_canon error_row_fits_def)
    qed (use kvs in \<open>simp add: fromJson_latency_def object_canon map_of_sort_key map_of_map_prod Let_def\<close>)
  next
    case False
    then show ?thesis by (cases "jlookup j ''latency''"; cases "the (jlookup j ''latency'')") (auto simp: fromJson_latency_def)
  qed
  show "fromJson_errors (canon j) s = fromJson_errors j s"
  proof (cases "\<exists>kvs. jlookup j ''errors'' = Some (JObj kvs)")
    case True
    then obtain kvs where kvs: "jlookup j ''errors'' = Some (JObj kvs)" by blast
    show ?thesis
    proof (cases "map_of kvs ''by_code''")
      case (Some w)
      then show ?thesis using kvs
        by (cases w) (simp_all add: fromJson_errors_def object_canon map_of_sort_key map_of_map_prod Let_def comp_def take_map foldl_map
            list_all_iff read_error_row_canon error_row_fits_def)
    qed (use kvs in \<open>simp add: fromJson_errors_def object_canon map_of_sort_key map_of_map_prod Let_def\<close>)
  next
    case False
    then show ?thesis by (cases "jlookup j ''errors''"; cases "the (jlookup j ''errors'')") (auto simp: fromJson_errors_def)
  qed
  show "latency_fits (canon j) = latency_fits j"
  proof (cases "\<exists>kvs. jlookup j ''latency'' = Some (JObj kvs)")
    case True
    then obtain kvs where kvs: "jlookup j ''latency'' = Some (JObj kvs)" by blast
    show ?thesis
    proof (cases "map_of kvs ''hist''")
      case (Some w)
      then show ?thesis using kvs
        by (cases w) (simp_all add: latency_fits_def object_canon map_of_sort_key map_of_map_prod Let_def comp_def take_map foldl_map
            list_all_iff read_error_row_canon error_row_fits_def)
    qed (use kvs in \<open>simp add: latency_fits_def object_canon map_of_sort_key map_of_map_prod Let_def\<close>)
  next
    case False
    then show ?thesis by (cases "jlookup j ''latency''"; cases "the (jlookup j ''latency'')") (auto simp: latency_fits_def)
  qed
  show "errors_fit (canon j) = errors_fit j"
  proof (cases "\<exists>kvs. jlookup j ''errors'' = Some (JObj kvs)")
    case True
    then obtain kvs where kvs: "jlookup j ''errors'' = Some (JObj kvs)" by blast
    show ?thesis
    proof (cases "map_of kvs ''by_code''")
      case (Some w)
      then show ?thesis using kvs
        by (cases w) (simp_all add: errors_fit_def object_canon map_of_sort_key map_of_map_prod Let_def comp_def take_map foldl_map
            list_all_iff read_error_row_canon error_row_fits_def)
    qed (use kvs in \<open>simp add: errors_fit_def object_canon map_of_sort_key map_of_map_prod Let_def\<close>)
  next
    case False
    then show ?thesis by (cases "jlookup j ''errors''"; cases "the (jlookup j ''errors'')") (auto simp: errors_fit_def)
  qed
qed

lemma read_snap_canon [simp]: "read_snap (canon j) = read_snap j"
  by (simp add: read_snap_def snap_fromJson_def fromJson_parts_canon list_all_iff)

section \<open>Properties\<close>

text \<open>
  C37. A snapshot written with \<^verbatim>\<open>toJson\<close> and read with \<^verbatim>\<open>fromJson\<close> is the snapshot again: every
  counter, histogram bucket, error code and sign-in tally survives, although only the nonzero
  error codes are written.
\<close>

theorem snapshot_roundtrip:
  assumes "snap_wf s" "sign_in_int32 s"
  shows "snap_fromJson (countersJson s) = s"
  using assms by (rule snap_fromJson_countersJson)

theorem snapshot_roundtrip_witness:
  "snap_fromJson (countersJson (CounterSnap_init\<lparr>cs_txPackets := 5, cs_signInReused := 3\<rparr>)) =
     CounterSnap_init\<lparr>cs_txPackets := 5, cs_signInReused := 3\<rparr>"
  by (rule snapshot_roundtrip)
     (simp_all add: snap_wf_def sign_in_int32_def is_int32_def CounterSnap_init_def)

text \<open>
  The interpolated percentile is monotone in \<^verbatim>\<open>p\<close>, never negative and at most twice the
  last finite bucket bound, for every histogram, in floating-point arithmetic.
\<close>

theorem percentile_monotone:
  assumes "p \<le> q"
  shows "0 \<le> percentileMs s p \<and> percentileMs s p \<le> percentileMs s q \<and> percentileMs s q \<le> 4000"
proof (intro conjI)
  have z: "int_to_f64 (bucket_lo 0) = 0" by (simp add: bucket_lo_def int_to_f64_exact)
  show "0 \<le> percentileMs s p"
    using percentile_loop_bounds [OF first_bucket] z by (cases "cs_latencySamples s = 0") (simp_all add: percentileMs_loop percentileMs_no_samples)
  show "percentileMs s p \<le> percentileMs s q"
    using percentile_loop_mono [OF first_bucket percentile_rank_mono [OF assms]]
    by (cases "cs_latencySamples s = 0") (simp_all add: percentileMs_loop percentileMs_no_samples)
  show "percentileMs s q \<le> 4000"
    using percentile_loop_bounds [OF first_bucket] by (cases "cs_latencySamples s = 0") (simp_all add: percentileMs_loop percentileMs_no_samples)
qed

theorem percentile_monotone_witness:
  "0 \<le> percentileMs CounterSnap_init (1 / 2) \<and>
   percentileMs CounterSnap_init (1 / 2) \<le> percentileMs CounterSnap_init (9 / 10) \<and>
   percentileMs CounterSnap_init (9 / 10) \<le> 4000"
  by (rule percentile_monotone) simp

definition four_samples :: CounterSnap where
  "four_samples = CounterSnap_init\<lparr>cs_latencySamples := 4,
     cs_latencyHist := [0, 1, 0, 0, 2, 0, 1] @ replicate 16 0\<rparr>"

text \<open>
  A window loses nothing: where no counter has gone backwards since the origin was taken,
  adding the window difference to the origin gives back every lifetime counter, histogram
  bucket and error code.
\<close>

theorem window_decomposes:
  assumes "snap_wf now" "snap_wf origin"
    and "list_all2 (\<le>) (snap_counters origin) (snap_counters now)"
  shows "snap_counters (snap_sum (snap_minus now origin) origin) = snap_counters now"
proof -
  have l: "list_all2 (\<le>) (cs_latencyHist origin) (cs_latencyHist now)"
      "list_all2 (\<le>) (cs_errorCodes origin) (cs_errorCodes now)"
    using assms by (simp_all add: snap_counters_def snap_wf_def list_all2_append_same)
  note m = map_satSub_add [OF _ _ l(1), of LATENCY_BUCKETS] map_satSub_add [OF _ _ l(2), of 256]
  show ?thesis
    using assms m
    by (simp add: snap_counters_def snap_wf_def snap_sum_def snap_minus_def satSub_add)
qed

theorem window_decomposes_witness:
  "snap_counters (snap_sum (snap_minus four_samples CounterSnap_init) CounterSnap_init) =
     snap_counters four_samples"
  by (rule window_decomposes)
     (simp_all add: four_samples_def snap_wf_def snap_counters_def CounterSnap_init_def
        LATENCY_BUCKETS_def list_all2_append_same list_all2_same, code_simp)

end
