(* ===== verification/Stats.thy ===== *)
theory Stats
  imports Snapshot
begin

text \<open>
  The live counters (\<^verbatim>\<open>struct Stats\<close>), their latency histogram and rung window, the status
  document \<^verbatim>\<open>buildStatsJson\<close>, and the reporter with its interval rates, rows and final
  summary (\<^verbatim>\<open>src/Stats.hpp\<close>, \<^verbatim>\<open>src/Stats.cpp\<close>). An atomic counter is a field; each operation
  is taken as one step, and \<open>bump_step\<close> gives the interleavings of the one operation that is
  a loop over an atomic. Clock readings are arguments: nanoseconds of the steady and of the
  system clock (the latter after the epoch). What the reporter prints is a list of lines with
  their arguments; the text of a floating-point argument is left to the C library.
\<close>

section \<open>Data\<close>

record IntervalRates =
  iv_dtSec :: double
  iv_epochSec :: u64
  iv_txPps :: double
  iv_txBps :: double
  iv_rxDps :: double
  iv_rxBps :: double
  iv_rxNotifPs :: double
  iv_avgLatencyMs :: double

definition IntervalRates_init :: IntervalRates where
  "IntervalRates_init = \<lparr>iv_dtSec = 0, iv_epochSec = 0, iv_txPps = 0, iv_txBps = 0, iv_rxDps = 0,
     iv_rxBps = 0, iv_rxNotifPs = 0, iv_avgLatencyMs = 0\<rparr>"

record SnapshotMeta =
  sm_instanceId :: string
  sm_indexBase :: int
  sm_used :: int
  sm_limit :: int
  sm_busy :: bool
  sm_addError :: string
  sm_rungId :: string
  sm_windowOpenEpochSec :: u64
  sm_windowDurationSec :: double
  sm_activeClients :: int
  sm_suspendedClients :: int
  sm_replayLogging :: string
  sm_replayLoggingRequested :: string
  sm_replayLoggingAtEnd :: string

definition SnapshotMeta_init :: SnapshotMeta where
  "SnapshotMeta_init = \<lparr>sm_instanceId = [], sm_indexBase = 0, sm_used = 0, sm_limit = 0,
     sm_busy = False, sm_addError = [], sm_rungId = [], sm_windowOpenEpochSec = 0,
     sm_windowDurationSec = 0, sm_activeClients = 0, sm_suspendedClients = 0,
     sm_replayLogging = [], sm_replayLoggingRequested = [], sm_replayLoggingAtEnd = []\<rparr>"

record Stats =
  st_txPackets :: u64
  st_txBytes :: u64
  st_txSendErrors :: u64
  st_rxDatagrams :: u64
  st_rxBytes :: u64
  st_rxBundles :: u64
  st_rxSignedBundles :: u64
  st_rxSignedMembers :: u64
  st_txCapabilities :: u64
  st_rxActorNotifications :: u64
  st_rxOtherSpatial :: u64
  st_rxErrorMessages :: u64
  st_rxReconnectCommands :: u64
  st_rxSilentReassigns :: u64
  st_rcvbufSetFailures :: u64
  st_rxHmacFailures :: u64
  st_rxMalformed :: u64
  st_errorCodes :: "u64 list"
  st_unauthorizedFirstContact :: u64
  st_unauthorizedWindowReload :: u64
  st_latencySamples :: u64
  st_latencySumMs :: u64
  st_latencyMaxMs :: u64
  st_latencyHist :: "u64 list"
  st_windowLatencyMaxMs :: u64
  st_activeClients :: int
  st_suspendedClients :: int
  st_tokenRefreshes :: u64
  st_refreshesKeptServer :: u64
  st_reassignments :: u64
  st_controlFailures :: u64
  st_windowOrigin :: CounterSnap
  st_rungId :: string
  st_windowOpenEpochSec :: u64
  st_windowOpenSteady :: int
  st_interval :: IntervalRates
  st_signInReused :: int
  st_signInMintedBefore :: int
  st_signInMintedDuring :: int

definition Stats_init :: Stats where
  "Stats_init = \<lparr>
     st_txPackets = 0,
     st_txBytes = 0,
     st_txSendErrors = 0,
     st_rxDatagrams = 0,
     st_rxBytes = 0,
     st_rxBundles = 0,
     st_rxSignedBundles = 0,
     st_rxSignedMembers = 0,
     st_txCapabilities = 0,
     st_rxActorNotifications = 0,
     st_rxOtherSpatial = 0,
     st_rxErrorMessages = 0,
     st_rxReconnectCommands = 0,
     st_rxSilentReassigns = 0,
     st_rcvbufSetFailures = 0,
     st_rxHmacFailures = 0,
     st_rxMalformed = 0,
     st_errorCodes = replicate 256 0,
     st_unauthorizedFirstContact = 0,
     st_unauthorizedWindowReload = 0,
     st_latencySamples = 0,
     st_latencySumMs = 0,
     st_latencyMaxMs = 0,
     st_latencyHist = replicate LATENCY_BUCKETS 0,
     st_windowLatencyMaxMs = 0,
     st_activeClients = 0,
     st_suspendedClients = 0,
     st_tokenRefreshes = 0,
     st_refreshesKeptServer = 0,
     st_reassignments = 0,
     st_controlFailures = 0,
     st_windowOrigin = CounterSnap_init,
     st_rungId = [],
     st_windowOpenEpochSec = 0,
     st_windowOpenSteady = 0,
     st_interval = IntervalRates_init,
     st_signInReused = 0,
     st_signInMintedBefore = 0,
     st_signInMintedDuring = 0\<rparr>"

section \<open>Clocks\<close>

text \<open>\<^verbatim>\<open>duration_cast<seconds>\<close> of a system time and \<^verbatim>\<open>duration<double>\<close> of a span.\<close>

definition epoch_sec :: "int \<Rightarrow> u64" where
  "epoch_sec sysNs = word_of_int (sysNs div 1000000000)"

definition seconds_f64 :: "int \<Rightarrow> double" where
  "seconds_f64 ns = fdiv (int_to_f64 ns) 1000000000"

section \<open>Operations\<close>

definition bumpMax :: "u64 \<Rightarrow> u64 \<Rightarrow> u64" where
  "bumpMax slot v = (if v > slot then v else slot)"

function latency_bucket :: "int \<Rightarrow> nat \<Rightarrow> nat" where
  "latency_bucket ms i =
     (if i < LATENCY_BUCKETS - 1 then
        if ms < kLatencyBounds ! i then i else latency_bucket ms (i + 1)
      else LATENCY_BUCKETS - 1)"
  by pat_completeness auto
termination
  by (relation "measure (\<lambda>(ms, i). LATENCY_BUCKETS - i)") auto

declare latency_bucket.simps [simp del]

definition recordLatencyMs :: "i64 \<Rightarrow> Stats \<Rightarrow> Stats" where
  "recordLatencyMs ms st =
     (let ms = (if sint ms < 0 then 0 else ms);
          bucket = latency_bucket (sint ms) 0
      in st\<lparr>st_latencySamples := st_latencySamples st + 1,
            st_latencySumMs := st_latencySumMs st + ms,
            st_latencyMaxMs := bumpMax (st_latencyMaxMs st) ms,
            st_windowLatencyMaxMs := bumpMax (st_windowLatencyMaxMs st) ms,
            st_latencyHist := (st_latencyHist st)[bucket := st_latencyHist st ! bucket + 1]\<rparr>)"

definition loadLifetime :: "Stats \<Rightarrow> CounterSnap" where
  "loadLifetime st = \<lparr>
     cs_txPackets = st_txPackets st,
     cs_txBytes = st_txBytes st,
     cs_txSendErrors = st_txSendErrors st,
     cs_rxDatagrams = st_rxDatagrams st,
     cs_rxBytes = st_rxBytes st,
     cs_rxBundles = st_rxBundles st,
     cs_rxSignedBundles = st_rxSignedBundles st,
     cs_rxSignedMembers = st_rxSignedMembers st,
     cs_txCapabilities = st_txCapabilities st,
     cs_rxActorNotifications = st_rxActorNotifications st,
     cs_rxOtherSpatial = st_rxOtherSpatial st,
     cs_rxErrorMessages = st_rxErrorMessages st,
     cs_rxReconnectCommands = st_rxReconnectCommands st,
     cs_rxSilentReassigns = st_rxSilentReassigns st,
     cs_rcvbufSetFailures = st_rcvbufSetFailures st,
     cs_rxHmacFailures = st_rxHmacFailures st,
     cs_rxMalformed = st_rxMalformed st,
     cs_tokenRefreshes = st_tokenRefreshes st,
     cs_refreshesKeptServer = st_refreshesKeptServer st,
     cs_reassignments = st_reassignments st,
     cs_controlFailures = st_controlFailures st,
     cs_unauthorizedFirstContact = st_unauthorizedFirstContact st,
     cs_unauthorizedWindowReload = st_unauthorizedWindowReload st,
     cs_latencySamples = st_latencySamples st,
     cs_latencySumMs = st_latencySumMs st,
     cs_latencyMaxMs = st_latencyMaxMs st,
     cs_latencyHist = map (\<lambda>i. st_latencyHist st ! i) [0..<LATENCY_BUCKETS],
     cs_errorCodes = map (\<lambda>i. st_errorCodes st ! i) [0..<256],
     cs_signInReused = st_signInReused st,
     cs_signInMintedBefore = st_signInMintedBefore st,
     cs_signInMintedDuring = st_signInMintedDuring st\<rparr>"

definition markWindow :: "int \<Rightarrow> int \<Rightarrow> string \<Rightarrow> Stats \<Rightarrow> Stats" where
  "markWindow sysNs steadyNs rung st =
     st\<lparr>st_windowOrigin := loadLifetime st,
        st_rungId := rung,
        st_windowOpenEpochSec := epoch_sec sysNs,
        st_windowOpenSteady := steadyNs,
        st_windowLatencyMaxMs := 0\<rparr>"

definition loadWindow :: "Stats \<Rightarrow> CounterSnap" where
  "loadWindow st =
     (snap_minus (loadLifetime st) (st_windowOrigin st))\<lparr>cs_latencyMaxMs := st_windowLatencyMaxMs st\<rparr>"

definition windowDurationSec :: "int \<Rightarrow> Stats \<Rightarrow> double" where
  "windowDurationSec steadyNs st =
     (if st_windowOpenSteady st = 0 then 0 else seconds_f64 (steadyNs - st_windowOpenSteady st))"

definition setInterval :: "IntervalRates \<Rightarrow> Stats \<Rightarrow> Stats" where
  "setInterval r st = st\<lparr>st_interval := r\<rparr>"

definition setSignIn :: "int \<Rightarrow> int \<Rightarrow> int \<Rightarrow> Stats \<Rightarrow> Stats" where
  "setSignIn reused mintedBefore mintedDuring st =
     st\<lparr>st_signInReused := reused, st_signInMintedBefore := mintedBefore,
        st_signInMintedDuring := mintedDuring\<rparr>"

definition loadSignIn :: "Stats \<Rightarrow> int \<times> int \<times> int" where
  "loadSignIn st = (st_signInReused st, st_signInMintedBefore st, st_signInMintedDuring st)"

section \<open>The status document\<close>

definition buildStatsJson :: "SnapshotMeta \<Rightarrow> CounterSnap \<Rightarrow> CounterSnap \<Rightarrow> IntervalRates \<Rightarrow> json" where
  "buildStatsJson meta lifetime window interval = JObj
     [(''instance_id'', JStr (sm_instanceId meta)),
      (''index_base'', jint (sm_indexBase meta)),
      (''used'', jint (sm_used meta)),
      (''limit'', jint (sm_limit meta)),
      (''busy'', JBool (sm_busy meta)),
      (''add_error'', JStr (sm_addError meta)),
      (''rung_id'', JStr (sm_rungId meta)),
      (''replay_logging'', JStr (sm_replayLogging meta)),
      (''replay_logging_requested'', JStr (sm_replayLoggingRequested meta)),
      (''replay_logging_at_end'', JStr (sm_replayLoggingAtEnd meta)),
      (''gauges'', JObj
         [(''active'', jint (sm_activeClients meta)),
          (''suspended'', jint (sm_suspendedClients meta))]),
      (''lifetime'', countersJson lifetime),
      (''window'', JObj
         [(''id'', JStr (sm_rungId meta)),
          (''open_epoch_sec'', JUInt (sm_windowOpenEpochSec meta)),
          (''duration_sec'', JFloat (sm_windowDurationSec meta)),
          (''counters'', countersJson window)]),
      (''interval'', JObj
         [(''dt_sec'', JFloat (iv_dtSec interval)),
          (''epoch_sec'', JUInt (iv_epochSec interval)),
          (''tx_pps'', JFloat (iv_txPps interval)),
          (''tx_bps'', JFloat (iv_txBps interval)),
          (''rx_dps'', JFloat (iv_rxDps interval)),
          (''rx_bps'', JFloat (iv_rxBps interval)),
          (''rx_notif_ps'', JFloat (iv_rxNotifPs interval)),
          (''avg_latency_ms'', JFloat (iv_avgLatencyMs interval))])]"

definition replayLoggingLabel :: "bool option \<Rightarrow> string" where
  "replayLoggingLabel on =
     (case on of None \<Rightarrow> ''unknown'' | Some b \<Rightarrow> if b then ''on'' else ''off'')"

definition replay_warning :: string where
  "replay_warning =
     ''  WARNING: replay logging was not the same at both ends of the run, so the '' @
     ''rungs (which carry the start reading) may mix recorded and unrecorded '' @
     ''traffic.'' @ [CHR 0x0A]"

definition replayLoggingSummary :: "string \<Rightarrow> string \<Rightarrow> string \<Rightarrow> string" where
  "replayLoggingSummary requested atStart atEnd =
     (let finish = (if atEnd = [] then ''unknown'' else atEnd);
          out = ''replay logging: requested '' @ requested @ ''; '' @ atStart @
                '' at the start, '' @ finish @ '' at the end'' @ [CHR 0x0A]
      in if atStart \<noteq> finish then out @ replay_warning else out)"

section \<open>The reporter\<close>

definition interval_rates :: "CounterSnap \<Rightarrow> CounterSnap \<Rightarrow> int \<Rightarrow> int \<Rightarrow> IntervalRates" where
  "interval_rates cur prev elapsedNs sysNs =
     (let dt = seconds_f64 elapsedNs;
          dt = (if dt \<le> 0 then 1 else dt);
          rate = (\<lambda>f. fdiv (int_to_f64 (uint (satSub (f cur) (f prev)))) dt);
          dLatSamples = satSub (cs_latencySamples cur) (cs_latencySamples prev);
          dLatSum = satSub (cs_latencySumMs cur) (cs_latencySumMs prev)
      in \<lparr>iv_dtSec = dt, iv_epochSec = epoch_sec sysNs,
          iv_txPps = rate cs_txPackets, iv_txBps = rate cs_txBytes,
          iv_rxDps = rate cs_rxDatagrams, iv_rxBps = rate cs_rxBytes,
          iv_rxNotifPs = rate cs_rxActorNotifications,
          iv_avgLatencyMs =
            (if dLatSamples \<noteq> 0
             then fdiv (int_to_f64 (uint dLatSum)) (int_to_f64 (uint dLatSamples)) else 0)\<rparr>)"

datatype cell = CStr string | CU64 u64 | CInt int | CDouble double

definition csv_header :: "string list" where
  "csv_header =
     [''epoch_sec'', ''instance_id'', ''rung_id'', ''active_clients'', ''suspended_clients'',
      ''tx_pps'', ''tx_bps'', ''rx_dps'', ''rx_bps'', ''rx_notif_ps'', ''window_tx_packets'',
      ''window_rx_notifs'', ''rx_errors_total'', ''reconnects_total'',
      ''hmac_failures_total'', ''avg_latency_ms'', ''p50_ms'', ''p95_ms'', ''p99_ms'']"

text \<open>\<^verbatim>\<open>static_cast<uint64_t>\<close> of a rate.\<close>

definition f64_to_u64 :: "double \<Rightarrow> u64" where
  "f64_to_u64 x = word_of_int (trunc x)"

definition csv_row ::
  "string \<Rightarrow> string \<Rightarrow> int \<Rightarrow> int \<Rightarrow> IntervalRates \<Rightarrow> CounterSnap \<Rightarrow> CounterSnap \<Rightarrow> cell list" where
  "csv_row instanceId rid active suspended iv cur win =
     [CU64 (iv_epochSec iv), CStr instanceId, CStr rid, CInt active, CInt suspended,
      CU64 (f64_to_u64 (iv_txPps iv)), CU64 (f64_to_u64 (iv_txBps iv)),
      CU64 (f64_to_u64 (iv_rxDps iv)), CU64 (f64_to_u64 (iv_rxBps iv)),
      CU64 (f64_to_u64 (iv_rxNotifPs iv)), CU64 (cs_txPackets win),
      CU64 (cs_rxActorNotifications win), CU64 (cs_rxErrorMessages cur),
      CU64 (cs_rxReconnectCommands cur), CU64 (cs_rxHmacFailures cur),
      CDouble (iv_avgLatencyMs iv), CDouble (percentileMs win (f64_round (50 / 100))),
      CDouble (percentileMs win (f64_round (95 / 100))),
      CDouble (percentileMs win (f64_round (99 / 100)))]"

text \<open>The console line's arguments, in the order of its format.\<close>

definition console_line :: "int \<Rightarrow> int \<Rightarrow> IntervalRates \<Rightarrow> CounterSnap \<Rightarrow> CounterSnap \<Rightarrow> cell list" where
  "console_line active suspended iv cur win =
     [CInt active, CInt (active + suspended), CDouble (iv_txPps iv),
      CDouble (fdiv (iv_txBps iv) 1024), CDouble (iv_rxDps iv), CDouble (fdiv (iv_rxBps iv) 1024),
      CDouble (iv_rxNotifPs iv), CDouble (iv_avgLatencyMs iv),
      CDouble (percentileMs win (f64_round (99 / 100))),
      CU64 (cs_rxErrorMessages cur), CU64 (cs_rxReconnectCommands cur),
      CU64 (cs_rxHmacFailures cur), CU64 (cs_txSendErrors cur)]"

record Reporter =
  rp_csv :: bool
  rp_jsonl :: bool
  rp_instanceId :: string
  rp_prev :: CounterSnap
  rp_prevTime :: int

record Report =
  ro_console :: "cell list"
  ro_csv :: "cell list option"
  ro_jsonl :: "json option"

text \<open>
  One turn of the reporter's loop after its sleep: the interval is measured against the
  previous turn's snapshot (read with the clocks at \<open>now\<close> and \<open>sysNs\<close>), stored for the status document, reported, and the snapshot and
  its time are kept for the next turn. The window's duration reads the clock again, at \<open>later\<close>.
\<close>

definition reporter_turn :: "int \<Rightarrow> int \<Rightarrow> int \<Rightarrow> Reporter \<Rightarrow> Stats \<Rightarrow> Report \<times> Reporter \<times> Stats" where
  "reporter_turn now sysNs later rp st =
     (let cur = loadLifetime st;
          iv = interval_rates cur (rp_prev rp) (now - rp_prevTime rp) sysNs;
          st = setInterval iv st;
          active = st_activeClients st;
          suspended = st_suspendedClients st;
          win = loadWindow st;
          rid = st_rungId st;
          meta = SnapshotMeta_init\<lparr>sm_instanceId := rp_instanceId rp, sm_rungId := rid,
            sm_activeClients := active, sm_suspendedClients := suspended,
            sm_windowOpenEpochSec := st_windowOpenEpochSec st,
            sm_windowDurationSec := windowDurationSec later st\<rparr>
      in (\<lparr>ro_console = console_line active suspended iv cur win,
           ro_csv = (if rp_csv rp then Some (csv_row (rp_instanceId rp) rid active suspended iv cur win)
                     else None),
           ro_jsonl = (if rp_jsonl rp then Some (buildStatsJson meta cur win iv) else None)\<rparr>,
          rp\<lparr>rp_prev := cur, rp_prevTime := now\<rparr>, st))"

section \<open>The final summary\<close>

datatype summary_line =
    SumTitle
  | SumReplay string
  | SumSignIn int int int
  | SumMintWarning
  | SumTx u64 u64 u64
  | SumRx u64 u64 u64 u64
  | SumControl u64 u64 u64 u64
  | SumHmac u64
  | SumLatencyTitle
  | SumLatency u64 double u64 double double double
  | SumBucket string u64 double
  | SumErrorTitle
  | SumCode int string u64
  | SumFirstContact u64
  | SumWindowReload u64 int
  | SumUnexplained u64
  | SumRule

definition summary_sign_in :: "int \<Rightarrow> int \<Rightarrow> int \<Rightarrow> summary_line list" where
  "summary_sign_in reused mintedBefore mintedDuring =
     (if mintedDuring \<ge> 0 then
        SumSignIn mintedDuring mintedBefore reused # (if mintedDuring > 0 then [SumMintWarning] else [])
      else [])"

definition summary_latency :: "CounterSnap \<Rightarrow> summary_line list" where
  "summary_latency s =
     (if cs_latencySamples s \<noteq> 0 then
        [SumLatencyTitle,
         SumLatency (cs_latencySamples s)
           (fdiv (int_to_f64 (uint (cs_latencySumMs s))) (int_to_f64 (uint (cs_latencySamples s))))
           (cs_latencyMaxMs s)
           (percentileMs s (f64_round (50 / 100))) (percentileMs s (f64_round (95 / 100)))
           (percentileMs s (f64_round (99 / 100)))]
        @ map (\<lambda>i. SumBucket (bucketLabel (int i)) (cs_latencyHist s ! i)
                 (fdiv (fmul 100 (int_to_f64 (uint (cs_latencyHist s ! i))))
                       (int_to_f64 (uint (cs_latencySamples s)))))
            (filter (\<lambda>i. cs_latencyHist s ! i \<noteq> 0) [0..<LATENCY_BUCKETS])
      else [])"

definition summary_codes :: "CounterSnap \<Rightarrow> summary_line list" where
  "summary_codes s =
     (let rows = map (\<lambda>c. SumCode (int c) (errorCodeName (int c)) (cs_errorCodes s ! c))
                   (filter (\<lambda>c. cs_errorCodes s ! c \<noteq> 0) [0..<256])
      in if rows = [] then [] else SumErrorTitle # rows)"

definition summary_unauthorized :: "int \<Rightarrow> CounterSnap \<Rightarrow> summary_line list" where
  "summary_unauthorized permWindowRadiusChunks s =
     (let firstContact = cs_unauthorizedFirstContact s;
          windowReload = cs_unauthorizedWindowReload s;
          unauth = cs_errorCodes s ! 7
      in if firstContact \<noteq> 0 then
           [SumFirstContact firstContact]
           @ (if windowReload \<noteq> 0 then [SumWindowReload windowReload permWindowRadiusChunks] else [])
           @ (if unauth > firstContact + windowReload
              then [SumUnexplained (unauth - firstContact - windowReload)] else [])
         else [])"

definition printFinalSummary :: "int \<Rightarrow> int \<Rightarrow> int \<Rightarrow> int \<Rightarrow> string \<Rightarrow> Stats \<Rightarrow> summary_line list" where
  "printFinalSummary permWindowRadiusChunks reused mintedBefore mintedDuring replayLogging st =
     (let s = loadLifetime st
      in [SumTitle]
         @ (if replayLogging \<noteq> [] then [SumReplay replayLogging] else [])
         @ summary_sign_in reused mintedBefore mintedDuring
         @ [SumTx (cs_txPackets s) (cs_txBytes s) (cs_txSendErrors s),
            SumRx (cs_rxDatagrams s) (cs_rxBytes s) (cs_rxBundles s) (cs_rxActorNotifications s),
            SumControl (cs_tokenRefreshes s) (cs_refreshesKeptServer s) (cs_reassignments s)
              (cs_controlFailures s)]
         @ (if cs_rxHmacFailures s \<noteq> 0 then [SumHmac (cs_rxHmacFailures s)] else [])
         @ summary_latency s
         @ summary_codes s
         @ summary_unauthorized permWindowRadiusChunks s
         @ [SumRule])"

section \<open>The maximum under interleaving\<close>

text \<open>
  \<^verbatim>\<open>bumpMax\<close> as the threads run it: a load, then compare-exchange until the thread's value is
  not above what it last saw. A weak exchange may fail with the slot unchanged; a failure
  reloads \<^verbatim>\<open>prev\<close>.
\<close>

datatype bump_pc = BLoad | BLoop u64 | BDone

type_synonym bump_state = "u64 \<times> (u64 \<times> bump_pc) list"

inductive bump_step :: "bump_state \<Rightarrow> bump_state \<Rightarrow> bool" where
  load: "i < length ts \<Longrightarrow> ts ! i = (v, BLoad) \<Longrightarrow>
     bump_step (slot, ts) (slot, ts[i := (v, BLoop slot)])"
| leave: "i < length ts \<Longrightarrow> ts ! i = (v, BLoop prev) \<Longrightarrow> \<not> v > prev \<Longrightarrow>
     bump_step (slot, ts) (slot, ts[i := (v, BDone)])"
| exchange: "i < length ts \<Longrightarrow> ts ! i = (v, BLoop prev) \<Longrightarrow> v > prev \<Longrightarrow> slot = prev \<Longrightarrow>
     bump_step (slot, ts) (v, ts[i := (v, BDone)])"
| retry: "i < length ts \<Longrightarrow> ts ! i = (v, BLoop prev) \<Longrightarrow> v > prev \<Longrightarrow>
     bump_step (slot, ts) (slot, ts[i := (v, BLoop slot)])"

section \<open>Specification vocabulary\<close>

text \<open>
  A latency as it is counted (negatives are 0), the range a bucket stands for, how many of a
  list of latencies fall into it, the shape of the counters, and the invariant of the
  interleaved maximum.
\<close>

definition clamp_ms :: "i64 \<Rightarrow> int" where
  "clamp_ms ms = (if sint ms < 0 then 0 else sint ms)"

definition in_bucket :: "nat \<Rightarrow> int \<Rightarrow> bool" where
  "in_bucket k ms \<longleftrightarrow> bucket_lo k \<le> ms \<and> (k < LATENCY_BUCKETS - 1 \<longrightarrow> ms < bucket_hi k)"

definition in_bucket_count :: "nat \<Rightarrow> i64 list \<Rightarrow> nat" where
  "in_bucket_count k mss = length (filter (\<lambda>m. in_bucket k (clamp_ms m)) mss)"

definition stats_wf :: "Stats \<Rightarrow> bool" where
  "stats_wf st \<longleftrightarrow> length (st_latencyHist st) = LATENCY_BUCKETS \<and> length (st_errorCodes st) = 256"

fun thread_ok :: "u64 \<Rightarrow> u64 \<times> bump_pc \<Rightarrow> bool" where
  "thread_ok slot (v, BLoad) = True"
| "thread_ok slot (v, BLoop prev) = (prev \<le> slot)"
| "thread_ok slot (v, BDone) = (v \<le> slot)"

definition bump_inv :: "u64 \<Rightarrow> u64 list \<Rightarrow> bump_state \<Rightarrow> bool" where
  "bump_inv s0 vs st \<longleftrightarrow>
     map fst (snd st) = vs \<and> s0 \<le> fst st \<and> fst st \<in> insert s0 (set vs) \<and>
     list_all (thread_ok (fst st)) (snd st)"

section \<open>Buckets\<close>

lemma clamp_ms_nonneg [simp]: "0 \<le> clamp_ms ms"
  by (simp add: clamp_ms_def)

lemma bucket_hi_mono: "j \<le> k \<Longrightarrow> k < LATENCY_BUCKETS \<Longrightarrow> bucket_hi j \<le> bucket_hi k"
proof (induction "k - j" arbitrary: j)
  case 0
  then show ?case by simp
next
  case (Suc n)
  then have "bucket_lo (Suc j) = bucket_hi j" "bucket_lo (Suc j) < bucket_hi (Suc j)"
    using bucket_bounds [of "Suc j"] by (auto simp: bucket_lo_def)
  moreover have "bucket_hi (Suc j) \<le> bucket_hi k" using Suc by simp
  ultimately show ?case by simp
qed

lemma in_bucket_disjoint:
  assumes "in_bucket j m" "in_bucket k m" "j < LATENCY_BUCKETS" "k < LATENCY_BUCKETS"
  shows "j = k"
proof -
  have "\<not> j < k" if "in_bucket j m" "in_bucket k m" "k < LATENCY_BUCKETS" for j k
  proof
    assume "j < k"
    then have "bucket_hi j \<le> bucket_lo k" using that bucket_hi_mono [of j "k - 1"] by (auto simp: bucket_lo_def)
    then show False using that \<open>j < k\<close> by (auto simp: in_bucket_def)
  qed
  then show ?thesis using assms by (meson linorder_neqE_nat)
qed

lemma latency_bucket_in:
  assumes "bucket_lo i \<le> ms" "i < LATENCY_BUCKETS"
  shows "latency_bucket ms i < LATENCY_BUCKETS \<and> in_bucket (latency_bucket ms i) ms"
  using assms
proof (induction ms i rule: latency_bucket.induct)
  case (1 ms i)
  show ?case
  proof (cases "i < LATENCY_BUCKETS - 1 \<and> \<not> ms < kLatencyBounds ! i")
    case True
    then have "bucket_lo (i + 1) \<le> ms" by (simp add: bucket_lo_def bucket_hi_def)
    moreover have "i + 1 < LATENCY_BUCKETS" using True by auto
    ultimately show ?thesis using 1(1) True by (subst (1 2) latency_bucket.simps) simp
  next
    case False
    show ?thesis
    proof (cases "i < LATENCY_BUCKETS - 1")
      case True
      then show ?thesis using False 1(2,3)
        by (subst (1 2) latency_bucket.simps) (simp add: in_bucket_def bucket_hi_def)
    next
      case last: False
      then have "LATENCY_BUCKETS - 1 = i" using 1(3) by simp
      then show ?thesis using last 1(2,3)
        by (subst (1 2) latency_bucket.simps) (simp add: in_bucket_def)
    qed
  qed
qed

lemma latency_bucket_eq:
  assumes "0 \<le> ms" "k < LATENCY_BUCKETS"
  shows "latency_bucket ms 0 = k \<longleftrightarrow> in_bucket k ms"
  using latency_bucket_in [of 0 ms] in_bucket_disjoint assms first_bucket
  by (metis bucket_lo_def)

lemma sint_word_clamp: "sint (word_of_int (clamp_ms ms) :: i64) = clamp_ms ms"
  by (simp add: clamp_ms_def)

lemma bumpMax_max: "bumpMax slot v = max slot v"
  by (auto simp: bumpMax_def max_def)

lemma word_clamp: "(if sint (ms :: i64) < 0 then 0 else ms) = word_of_int (clamp_ms ms)"
  by (simp add: clamp_ms_def)

lemma recordLatencyMs_alt:
  "recordLatencyMs ms st =
     st\<lparr>st_latencySamples := st_latencySamples st + 1,
        st_latencySumMs := st_latencySumMs st + word_of_int (clamp_ms ms),
        st_latencyMaxMs := max (st_latencyMaxMs st) (word_of_int (clamp_ms ms)),
        st_windowLatencyMaxMs := max (st_windowLatencyMaxMs st) (word_of_int (clamp_ms ms)),
        st_latencyHist := (st_latencyHist st)[latency_bucket (clamp_ms ms) 0 :=
           st_latencyHist st ! latency_bucket (clamp_ms ms) 0 + 1]\<rparr>"
  unfolding recordLatencyMs_def Let_def word_clamp sint_word_clamp bumpMax_max ..

lemma record_hist:
  assumes "k < LATENCY_BUCKETS" "stats_wf st"
  shows "st_latencyHist (fold recordLatencyMs mss st) ! k =
         st_latencyHist st ! k + of_nat (in_bucket_count k mss)"
  using assms(2)
proof (induction mss arbitrary: st)
  case Nil
  show ?case by (simp add: in_bucket_count_def)
next
  case (Cons m mss)
  have b: "latency_bucket (clamp_ms m) 0 < LATENCY_BUCKETS"
    using latency_bucket_in [of 0 "clamp_ms m"] first_bucket by (simp add: bucket_lo_def)
  have "st_latencyHist (recordLatencyMs m st) ! k =
      st_latencyHist st ! k + (if in_bucket k (clamp_ms m) then 1 else 0)"
    using Cons.prems b latency_bucket_eq [OF clamp_ms_nonneg assms(1), of m]
    by (cases "in_bucket k (clamp_ms m)") (auto simp: recordLatencyMs_alt stats_wf_def nth_list_update)
  moreover have "stats_wf (recordLatencyMs m st)"
    using Cons.prems by (simp add: stats_wf_def recordLatencyMs_alt)
  ultimately show ?case using Cons.IH by (simp add: in_bucket_count_def add.assoc)
qed

lemma record_rest:
  "fold recordLatencyMs mss st =
     st\<lparr>st_latencySamples := st_latencySamples st + of_nat (length mss),
        st_latencySumMs := st_latencySumMs st + of_int (sum_list (map clamp_ms mss)),
        st_latencyMaxMs := fold max (map (\<lambda>m. word_of_int (clamp_ms m)) mss) (st_latencyMaxMs st),
        st_windowLatencyMaxMs := fold max (map (\<lambda>m. word_of_int (clamp_ms m)) mss) (st_windowLatencyMaxMs st),
        st_latencyHist := st_latencyHist (fold recordLatencyMs mss st)\<rparr>"
proof (induction mss arbitrary: st)
  case Nil
  show ?case by simp
next
  case (Cons m mss)
  show ?case
    by (simp only: fold_Cons comp_apply, subst Cons.IH)
       (simp add: recordLatencyMs_alt max.commute algebra_simps)
qed

section \<open>Recording and windows\<close>

lemma satSub_self [simp]: "satSub x x = 0"
  by (simp add: satSub_def)

lemma saturatingIntSub_self [simp]: "saturatingIntSub x x = 0"
  by (simp add: saturatingIntSub_def)

lemma satSub_grown: "unat x + n < 2 ^ 64 \<Longrightarrow> satSub (x + of_nat n) x = of_nat n"
proof -
  assume "unat x + n < 2 ^ 64"
  then have "unat (x + of_nat n) = unat x + n" by (simp add: unat_word_ariths unat_of_nat)
  then have "x \<le> x + of_nat n" by (simp add: word_le_nat_alt)
  then show ?thesis by (simp add: satSub_def)
qed

lemma stats_wf_init [simp]: "stats_wf Stats_init"
  by (simp add: stats_wf_def Stats_init_def)

lemma sum_clamp_nat: "of_int (sum_list (map clamp_ms mss)) = (of_nat (nat (sum_list (map clamp_ms mss))) :: u64)"
proof -
  have "0 \<le> sum_list (map clamp_ms mss)" by (induction mss) simp_all
  then show ?thesis by (rule of_nat_nat [symmetric])
qed

lemma bucket_count_le: "in_bucket_count k mss \<le> length mss"
  by (simp add: in_bucket_count_def)

lemma record_fields:
  "st_txPackets (fold recordLatencyMs mss st) = st_txPackets st"
  "st_txBytes (fold recordLatencyMs mss st) = st_txBytes st"
  "st_txSendErrors (fold recordLatencyMs mss st) = st_txSendErrors st"
  "st_rxDatagrams (fold recordLatencyMs mss st) = st_rxDatagrams st"
  "st_rxBytes (fold recordLatencyMs mss st) = st_rxBytes st"
  "st_rxBundles (fold recordLatencyMs mss st) = st_rxBundles st"
  "st_rxSignedBundles (fold recordLatencyMs mss st) = st_rxSignedBundles st"
  "st_rxSignedMembers (fold recordLatencyMs mss st) = st_rxSignedMembers st"
  "st_txCapabilities (fold recordLatencyMs mss st) = st_txCapabilities st"
  "st_rxActorNotifications (fold recordLatencyMs mss st) = st_rxActorNotifications st"
  "st_rxOtherSpatial (fold recordLatencyMs mss st) = st_rxOtherSpatial st"
  "st_rxErrorMessages (fold recordLatencyMs mss st) = st_rxErrorMessages st"
  "st_rxReconnectCommands (fold recordLatencyMs mss st) = st_rxReconnectCommands st"
  "st_rxSilentReassigns (fold recordLatencyMs mss st) = st_rxSilentReassigns st"
  "st_rcvbufSetFailures (fold recordLatencyMs mss st) = st_rcvbufSetFailures st"
  "st_rxHmacFailures (fold recordLatencyMs mss st) = st_rxHmacFailures st"
  "st_rxMalformed (fold recordLatencyMs mss st) = st_rxMalformed st"
  "st_errorCodes (fold recordLatencyMs mss st) = st_errorCodes st"
  "st_unauthorizedFirstContact (fold recordLatencyMs mss st) = st_unauthorizedFirstContact st"
  "st_unauthorizedWindowReload (fold recordLatencyMs mss st) = st_unauthorizedWindowReload st"
  "st_tokenRefreshes (fold recordLatencyMs mss st) = st_tokenRefreshes st"
  "st_refreshesKeptServer (fold recordLatencyMs mss st) = st_refreshesKeptServer st"
  "st_reassignments (fold recordLatencyMs mss st) = st_reassignments st"
  "st_controlFailures (fold recordLatencyMs mss st) = st_controlFailures st"
  "st_windowOrigin (fold recordLatencyMs mss st) = st_windowOrigin st"
  "st_signInReused (fold recordLatencyMs mss st) = st_signInReused st"
  "st_signInMintedBefore (fold recordLatencyMs mss st) = st_signInMintedBefore st"
  "st_signInMintedDuring (fold recordLatencyMs mss st) = st_signInMintedDuring st"
  "st_latencySamples (fold recordLatencyMs mss st) = st_latencySamples st + of_nat (length mss)"
  "st_latencySumMs (fold recordLatencyMs mss st) = st_latencySumMs st + of_int (sum_list (map clamp_ms mss))"
  "st_latencyMaxMs (fold recordLatencyMs mss st) = fold max (map (\<lambda>m. word_of_int (clamp_ms m)) mss) (st_latencyMaxMs st)"
  "st_windowLatencyMaxMs (fold recordLatencyMs mss st) = fold max (map (\<lambda>m. word_of_int (clamp_ms m)) mss) (st_windowLatencyMaxMs st)"
  by (subst record_rest, simp)+

section \<open>Order statistics\<close>

lemma filter_less_sorted:
  assumes "sorted xs"
  shows "filter (\<lambda>x. x < b) xs = takeWhile (\<lambda>x. x < b) xs"
  using assms
proof (induction xs)
  case Nil
  show ?case by simp
next
  case (Cons x xs)
  have "filter (\<lambda>y. y < b) xs = []" if "\<not> x < b"
    using that Cons.prems by (fastforce simp: filter_empty_conv)
  then show ?case using Cons by (cases "x < b") simp_all
qed

lemma nth_sorted_less:
  fixes xs :: "'a::linorder list"
  assumes "sorted xs" "n < length xs"
  shows "xs ! n < b \<longleftrightarrow> n < length (filter (\<lambda>x. x < b) xs)"
proof (cases "n < length (takeWhile (\<lambda>x. x < b) xs)")
  case True
  then have "xs ! n < b" using nth_mem set_takeWhileD takeWhile_nth by metis
  then show ?thesis using True assms by (simp add: filter_less_sorted)
next
  case False
  let ?l = "length (takeWhile (\<lambda>x. x < b) xs)"
  have "?l < length xs" using False assms by simp
  then have "\<not> xs ! ?l < b" by (rule nth_length_takeWhile)
  moreover have "xs ! ?l \<le> xs ! n" using False assms by (intro sorted_nth_mono) simp_all
  ultimately show ?thesis using False assms by (auto simp: filter_less_sorted)
qed

lemma in_bucket_less:
  assumes "0 \<le> m" "k < LATENCY_BUCKETS - 1"
  shows "m < bucket_hi k \<longleftrightarrow> m < bucket_lo k \<or> in_bucket k m"
proof -
  have "bucket_lo k < bucket_hi k" using assms(2) bucket_bounds [of k] by simp
  then show ?thesis using assms by (auto simp: in_bucket_def)
qed

lemma count_below:
  assumes "k < LATENCY_BUCKETS"
  shows "(\<Sum>j<k. in_bucket_count j mss) = length (filter (\<lambda>m. m < bucket_lo k) (map clamp_ms mss))"
  using assms
proof (induction k)
  case 0
  have "filter (\<lambda>m. m < 0) (map clamp_ms mss) = []" by (auto simp: filter_empty_conv not_less)
  then show ?case by (simp add: bucket_lo_def)
next
  case (Suc k)
  have k: "k < LATENCY_BUCKETS - 1" using Suc.prems by simp
  have "length (filter (\<lambda>m. clamp_ms m < bucket_hi k) ms) =
     length (filter (\<lambda>m. clamp_ms m < bucket_lo k) ms) + in_bucket_count k ms" for ms
  proof (induction ms)
    case Nil
    show ?case by (simp add: in_bucket_count_def)
  next
    case (Cons m ms)
    have "\<not> (clamp_ms m < bucket_lo k \<and> in_bucket k (clamp_ms m))" by (auto simp: in_bucket_def)
    then show ?case using Cons in_bucket_less [OF clamp_ms_nonneg k, of m]
      by (auto simp: in_bucket_count_def)
  qed
  then show ?case using Suc by (simp add: bucket_lo_def filter_map comp_def)
qed

lemma count_total: "(\<Sum>j<LATENCY_BUCKETS. in_bucket_count j mss) = length mss"
proof -
  let ?l = "LATENCY_BUCKETS - 1"
  have L: "LATENCY_BUCKETS = Suc ?l" by (simp add: LATENCY_BUCKETS_def)
  have "in_bucket_count ?l mss = length (filter (\<lambda>m. \<not> m < bucket_lo ?l) (map clamp_ms mss))"
    by (simp add: in_bucket_count_def in_bucket_def filter_map comp_def not_less)
  moreover have "(\<Sum>j<?l. in_bucket_count j mss) = length (filter (\<lambda>m. m < bucket_lo ?l) (map clamp_ms mss))"
    using first_bucket by (intro count_below) simp
  ultimately have "(\<Sum>j<Suc ?l. in_bucket_count j mss) = length (map clamp_ms mss)"
    using sum_length_filter_compl [of "\<lambda>m. m < bucket_lo ?l" "map clamp_ms mss"] by simp
  then show ?thesis using L by simp
qed

lemma hist_prefix:
  assumes "k \<le> LATENCY_BUCKETS" "length mss < 2 ^ 53"
  shows "sum_list (map unat (take k (cs_latencyHist (loadLifetime (fold recordLatencyMs mss Stats_init))))) =
     (\<Sum>j<k. in_bucket_count j mss)"
proof -
  have *: "unat (st_latencyHist (fold recordLatencyMs mss Stats_init) ! j) = in_bucket_count j mss"
    if "j < LATENCY_BUCKETS" for j
  proof -
    have "st_latencyHist (fold recordLatencyMs mss Stats_init) ! j = of_nat (in_bucket_count j mss)"
      using record_hist [OF that stats_wf_init] that by (simp add: Stats_init_def [of])
    moreover have "in_bucket_count j mss < 2 ^ 64"
      using bucket_count_le [of j mss] assms(2) by simp
    ultimately show ?thesis by (simp add: unat_of_nat take_bit_nat_eq_self)
  qed
  have "map unat (take k (cs_latencyHist (loadLifetime (fold recordLatencyMs mss Stats_init)))) =
     map (\<lambda>j. in_bucket_count j mss) [0..<k]"
    using * assms(1) by (intro nth_equalityI) (simp_all add: loadLifetime_def)
  then show ?thesis by (simp add: interv_sum_list_conv_sum_set_nat atLeast0LessThan)
qed

section \<open>Interleaved maximum\<close>

lemma thread_ok_mono: "thread_ok slot t \<Longrightarrow> slot \<le> slot' \<Longrightarrow> thread_ok slot' t"
  by (induction slot t rule: thread_ok.induct) auto

lemma list_all_update: "list_all P xs \<Longrightarrow> P x \<Longrightarrow> list_all P (xs[i := x])"
  by (cases "i < length xs") (auto simp: list_all_length nth_list_update)

lemma bump_inv_update:
  assumes "bump_inv s0 vs (slot, ts)" "i < length ts" "ts ! i = (v, pc0)"
    "slot \<le> slot'" "slot' = slot \<or> slot' = v" "thread_ok slot' (v, pc)"
  shows "bump_inv s0 vs (slot', ts[i := (v, pc)])"
proof -
  have "map fst (ts[i := (v, pc)]) = map fst ts"
    using assms(2,3) by (simp add: map_update list_update_same_conv)
  moreover have "v \<in> fst ` set ts" using assms(2,3) by (metis fst_conv image_eqI nth_mem)
  moreover have "list_all (thread_ok slot') (ts[i := (v, pc)])"
    using assms(1,4,6) thread_ok_mono
    by (intro list_all_update) (auto simp: bump_inv_def list_all_iff)
  ultimately show ?thesis using assms(1,4,5) by (auto simp: bump_inv_def simp flip: set_map)
qed

lemma bump_inv_step:
  assumes "bump_step st st'" "bump_inv s0 vs st"
  shows "bump_inv s0 vs st'"
  using assms
proof (induction rule: bump_step.induct)
  case (leave i ts v prev slot)
  then have "thread_ok slot (v, BLoop prev)" by (metis bump_inv_def fst_conv list_all_length snd_conv)
  then show ?case using leave by (intro bump_inv_update [where slot = slot]) auto
qed (auto intro!: bump_inv_update)

lemma bump_inv_reachable: "bump_step\<^sup>*\<^sup>* st st' \<Longrightarrow> bump_inv s0 vs st \<Longrightarrow> bump_inv s0 vs st'"
  by (induction rule: rtranclp_induct) (auto intro: bump_inv_step)

lemma fold_bumpMax: "fold (\<lambda>v slot. bumpMax slot v) vs s0 = Max (insert s0 (set vs))"
proof (induction vs arbitrary: s0)
  case Nil
  show ?case by simp
next
  case (Cons v vs)
  then show ?case
    by (cases "set vs = {}") (simp_all add: bumpMax_max max.left_commute max.commute)
qed

text \<open>Every state in which a thread has not finished has a step.\<close>

lemma bump_progress:
  assumes "\<not> list_all (\<lambda>t. snd t = BDone) ts"
  shows "\<exists>st'. bump_step (slot, ts) st'"
proof -
  obtain i v pc where i: "i < length ts" "ts ! i = (v, pc)" "pc \<noteq> BDone"
    using assms by (auto simp: list_all_length) (metis prod.collapse)
  then show ?thesis
    by (cases pc) (blast intro: bump_step.intros)+
qed

section \<open>Properties\<close>

text \<open>
  C8. Percentiles of recorded latencies: after any list of latencies is recorded by a fresh
  \<^verbatim>\<open>Stats\<close>, the reported percentile and the latency of that rank in the sorted list (nearest
  rank) lie in the same histogram bucket.
\<close>

theorem percentile_of_recorded:
  assumes "mss \<noteq> []" "length mss < 2 ^ 53"
  shows "let s = loadLifetime (fold recordLatencyMs mss Stats_init);
             x = sort (map clamp_ms mss) ! (nat \<lceil>percentile_rank s p\<rceil> - 1)
         in \<exists>k < LATENCY_BUCKETS. in_bucket k x \<and>
              of_int (bucket_lo k) \<le> percentileMs s p \<and> percentileMs s p \<le> of_int (bucket_hi k)"
proof -
  define s where "s = loadLifetime (fold recordLatencyMs mss Stats_init)"
  define x where "x = sort (map clamp_ms mss) ! (nat \<lceil>percentile_rank s p\<rceil> - 1)"
  let ?xs = "sort (map clamp_ms mss)"
  have samples: "unat (cs_latencySamples s) = length mss"
  proof -
    have "cs_latencySamples s = of_nat (length mss)"
      by (simp add: s_def loadLifetime_def record_fields Stats_init_def)
    then show ?thesis using assms(2) by (simp add: unat_of_nat take_bit_nat_eq_self)
  qed
  have wf: "snap_wf s" by (simp add: s_def snap_wf_def loadLifetime_def)
  have hist: "sum_list (map unat (take k (cs_latencyHist s))) = (\<Sum>j<k. in_bucket_count j mss)"
    if "k \<le> LATENCY_BUCKETS" for k
    unfolding s_def using that assms(2) by (rule hist_prefix)
  have tot: "unat (cs_latencySamples s) = sum_list (map unat (cs_latencyHist s))"
    using hist [of LATENCY_BUCKETS] wf by (simp add: samples count_total snap_wf_def)
  have "cs_latencySamples s \<noteq> 0" using samples assms(1) by auto
  then obtain k where k: "k < LATENCY_BUCKETS"
      "real (\<Sum>j<k. in_bucket_count j mss) < percentile_rank s p"
      "percentile_rank s p \<le> real (\<Sum>j<Suc k. in_bucket_count j mss)"
      "of_int (bucket_lo k) \<le> percentileMs s p" "percentileMs s p \<le> of_int (bucket_hi k)"
    using percentile_bracket [OF wf _ _ tot, of p] assms(2) hist samples
    by (metis Suc_leI less_imp_le)
  let ?n = "nat \<lceil>percentile_rank s p\<rceil>"
  have n: "(\<Sum>j<k. in_bucket_count j mss) < ?n" "?n \<le> (\<Sum>j<Suc k. in_bucket_count j mss)"
    using k(2,3) by linarith+
  have le: "(\<Sum>j<Suc k. in_bucket_count j mss) \<le> length mss"
    using k(1) by (subst count_total [symmetric], intro sum_mono2) auto
  have len: "?n - 1 < length ?xs" 
  proof -
    have "0 < ?n" using n(1) by (rule le_less_trans [OF le0])
    moreover have "?n \<le> length ?xs" using order_trans [OF n(2) le] by (simp only: length_sort length_map)
    ultimately show ?thesis by linarith
  qed
  have flt: "length (filter P ?xs) = length (filter P (map clamp_ms mss))" for P
    by (metis filter_sort length_sort)
  have cnt: "length (filter (\<lambda>m. m < bucket_lo j) ?xs) = (\<Sum>i<j. in_bucket_count i mss)"
    if "j < LATENCY_BUCKETS" for j unfolding flt using count_below [OF that] by simp
  note less = nth_sorted_less [OF sorted_sort len]
  have "\<not> x < bucket_lo k"
    unfolding x_def less cnt [OF k(1)] using n(1) by linarith
  moreover have "x < bucket_hi k" if "k < LATENCY_BUCKETS - 1"
  proof -
    have s: "bucket_hi k = bucket_lo (Suc k)" "Suc k < LATENCY_BUCKETS"
      using that by (auto simp: bucket_lo_def)
    show ?thesis unfolding x_def s(1) less cnt [OF s(2)] using n by linarith
  qed
  ultimately have "in_bucket k x" by (auto simp: in_bucket_def)
  then show ?thesis unfolding Let_def s_def [symmetric] x_def [symmetric] using k by blast
qed

theorem percentile_of_recorded_witness:
  "let s = loadLifetime (fold recordLatencyMs [3, 8, 40] Stats_init);
       x = sort (map clamp_ms [3, 8, 40]) ! (nat \<lceil>percentile_rank s (1 / 2)\<rceil> - 1)
   in \<exists>k < LATENCY_BUCKETS. in_bucket k x \<and>
        of_int (bucket_lo k) \<le> percentileMs s (1 / 2) \<and> percentileMs s (1 / 2) \<le> of_int (bucket_hi k)"
  by (rule percentile_of_recorded) simp_all

text \<open>
  C19. A rung window contains its own samples and nothing else: what \<^verbatim>\<open>loadWindow\<close> returns for
  latencies recorded after \<^verbatim>\<open>markWindow\<close> is what a fresh process would report as its lifetime
  after the same latencies, histogram, sum and maximum included, as long as no counter has
  wrapped.
\<close>

theorem window_isolates:
  assumes "stats_wf st"
    and "\<forall>k<LATENCY_BUCKETS. unat (st_latencyHist st ! k) + length mss < 2 ^ 64"
    and "unat (st_latencySamples st) + length mss < 2 ^ 64"
    and "unat (st_latencySumMs st) + nat (sum_list (map clamp_ms mss)) < 2 ^ 64"
  shows "loadWindow (fold recordLatencyMs mss (markWindow sysNs steadyNs rung st)) =
         loadLifetime (fold recordLatencyMs mss Stats_init)"
proof -
  let ?m = "markWindow sysNs steadyNs rung st"
  have wf: "stats_wf ?m" using assms(1) by (simp add: stats_wf_def markWindow_def)
  have h: "satSub (st_latencyHist (fold recordLatencyMs mss ?m) ! k) (st_latencyHist st ! k) =
      st_latencyHist (fold recordLatencyMs mss Stats_init) ! k" if "k < LATENCY_BUCKETS" for k
  proof -
    have "unat (st_latencyHist st ! k) + in_bucket_count k mss < 2 ^ 64"
      using assms(2) that bucket_count_le [of k mss] by (meson add_left_mono le_less_trans)
    moreover have "st_latencyHist ?m = st_latencyHist st" by (simp add: markWindow_def)
    moreover have "st_latencyHist Stats_init ! k = 0" using that by (simp add: Stats_init_def)
    ultimately show ?thesis
      by (simp only: record_hist [OF that wf] record_hist [OF that stats_wf_init] satSub_grown add_0_left)
  qed
  have origin: "st_windowOrigin ?m = loadLifetime st" by (simp add: markWindow_def)
  have hist: "map (\<lambda>i. satSub (cs_latencyHist (loadLifetime (fold recordLatencyMs mss ?m)) ! i)
        (cs_latencyHist (loadLifetime st) ! i)) [0..<LATENCY_BUCKETS] =
      cs_latencyHist (loadLifetime (fold recordLatencyMs mss Stats_init))"
    using h by (simp add: loadLifetime_def)
  show ?thesis
    unfolding loadWindow_def snap_minus_def record_fields origin hist
    using satSub_grown [OF assms(3)] satSub_grown [OF assms(4), folded sum_clamp_nat]
    by (simp add: loadLifetime_def record_fields markWindow_def Stats_init_def)
qed

theorem window_isolates_witness:
  "loadWindow (fold recordLatencyMs [3, 700] (markWindow 5 6 ''r1'' Stats_init)) =
     loadLifetime (fold recordLatencyMs [3, 700] Stats_init)"
  by (rule window_isolates) (simp_all add: stats_wf_def Stats_init_def clamp_ms_def)

text \<open>
  The lock-free maximum is correct under every interleaving, with spurious failures of the
  weak compare-exchange: when all threads have finished, the slot holds what recording the
  values one after the other leaves there.
\<close>

theorem concurrent_max:
  assumes "bump_step\<^sup>*\<^sup>* (s0, map (\<lambda>v. (v, BLoad)) vs) (slot, ts)"
    and "list_all (\<lambda>t. snd t = BDone) ts"
  shows "slot = fold (\<lambda>v slot. bumpMax slot v) vs s0"
proof -
  have "bump_inv s0 vs (s0, map (\<lambda>v. (v, BLoad)) vs)" by (simp add: bump_inv_def comp_def list_all_iff)
  then have inv: "bump_inv s0 vs (slot, ts)" using assms(1) bump_inv_reachable by blast
  have "v \<le> slot" if v: "v \<in> set vs" for v
  proof -
    obtain pc where "(v, pc) \<in> set ts" using inv v by (auto simp: bump_inv_def)
    then show ?thesis using inv assms(2) by (fastforce simp: bump_inv_def list_all_iff)
  qed
  then show ?thesis using inv unfolding fold_bumpMax
    by (intro Max_eqI [symmetric]) (auto simp: bump_inv_def)
qed

theorem concurrent_max_witness: "(5 :: u64) = fold (\<lambda>v slot. bumpMax slot v) [5] 3"
proof (rule concurrent_max)
  have "bump_step (3, [(5, BLoad)]) (3, [(5, BLoop 3)])"
    using bump_step.load [of 0 "[(5, BLoad)]" 5 3] by simp
  moreover have "bump_step (3, [(5, BLoop 3)]) (5, [(5, BDone)])"
    using bump_step.exchange [of 0 "[(5, BLoop 3)]" 5 3 3] by simp
  ultimately show "bump_step\<^sup>*\<^sup>* (3, map (\<lambda>v. (v, BLoad)) [5]) (5, [(5, BDone)])" by simp
qed simp

text \<open>
  The final summary names unexplained refusals only when some refusal was a first contact,
  while the JSON document always carries the count: a run whose refusals are all unexplained
  ends with a summary that does not say so.
\<close>

theorem summary_unexplained:
  assumes "stats_wf st"
  shows "let unauth = st_errorCodes st ! 7;
             expected = st_unauthorizedFirstContact st + st_unauthorizedWindowReload st
         in (SumUnexplained n \<in> set (printFinalSummary radius reused minted_before minted_during replay st) \<longleftrightarrow>
               st_unauthorizedFirstContact st \<noteq> 0 \<and> unauth > expected \<and> n = unauth - expected) \<and>
            jU64 (errorsJson (loadLifetime st)) ''unauthorized_unexplained'' =
              (if unauth > expected then unauth - expected else 0)"
  by (auto simp: printFinalSummary_def summary_sign_in_def summary_latency_def summary_codes_def
      summary_unauthorized_def errorsJson_def loadLifetime_def Let_def jU64_row algebra_simps)

definition five_refused :: Stats where
  "five_refused = Stats_init\<lparr>st_errorCodes := (replicate 256 0)[7 := 5]\<rparr>"

theorem summary_unexplained_witness:
  "SumUnexplained 5 \<notin> set (printFinalSummary 0 0 0 0 [] five_refused) \<and>
   jU64 (errorsJson (loadLifetime five_refused)) ''unauthorized_unexplained'' = 5"
  using summary_unexplained [of five_refused 5 0 0 0 0 "[]"]
  by (simp add: stats_wf_def five_refused_def Stats_init_def)

end
