(* ===== verification/Wire.thy ===== *)
theory Wire
  imports Floating
begin

text \<open>
  The wire protocol (\<^verbatim>\<open>src/Wire.hpp\<close>, \<^verbatim>\<open>src/Hmac.hpp\<close>): byte layout of the long spatial
  message, the two pose payloads, the signed actor update and capabilities datagrams, and the
  parsers of inbound notifications and bundles. A datagram is a list of bytes; a
  \<^verbatim>\<open>double\<close> field is its 64-bit pattern. OpenSSL's \<^verbatim>\<open>HMAC()\<close> with SHA-256 is the
  parameter \<open>hm\<close>: key, message, and \<open>None\<close> for a null result.
\<close>

section \<open>Message types, error codes and offsets\<close>

definition MESSAGE_BUNDLE :: u8 where [wire_consts]: "MESSAGE_BUNDLE = 2"
definition GENERIC_ERROR_MESSAGE :: u8 where [wire_consts]: "GENERIC_ERROR_MESSAGE = 3"
definition COMMAND_RECONNECT :: u8 where [wire_consts]: "COMMAND_RECONNECT = 22"
definition CLIENT_CAPABILITIES :: u8 where [wire_consts]: "CLIENT_CAPABILITIES = 29"
definition MESSAGE_BUNDLE_SIGNED :: u8 where [wire_consts]: "MESSAGE_BUNDLE_SIGNED = 30"
definition ACTOR_UPDATE_REQUEST_2 :: u8 where [wire_consts]: "ACTOR_UPDATE_REQUEST_2 = 128"
definition ACTOR_UPDATE_NOTIFICATION_2 :: u8 where
  [wire_consts]: "ACTOR_UPDATE_NOTIFICATION_2 = 130"
definition SPATIAL_TYPE_BIT :: u8 where [wire_consts]: "SPATIAL_TYPE_BIT = 0x80"

definition ERR_INVALID_TOKEN :: u8 where [wire_consts]: "ERR_INVALID_TOKEN = 5"
definition ERR_UNAUTHORIZED :: u8 where [wire_consts]: "ERR_UNAUTHORIZED = 7"
definition ERR_INVALID_REQUEST :: u8 where [wire_consts]: "ERR_INVALID_REQUEST = 15"
definition ERR_INVALID_APP_ID :: u8 where [wire_consts]: "ERR_INVALID_APP_ID = 18"
definition ERR_USER_NOT_AUTHENTICATED :: u8 where
  [wire_consts]: "ERR_USER_NOT_AUTHENTICATED = 20"
definition ERR_TOKEN_EXPIRED :: u8 where [wire_consts]: "ERR_TOKEN_EXPIRED = 32"

datatype DecayRate = NONE | EXPONENTIAL | LINEAR_50 | LINEAR_25 | LINEAR_10 | LINEAR_5

fun decay_byte :: "DecayRate \<Rightarrow> u8" where
  "decay_byte NONE = 0"
| "decay_byte EXPONENTIAL = 1"
| "decay_byte LINEAR_50 = 2"
| "decay_byte LINEAR_25 = 3"
| "decay_byte LINEAR_10 = 4"
| "decay_byte LINEAR_5 = 5"

text \<open>Namespace \<^verbatim>\<open>off\<close>: offsets in the long spatial header.\<close>

definition off_TYPE :: nat where [wire_consts]: "off_TYPE = 0"
definition off_APP_ID :: nat where [wire_consts]: "off_APP_ID = 1"
definition off_CHUNK_X :: nat where [wire_consts]: "off_CHUNK_X = 9"
definition off_CHUNK_Y :: nat where [wire_consts]: "off_CHUNK_Y = 17"
definition off_CHUNK_Z :: nat where [wire_consts]: "off_CHUNK_Z = 25"
definition off_DISTANCE :: nat where [wire_consts]: "off_DISTANCE = 33"
definition off_DECAY :: nat where [wire_consts]: "off_DECAY = 34"
definition off_CONTAINS_AUTH :: nat where [wire_consts]: "off_CONTAINS_AUTH = 35"
definition off_UUID :: nat where [wire_consts]: "off_UUID = 36"
definition off_PAYLOAD :: nat where [wire_consts]: "off_PAYLOAD = 68"

definition TAG_SIZE :: nat where [wire_consts]: "TAG_SIZE = 32"
definition TOKEN_OCTETS :: nat where [wire_consts]: "TOKEN_OCTETS = 64"
definition HEADER_SIZE :: nat where [wire_consts]: "HEADER_SIZE = off_PAYLOAD"
definition TAIL_WITH_HMAC :: nat where [wire_consts]: "TAIL_WITH_HMAC = TAG_SIZE + 8 + 1"
definition TAIL_NO_HMAC :: nat where [wire_consts]: "TAIL_NO_HMAC = 8 + 1"

text \<open>Namespace \<^verbatim>\<open>state\<close>: the 88-byte UE5 actor state.\<close>

definition state_VERSION_VALUE :: u8 where [wire_consts]: "state_VERSION_VALUE = 2"
definition state_SIZE :: nat where [wire_consts]: "state_SIZE = 88"
definition state_VERSION :: nat where [wire_consts]: "state_VERSION = 0"
definition state_POSITION_X :: nat where [wire_consts]: "state_POSITION_X = 8"
definition state_POSITION_Y :: nat where [wire_consts]: "state_POSITION_Y = 16"
definition state_POSITION_Z :: nat where [wire_consts]: "state_POSITION_Z = 24"
definition state_ROTATION_PITCH :: nat where [wire_consts]: "state_ROTATION_PITCH = 32"
definition state_ROTATION_YAW :: nat where [wire_consts]: "state_ROTATION_YAW = 40"
definition state_ROTATION_ROLL :: nat where [wire_consts]: "state_ROTATION_ROLL = 48"
definition state_VELOCITY_X :: nat where [wire_consts]: "state_VELOCITY_X = 56"
definition state_VELOCITY_Y :: nat where [wire_consts]: "state_VELOCITY_Y = 64"
definition state_VELOCITY_Z :: nat where [wire_consts]: "state_VELOCITY_Z = 72"

text \<open>Namespace \<^verbatim>\<open>bwfpose\<close>: the 48-byte Blocks With Friends pose.\<close>

definition bwfpose_SIZE :: nat where [wire_consts]: "bwfpose_SIZE = 48"
definition bwfpose_X :: nat where [wire_consts]: "bwfpose_X = 0"
definition bwfpose_Y :: nat where [wire_consts]: "bwfpose_Y = 4"
definition bwfpose_Z :: nat where [wire_consts]: "bwfpose_Z = 8"
definition bwfpose_YAW :: nat where [wire_consts]: "bwfpose_YAW = 12"
definition bwfpose_PITCH :: nat where [wire_consts]: "bwfpose_PITCH = 16"
definition bwfpose_VELOCITY_X :: nat where [wire_consts]: "bwfpose_VELOCITY_X = 20"
definition bwfpose_VELOCITY_Y :: nat where [wire_consts]: "bwfpose_VELOCITY_Y = 24"
definition bwfpose_VELOCITY_Z :: nat where [wire_consts]: "bwfpose_VELOCITY_Z = 28"
definition bwfpose_FLAGS :: nat where [wire_consts]: "bwfpose_FLAGS = 32"
definition bwfpose_HELD_BLOCK_ID :: nat where [wire_consts]: "bwfpose_HELD_BLOCK_ID = 33"
definition bwfpose_UPDATED_AT :: nat where [wire_consts]: "bwfpose_UPDATED_AT = 36"
definition bwfpose_FLAG_GROUNDED :: u8 where [wire_consts]: "bwfpose_FLAG_GROUNDED = 0x01"
definition bwfpose_FLAG_MOB :: u8 where [wire_consts]: "bwfpose_FLAG_MOB = 0x02"

section \<open>Pose profiles and message sizes\<close>

datatype PoseFormat = UE5 | BWF

definition payloadSize :: "PoseFormat \<Rightarrow> nat" where
  "payloadSize f = (if f = BWF then bwfpose_SIZE else state_SIZE)"

definition actorUpdateSize :: "PoseFormat \<Rightarrow> nat" where
  "actorUpdateSize f = HEADER_SIZE + payloadSize f + TAIL_WITH_HMAC"

definition actorUpdateHmacOffset :: "PoseFormat \<Rightarrow> nat" where
  "actorUpdateHmacOffset f = HEADER_SIZE + payloadSize f"

definition actorUpdateTokenIdOffset :: "PoseFormat \<Rightarrow> nat" where
  "actorUpdateTokenIdOffset f = actorUpdateHmacOffset f + TAG_SIZE"

definition actorUpdateSeqOffset :: "PoseFormat \<Rightarrow> nat" where
  "actorUpdateSeqOffset f = actorUpdateTokenIdOffset f + 8"

definition ACTOR_UPDATE_SIZE :: nat where
  [wire_consts]: "ACTOR_UPDATE_SIZE = actorUpdateSize UE5"
definition ACTOR_UPDATE_HMAC_OFFSET :: nat where
  [wire_consts]: "ACTOR_UPDATE_HMAC_OFFSET = actorUpdateHmacOffset UE5"
definition ACTOR_UPDATE_TOKEN_ID_OFFSET :: nat where
  [wire_consts]: "ACTOR_UPDATE_TOKEN_ID_OFFSET = actorUpdateTokenIdOffset UE5"
definition ACTOR_UPDATE_SEQ_OFFSET :: nat where
  [wire_consts]: "ACTOR_UPDATE_SEQ_OFFSET = actorUpdateSeqOffset UE5"
definition ACTOR_UPDATE_MAX_SIZE :: nat where
  [wire_consts]: "ACTOR_UPDATE_MAX_SIZE = ACTOR_UPDATE_SIZE"

lemma format_sizes [simp]:
  "payloadSize UE5 = 88" "payloadSize BWF = 48"
  "actorUpdateSize UE5 = 197" "actorUpdateSize BWF = 157"
  "actorUpdateHmacOffset UE5 = 156" "actorUpdateHmacOffset BWF = 116"
  "actorUpdateTokenIdOffset UE5 = 188" "actorUpdateTokenIdOffset BWF = 148"
  "actorUpdateSeqOffset UE5 = 196" "actorUpdateSeqOffset BWF = 156"
  by (simp_all add: payloadSize_def actorUpdateSize_def actorUpdateHmacOffset_def
      actorUpdateTokenIdOffset_def actorUpdateSeqOffset_def wire_consts)

section \<open>Field access\<close>

definition writeI64 :: "nat \<Rightarrow> i64 \<Rightarrow> bytes \<Rightarrow> bytes" where
  "writeI64 dst v buf = put dst (le_bytes 8 v) buf"

definition writeF64 :: "nat \<Rightarrow> u64 \<Rightarrow> bytes \<Rightarrow> bytes" where
  "writeF64 dst v buf = put dst (le_bytes 8 v) buf"

definition writeF32 :: "nat \<Rightarrow> u32 \<Rightarrow> bytes \<Rightarrow> bytes" where
  "writeF32 dst v buf = put dst (le_bytes 4 v) buf"

definition readI64 :: "nat \<Rightarrow> bytes \<Rightarrow> i64" where
  "readI64 src buf = from_le (slice src 8 buf)"

definition readF32 :: "nat \<Rightarrow> bytes \<Rightarrow> u32" where
  "readF32 src buf = from_le (slice src 4 buf)"

definition readF64 :: "nat \<Rightarrow> bytes \<Rightarrow> u64" where
  "readF64 src buf = from_le (slice src 8 buf)"

lemmas access_defs = writeI64_def writeF64_def writeF32_def readI64_def readF32_def readF64_def

lemma from_le_words [simp]:
  "from_le (le_bytes 8 w) = (w :: u64)"
  "from_le (le_bytes 4 w') = (w' :: u32)"
  "from_le (le_bytes 2 w'') = (w'' :: u16)"
  by (rule from_le_le_bytes, simp)+

text \<open>The values one send carries.\<close>

record ActorPose =
  ap_posX :: u64
  ap_posY :: u64
  ap_posZ :: u64
  ap_pitch :: u64
  ap_yaw :: u64
  ap_roll :: u64
  ap_velX :: u64
  ap_velY :: u64
  ap_velZ :: u64
  ap_grounded :: bool
  ap_updatedAtMs :: u64

section \<open>Signing\<close>

text \<open>
  \<open>spatialSign\<close> returns the success flag and the bytes it wrote at \<^verbatim>\<open>out\<close>
  (none when the message is too long or \<^verbatim>\<open>HMAC()\<close> failed).
\<close>

type_synonym hmac_fn = "bytes \<Rightarrow> bytes \<Rightarrow> bytes option"

definition spatialSign :: "hmac_fn \<Rightarrow> bytes \<Rightarrow> bytes \<Rightarrow> bool \<times> bytes" where
  "spatialSign hm prefix token =
     (let MAX_MSG = 2048 + TOKEN_OCTETS in
      if length prefix + TOKEN_OCTETS > MAX_MSG then (False, [])
      else let msg = prefix @ take TOKEN_OCTETS token in
        case hm (take TOKEN_OCTETS token) msg of
          None \<Rightarrow> (False, [])
        | Some out \<Rightarrow> (length out = TAG_SIZE, out))"

definition tagEquals :: "bytes \<Rightarrow> bytes \<Rightarrow> bool" where
  "tagEquals a b \<longleftrightarrow> take TAG_SIZE a = take TAG_SIZE b"

section \<open>Building messages\<close>

definition initActorUpdateTemplateFmt ::
  "PoseFormat \<Rightarrow> bytes \<Rightarrow> i64 \<Rightarrow> i64 \<Rightarrow> u8 \<Rightarrow> DecayRate \<Rightarrow> bytes \<Rightarrow> bytes" where
  "initActorUpdateTemplateFmt fmt uuid32 appId gameTokenId distance decay buf =
     (let buf = put 0 (replicate ACTOR_UPDATE_MAX_SIZE 0) buf;
          buf = buf[off_TYPE := ACTOR_UPDATE_REQUEST_2];
          buf = writeI64 off_APP_ID appId buf;
          buf = buf[off_DISTANCE := distance];
          buf = buf[off_DECAY := decay_byte decay];
          buf = buf[off_CONTAINS_AUTH := 1];
          buf = put off_UUID (take 32 uuid32) buf;
          buf = (if fmt = UE5 then buf[HEADER_SIZE + state_VERSION := state_VERSION_VALUE]
                 else buf)
      in writeI64 (actorUpdateTokenIdOffset fmt) gameTokenId buf)"

definition finalizeActorUpdateFmt ::
  "hmac_fn \<Rightarrow> PoseFormat \<Rightarrow> i64 \<Rightarrow> i64 \<Rightarrow> i64 \<Rightarrow> ActorPose \<Rightarrow> u8 \<Rightarrow> bytes \<Rightarrow> bytes \<Rightarrow> bool \<times> bytes"
where
  "finalizeActorUpdateFmt hm fmt chunkX chunkY chunkZ p sq token64 buf =
     (let buf = writeI64 off_CHUNK_X chunkX buf;
          buf = writeI64 off_CHUNK_Y chunkY buf;
          buf = writeI64 off_CHUNK_Z chunkZ buf;
          st = off_PAYLOAD;
          buf =
            (if fmt = BWF then
               let buf = writeF32 (st + bwfpose_X) (f64_to_f32 (ap_posX p)) buf;
                   buf = writeF32 (st + bwfpose_Y) (f64_to_f32 (ap_posY p)) buf;
                   buf = writeF32 (st + bwfpose_Z) (f64_to_f32 (ap_posZ p)) buf;
                   buf = writeF32 (st + bwfpose_YAW) (f64_to_f32 (ap_yaw p)) buf;
                   buf = writeF32 (st + bwfpose_PITCH) (f64_to_f32 (ap_pitch p)) buf;
                   buf = writeF32 (st + bwfpose_VELOCITY_X) (f64_to_f32 (ap_velX p)) buf;
                   buf = writeF32 (st + bwfpose_VELOCITY_Y) (f64_to_f32 (ap_velY p)) buf;
                   buf = writeF32 (st + bwfpose_VELOCITY_Z) (f64_to_f32 (ap_velZ p)) buf;
                   buf = buf[st + bwfpose_FLAGS :=
                               (if ap_grounded p then bwfpose_FLAG_GROUNDED else 0)];
                   buf = buf[st + bwfpose_HELD_BLOCK_ID := 0]
               in writeF64 (st + bwfpose_UPDATED_AT) (ap_updatedAtMs p) buf
             else
               let buf = writeF64 (st + state_POSITION_X) (ap_posX p) buf;
                   buf = writeF64 (st + state_POSITION_Y) (ap_posY p) buf;
                   buf = writeF64 (st + state_POSITION_Z) (ap_posZ p) buf;
                   buf = writeF64 (st + state_ROTATION_PITCH) (ap_pitch p) buf;
                   buf = writeF64 (st + state_ROTATION_YAW) (ap_yaw p) buf;
                   buf = writeF64 (st + state_ROTATION_ROLL) (ap_roll p) buf;
                   buf = writeF64 (st + state_VELOCITY_X) (ap_velX p) buf;
                   buf = writeF64 (st + state_VELOCITY_Y) (ap_velY p) buf
               in writeF64 (st + state_VELOCITY_Z) (ap_velZ p) buf);
          buf = buf[actorUpdateSeqOffset fmt := sq];
          (ok, out) = spatialSign hm (take (actorUpdateHmacOffset fmt) buf) token64
      in (ok, put (actorUpdateHmacOffset fmt) out buf))"

definition initActorUpdateTemplate ::
  "bytes \<Rightarrow> i64 \<Rightarrow> i64 \<Rightarrow> u8 \<Rightarrow> DecayRate \<Rightarrow> bytes \<Rightarrow> bytes" where
  "initActorUpdateTemplate uuid32 appId gameTokenId distance decay buf =
     (let buf = put 0 (replicate ACTOR_UPDATE_SIZE 0) buf;
          buf = buf[off_TYPE := ACTOR_UPDATE_REQUEST_2];
          buf = writeI64 off_APP_ID appId buf;
          buf = buf[off_DISTANCE := distance];
          buf = buf[off_DECAY := decay_byte decay];
          buf = buf[off_CONTAINS_AUTH := 1];
          buf = put off_UUID (take 32 uuid32) buf;
          buf = buf[HEADER_SIZE + state_VERSION := state_VERSION_VALUE]
      in writeI64 ACTOR_UPDATE_TOKEN_ID_OFFSET gameTokenId buf)"

definition finalizeActorUpdate ::
  "hmac_fn \<Rightarrow> i64 \<Rightarrow> i64 \<Rightarrow> i64 \<Rightarrow> u64 \<Rightarrow> u64 \<Rightarrow> u64 \<Rightarrow> u64 \<Rightarrow> u64 \<Rightarrow> u64 \<Rightarrow> u64 \<Rightarrow> u64 \<Rightarrow> u64 \<Rightarrow>
     u8 \<Rightarrow> bytes \<Rightarrow> bytes \<Rightarrow> bool \<times> bytes" where
  "finalizeActorUpdate hm chunkX chunkY chunkZ posX posY posZ rotPitch rotYaw rotRoll
      velX velY velZ sq token64 buf =
     (let buf = writeI64 off_CHUNK_X chunkX buf;
          buf = writeI64 off_CHUNK_Y chunkY buf;
          buf = writeI64 off_CHUNK_Z chunkZ buf;
          st = off_PAYLOAD;
          buf = writeF64 (st + state_POSITION_X) posX buf;
          buf = writeF64 (st + state_POSITION_Y) posY buf;
          buf = writeF64 (st + state_POSITION_Z) posZ buf;
          buf = writeF64 (st + state_ROTATION_PITCH) rotPitch buf;
          buf = writeF64 (st + state_ROTATION_YAW) rotYaw buf;
          buf = writeF64 (st + state_ROTATION_ROLL) rotRoll buf;
          buf = writeF64 (st + state_VELOCITY_X) velX buf;
          buf = writeF64 (st + state_VELOCITY_Y) velY buf;
          buf = writeF64 (st + state_VELOCITY_Z) velZ buf;
          buf = buf[ACTOR_UPDATE_SEQ_OFFSET := sq];
          (ok, out) = spatialSign hm (take ACTOR_UPDATE_HMAC_OFFSET buf) token64
      in (ok, put ACTOR_UPDATE_HMAC_OFFSET out buf))"

definition CAP_BUNDLE_SIGNED :: u32 where [wire_consts]: "CAP_BUNDLE_SIGNED = 1"
definition CAPABILITIES_SIZE :: nat where
  [wire_consts]: "CAPABILITIES_SIZE = HEADER_SIZE + 4 + TAIL_WITH_HMAC"

definition buildCapabilities ::
  "hmac_fn \<Rightarrow> i64 \<Rightarrow> i64 \<Rightarrow> u32 \<Rightarrow> u8 \<Rightarrow> bytes \<Rightarrow> bytes \<Rightarrow> bool \<times> bytes" where
  "buildCapabilities hm appId gameTokenId flags sq token64 buf =
     (let buf = put 0 (replicate CAPABILITIES_SIZE 0) buf;
          buf = buf[off_TYPE := CLIENT_CAPABILITIES];
          buf = writeI64 off_APP_ID appId buf;
          buf = buf[off_CONTAINS_AUTH := 1];
          buf = put HEADER_SIZE (le_bytes 4 flags) buf;
          hmacOff = HEADER_SIZE + 4;
          buf = writeI64 (hmacOff + TAG_SIZE) gameTokenId buf;
          buf = buf[CAPABILITIES_SIZE - 1 := sq];
          (ok, out) = spatialSign hm (take hmacOff buf) token64
      in (ok, put hmacOff out buf))"

section \<open>Parsing messages\<close>

text \<open>An \<^verbatim>\<open>InboundView\<close> is the list of its bytes.\<close>

type_synonym InboundView = bytes

definition msg_type :: "InboundView \<Rightarrow> u8" where
  "msg_type m = (if length m > 0 then m ! 0 else 0)"

definition is_spatial :: "InboundView \<Rightarrow> bool" where
  "is_spatial m \<longleftrightarrow> msg_type m AND SPATIAL_TYPE_BIT \<noteq> 0"

definition verifySignedBundle :: "hmac_fn \<Rightarrow> bytes \<Rightarrow> bytes \<Rightarrow> bool" where
  "verifySignedBundle hm data token64 =
     (if length data \<le> TAG_SIZE + 1 \<or> data ! 0 \<noteq> MESSAGE_BUNDLE_SIGNED then False
      else let (ok, expected) = spatialSign hm (take (length data - TAG_SIZE) data) token64 in
        if \<not> ok then False else tagEquals expected (drop (length data - TAG_SIZE) data))"

definition notificationEpochMs :: "InboundView \<Rightarrow> i64 option" where
  "notificationEpochMs m =
     (if length m < HEADER_SIZE + TAIL_NO_HMAC then None
      else if \<not> is_spatial m then None
      else Some (readI64 (length m - TAIL_NO_HMAC) m))"

definition verifyNotification :: "hmac_fn \<Rightarrow> InboundView \<Rightarrow> bytes \<Rightarrow> bool" where
  "verifyNotification hm m token64 =
     (if length m \<le> off_CONTAINS_AUTH \<or> \<not> is_spatial m then True
      else if m ! off_CONTAINS_AUTH = 0 then True
      else if length m < HEADER_SIZE + TAIL_WITH_HMAC then False
      else let prefixLen = length m - TAIL_WITH_HMAC;
               (ok, expected) = spatialSign hm (take prefixLen m) token64 in
        if \<not> ok then False else tagEquals expected (drop prefixLen m))"

text \<open>
  The member loop of \<^verbatim>\<open>forEachMessage\<close>: the messages handed to the callback, in order, and
  the return value.
\<close>

function bundle_loop :: "bytes \<Rightarrow> nat \<Rightarrow> nat \<Rightarrow> InboundView list \<times> bool" where
  "bundle_loop data len offset =
     (if offset < len then
        if offset + 2 > len then ([], False)
        else let msgLen = unat (from_le (slice offset 2 data) :: u16); offset = offset + 2 in
          if offset + msgLen > len then ([], False)
          else let (ms, ok) = bundle_loop data len (offset + msgLen)
               in (slice offset msgLen data # ms, ok)
      else ([], True))"
  by pat_completeness auto
termination
  by (relation "measure (\<lambda>(data, len, offset). len - offset)") auto

declare bundle_loop.simps [simp del]

definition forEachMessage :: "bytes \<Rightarrow> InboundView list \<times> bool" where
  "forEachMessage data =
     (if length data = 0 then ([], False)
      else if data ! 0 = MESSAGE_BUNDLE_SIGNED then
        if length data \<le> TAG_SIZE + 1 then ([], False)
        else bundle_loop data (length data - TAG_SIZE) 1
      else if data ! 0 \<noteq> MESSAGE_BUNDLE then ([data], True)
      else bundle_loop data (length data) 1)"

section \<open>What a valid tag is\<close>

text \<open>
  \<open>sealed hm token prefix tag\<close>: the tag is the 32-byte \<^verbatim>\<open>HMAC(token, prefix || token)\<close> of a
  prefix short enough for the signing buffer. Signing produces it and both verifiers test it.
\<close>

definition sealed :: "hmac_fn \<Rightarrow> bytes \<Rightarrow> bytes \<Rightarrow> bytes \<Rightarrow> bool" where
  "sealed hm token prefix tag \<longleftrightarrow>
     length prefix \<le> 2048 \<and> length tag = 32 \<and> hm (take 64 token) (prefix @ take 64 token) = Some tag"

lemma spatialSign_iff: "spatialSign hm prefix token = (True, out) \<longleftrightarrow> sealed hm token prefix out"
  by (auto simp: spatialSign_def sealed_def wire_consts split: option.splits)

lemma spatialSign_fails: "spatialSign hm prefix token = (False, out) \<Longrightarrow> \<not> sealed hm token prefix tag"
  by (auto simp: spatialSign_def sealed_def wire_consts split: option.splits if_splits)

lemma verifyNotification_iff:
  assumes "is_spatial m" "35 < length m" "m ! 35 \<noteq> 0"
  shows "verifyNotification hm m token \<longleftrightarrow>
    109 \<le> length m \<and>
    sealed hm token (take (length m - 41) m) (slice (length m - 41) 32 m)"
proof (cases "spatialSign hm (take (length m - 41) m) token")
  case (Pair ok out)
  show ?thesis
  proof (cases ok)
    case True
    with Pair have "sealed hm token (take (length m - 41) m) out" by (simp add: spatialSign_iff)
    then show ?thesis using Pair True assms
      by (auto simp: verifyNotification_def wire_consts tagEquals_def slice_def sealed_def)
  next
    case False
    with Pair have "\<not> sealed hm token (take (length m - 41) m) (slice (length m - 41) 32 m)"
      by (intro spatialSign_fails) simp
    then show ?thesis using Pair False assms
      by (auto simp: verifyNotification_def wire_consts)
  qed
qed

lemma verifySignedBundle_iff:
  "verifySignedBundle hm data token \<longleftrightarrow>
     33 < length data \<and> data ! 0 = MESSAGE_BUNDLE_SIGNED \<and>
     sealed hm token (take (length data - 32) data) (drop (length data - 32) data)"
proof (cases "spatialSign hm (take (length data - 32) data) token")
  case (Pair ok out)
  show ?thesis
  proof (cases ok)
    case True
    with Pair have "sealed hm token (take (length data - 32) data) out" by (simp add: spatialSign_iff)
    then show ?thesis using Pair True
      by (auto simp: verifySignedBundle_def wire_consts tagEquals_def sealed_def)
  next
    case False
    with Pair have "\<not> sealed hm token (take (length data - 32) data) (drop (length data - 32) data)"
      by (intro spatialSign_fails) simp
    then show ?thesis using Pair False
      by (auto simp: verifySignedBundle_def wire_consts)
  qed
qed

section \<open>Bundles and their encoding\<close>

text \<open>
  The reference encoding of a bundle's members: a two-byte little-endian length, then the
  member. \<open>truncated rest\<close> describes a tail in which no further complete member fits.
\<close>

definition encode_member :: "bytes \<Rightarrow> bytes" where
  "encode_member m = le_bytes 2 (of_nat (length m) :: u16) @ m"

definition encode_members :: "bytes list \<Rightarrow> bytes" where
  "encode_members ms = concat (map encode_member ms)"

lemma encode_members_simps [simp]:
  "encode_members [] = []" "encode_members (m # ms) = encode_member m @ encode_members ms"
  by (simp_all add: encode_members_def)

lemma length_encode_member [simp]: "length (encode_member m) = length m + 2"
  by (simp add: encode_member_def)

definition truncated :: "bytes \<Rightarrow> bool" where
  "truncated rest \<longleftrightarrow> length rest = 1 \<or>
     (2 \<le> length rest \<and> length rest < 2 + unat (from_le (take 2 rest) :: u16))"

lemma bundle_loop_encode:
  assumes "\<forall>m \<in> set ms. length m < 2 ^ 16"
    and "drop offset (take len data) = encode_members ms" "len \<le> length data" "offset \<le> len"
  shows "bundle_loop data len offset = (ms, True)"
  using assms
proof (induction ms arbitrary: offset)
  case Nil
  then show ?case by (simp add: bundle_loop.simps)
next
  case (Cons m ms)
  let ?d = "drop offset (take len data)"
  have d: "?d = encode_member m @ encode_members ms" using Cons.prems(2) by simp
  have ld: "length ?d = len - offset" using Cons.prems(3) by simp
  have fits: "offset + 2 + length m \<le> len"
    using arg_cong [OF d, of length] ld Cons.prems(4) by simp
  have m: "unat (of_nat (length m) :: u16) = length m"
    using Cons.prems(1) by (simp add: unat_of_nat take_bit_nat_eq_self)
  have hdr: "slice offset 2 data = le_bytes 2 (of_nat (length m) :: u16)"
  proof -
    have "slice offset 2 data = take 2 ?d" using fits by (simp add: slice_def drop_take min_def)
    then show ?thesis by (simp add: d encode_member_def)
  qed
  have body: "slice (offset + 2) (length m) data = m"
  proof -
    have "slice (offset + 2) (length m) data = take (length m) (drop 2 ?d)"
      using fits by (simp add: slice_def drop_take min_def add.commute)
    then show ?thesis by (simp add: d encode_member_def)
  qed
  have rest: "drop (offset + 2 + length m) (take len data) = encode_members ms"
  proof -
    have "drop (offset + 2 + length m) (take len data) = drop (2 + length m) ?d"
      by (simp add: add.commute add.left_commute)
    then show ?thesis by (simp add: d encode_member_def)
  qed
  have "bundle_loop data len (offset + 2 + length m) = (ms, True)"
    by (rule Cons.IH) (use Cons.prems fits rest in auto)
  then show ?case using fits
    by (subst bundle_loop.simps) (simp add: hdr m body [simplified] Let_def)
qed

lemma bundle_loop_sound:
  assumes "bundle_loop data len offset = (ms, ok)" "len \<le> length data" "offset \<le> len"
  shows "\<exists>rest. drop offset (take len data) = encode_members ms @ rest \<and>
           (if ok then rest = [] else truncated rest) \<and> (\<forall>m \<in> set ms. length m < 2 ^ 16)"
  using assms
proof (induction data len offset arbitrary: ms rule: bundle_loop.induct)
  case (1 data len offset)
  let ?d = "drop offset (take len data)"
  let ?n = "unat (from_le (slice offset 2 data) :: u16)"
  have ld: "length ?d = len - offset" using "1.prems" by simp
  consider "\<not> offset < len" | "offset < len" "len < offset + 2"
    | "offset + 2 \<le> len" "len < offset + 2 + ?n" | "offset + 2 + ?n \<le> len"
    by linarith
  then show ?case
  proof cases
    case 1
    then show ?thesis using "1.prems" by (simp add: bundle_loop.simps)
  next
    case 2
    then have "bundle_loop data len offset = ([], False)" by (simp add: bundle_loop.simps)
    moreover have "length ?d = 1" using 2 ld by simp
    ultimately show ?thesis using "1.prems" by (simp add: truncated_def)
  next
    case 3
    then have "bundle_loop data len offset = ([], False)"
      by (subst bundle_loop.simps) (simp add: Let_def)
    moreover have "take 2 ?d = slice offset 2 data"
      using 3 by (simp add: slice_def drop_take min_def)
    ultimately show ?thesis using "1.prems" 3 ld by (auto simp: truncated_def)
  next
    case 4
    obtain ms' where r: "bundle_loop data len (offset + 2 + ?n) = (ms', ok)"
      and ms: "ms = slice (offset + 2) ?n data # ms'"
      using "1.prems"(1) 4
      by (subst (asm) bundle_loop.simps) (auto simp: Let_def split: prod.splits)
    from "1.IH" [of ?n "offset + 2" ms'] r 4 "1.prems"
    obtain rest where IH: "drop (offset + 2 + ?n) (take len data) = encode_members ms' @ rest"
       "if ok then rest = [] else truncated rest" "\<forall>m \<in> set ms'. length m < 2 ^ 16"
      by auto
    let ?m = "slice (offset + 2) ?n data"
    have lm: "length ?m = ?n" using 4 "1.prems" by (simp add: length_slice)
    have "encode_member ?m = slice offset 2 data @ ?m"
      using 4 "1.prems" by (simp add: encode_member_def lm le_bytes_from_le length_slice)
    also have "\<dots> = slice offset (2 + ?n) data" by (rule slice_append)
    also have "\<dots> = take (2 + ?n) ?d" using 4 by (simp add: slice_def drop_take min_def)
    finally have "?d = encode_member ?m @ drop (2 + ?n) ?d" by (metis append_take_drop_id)
    also have "drop (2 + ?n) ?d = encode_members ms' @ rest"
      using IH(1) by (simp add: add.commute add.left_commute)
    finally show ?thesis using IH lm unat_u16_less [of "from_le (slice offset 2 data)"]
      by (intro exI [of _ rest]) (simp add: ms)
  qed
qed

section \<open>The fields of an actor update\<close>

lemma length_init:
  assumes "length buf = 197" "length uuid = 32"
  shows "length (initActorUpdateTemplateFmt fmt uuid appId gtid distance decay buf) = 197"
  using assms by (cases fmt) (simp_all add: initActorUpdateTemplateFmt_def access_defs wire_consts Let_def)

lemma init_fields:
  assumes "length buf = 197" "length uuid = 32"
    and t: "t = initActorUpdateTemplateFmt fmt uuid appId gtid distance decay buf"
  shows "t ! off_TYPE = ACTOR_UPDATE_REQUEST_2" "readI64 off_APP_ID t = appId"
    "t ! off_DISTANCE = distance" "t ! off_DECAY = decay_byte decay" "t ! off_CONTAINS_AUTH = 1"
    "slice off_UUID 32 t = uuid" "readI64 (actorUpdateTokenIdOffset fmt) t = gtid"
  using assms by (cases fmt;
     simp add: initActorUpdateTemplateFmt_def access_defs wire_consts Let_def buffer_simps)+

text \<open>The buffer just before it is signed.\<close>

definition patched :: "PoseFormat \<Rightarrow> i64 \<Rightarrow> i64 \<Rightarrow> i64 \<Rightarrow> ActorPose \<Rightarrow> u8 \<Rightarrow> bytes \<Rightarrow> bytes" where
  "patched fmt cx cy cz p sq buf = snd (finalizeActorUpdateFmt (\<lambda>_ _. None) fmt cx cy cz p sq [] buf)"

lemma finalize_patched:
  assumes "length buf = 197"
  shows "finalizeActorUpdateFmt hm fmt cx cy cz p sq token buf =
    (let (ok, out) = spatialSign hm (take (actorUpdateHmacOffset fmt) (patched fmt cx cy cz p sq buf)) token
     in (ok, put (actorUpdateHmacOffset fmt) out (patched fmt cx cy cz p sq buf)))"
  by (cases fmt) (simp_all add: finalizeActorUpdateFmt_def patched_def spatialSign_def Let_def
     split: prod.splits)

lemma length_patched [simp]: "length buf = 197 \<Longrightarrow> length (patched fmt cx cy cz p sq buf) = 197"
  by (cases fmt) (simp_all add: patched_def finalizeActorUpdateFmt_def spatialSign_def access_defs wire_consts Let_def)

lemma patched_chunks:
  assumes "length buf = 197"
  shows "readI64 off_CHUNK_X (patched fmt cx cy cz p sq buf) = cx"
    "readI64 off_CHUNK_Y (patched fmt cx cy cz p sq buf) = cy"
    "readI64 off_CHUNK_Z (patched fmt cx cy cz p sq buf) = cz"
    "patched fmt cx cy cz p sq buf ! actorUpdateSeqOffset fmt = sq"
  using assms by (cases fmt;
     simp add: patched_def finalizeActorUpdateFmt_def spatialSign_def access_defs wire_consts Let_def buffer_simps)+

lemmas update_unfold =
  patched_def finalizeActorUpdateFmt_def spatialSign_def access_defs wire_consts Let_def

lemma patched_pose_UE5:
  assumes "length buf = 197"
  shows "map (\<lambda>k. readF64 (68 + k) (patched UE5 cx cy cz p sq buf)) [8, 16, 24, 32, 40, 48, 56, 64, 72] =
     [ap_posX p, ap_posY p, ap_posZ p, ap_pitch p, ap_yaw p, ap_roll p, ap_velX p, ap_velY p, ap_velZ p]"
  using assms by (simp add: update_unfold buffer_simps)

lemma patched_pose_BWF:
  assumes "length buf = 197"
  shows "map (\<lambda>k. readF32 (68 + k) (patched BWF cx cy cz p sq buf)) [0, 4, 8, 12, 16, 20, 24, 28] =
     map f64_to_f32 [ap_posX p, ap_posY p, ap_posZ p, ap_yaw p, ap_pitch p, ap_velX p, ap_velY p, ap_velZ p]"
    and "patched BWF cx cy cz p sq buf ! 100 = (if ap_grounded p then 1 else 0)"
    and "patched BWF cx cy cz p sq buf ! 101 = 0"
    and "readF64 104 (patched BWF cx cy cz p sq buf) = ap_updatedAtMs p"
  using assms by (simp_all add: update_unfold buffer_simps)

text \<open>What a send leaves alone: the static fields of the template.\<close>

lemma patched_frame:
  assumes "length buf = 197"
  shows "slice 0 9 (patched fmt cx cy cz p sq buf) = slice 0 9 buf"
    and "slice 33 35 (patched fmt cx cy cz p sq buf) = slice 33 35 buf"
    and "slice (actorUpdateTokenIdOffset fmt) 8 (patched fmt cx cy cz p sq buf) =
         slice (actorUpdateTokenIdOffset fmt) 8 buf"
    and "patched UE5 cx cy cz p sq buf ! 68 = buf ! 68"
  using assms by (cases fmt; simp add: update_unfold buffer_simps)+

lemma finalize_iff:
  assumes "length buf = 197"
  shows "finalizeActorUpdateFmt hm fmt cx cy cz p sq token buf = (True, m) \<longleftrightarrow>
    (\<exists>tag. sealed hm token (take (actorUpdateHmacOffset fmt) (patched fmt cx cy cz p sq buf)) tag \<and>
           m = put (actorUpdateHmacOffset fmt) tag (patched fmt cx cy cz p sq buf))"
  using assms by (auto simp: finalize_patched Let_def simp flip: spatialSign_iff split: prod.splits)

lemma slice_put_tag:
  assumes "sealed hm token prefix tag" "o1 + n \<le> off \<or> off + 32 \<le> o1"
  shows "slice o1 n (put off tag buf) = slice o1 n buf"
  using assms by (simp add: slice_put_other sealed_def)

lemma nth_put_tag:
  assumes "sealed hm token prefix tag" "i < length buf" "i < off \<or> off + 32 \<le> i"
  shows "put off tag buf ! i = buf ! i"
  using assms by (auto simp: nth_put sealed_def)

section \<open>The interface of a signed datagram\<close>

text \<open>
  Every client datagram is a prefix, its tag, and a nine-byte tail. A builder that seals its
  prefix this way is accepted by the verifier of the same protocol.
\<close>

locale sealed_datagram =
  fixes hm :: hmac_fn and token :: bytes
    and build :: "'a \<Rightarrow> bool \<times> bytes"
    and hmac_offset :: "'a \<Rightarrow> nat"
    and valid :: "'a \<Rightarrow> bool"
  assumes build_sealed:
    "valid x \<Longrightarrow> build x = (True, m) \<Longrightarrow>
       72 \<le> hmac_offset x \<and> hmac_offset x + 41 \<le> length m \<and>
       sealed hm token (take (hmac_offset x) m) (slice (hmac_offset x) 32 m)"
begin

lemma datagram_verifies:
  assumes "valid x" "build x = (True, m)" and d: "d = take (hmac_offset x + 41) m"
  shows "verifyNotification hm d token"
proof (cases "is_spatial d \<and> d ! 35 \<noteq> 0")
  case True
  have b: "72 \<le> hmac_offset x" "hmac_offset x + 41 \<le> length m"
    "sealed hm token (take (hmac_offset x) m) (slice (hmac_offset x) 32 m)"
    using build_sealed [OF assms(1,2)] by auto
  then have "length d = hmac_offset x + 41" by (simp add: d)
  then show ?thesis using True b
    by (subst verifyNotification_iff) (auto simp: d slice_take min_def)
next
  case False
  then show ?thesis by (auto simp: verifyNotification_def wire_consts)
qed

end

interpretation update: sealed_datagram hm token
  "\<lambda>(fmt, cx, cy, cz, p, sq, buf). finalizeActorUpdateFmt hm fmt cx cy cz p sq token buf"
  "\<lambda>(fmt, cx, cy, cz, p, sq, buf). actorUpdateHmacOffset fmt"
  "\<lambda>(fmt, cx, cy, cz, p, sq, buf). length buf = 197" for hm token
proof (unfold_locales, clarify)
  fix m fmt cx cy cz p sq and buf :: bytes
  assume "length buf = 197" "finalizeActorUpdateFmt hm fmt cx cy cz p sq token buf = (True, m)"
  then obtain tag where
    s: "sealed hm token (take (actorUpdateHmacOffset fmt) (patched fmt cx cy cz p sq buf)) tag"
    and m: "m = put (actorUpdateHmacOffset fmt) tag (patched fmt cx cy cz p sq buf)"
    by (auto simp: finalize_iff)
  have "length tag = 32" using s by (simp add: sealed_def)
  with s m \<open>length buf = 197\<close> show "72 \<le> actorUpdateHmacOffset fmt \<and>
       actorUpdateHmacOffset fmt + 41 \<le> length m \<and>
       sealed hm token (take (actorUpdateHmacOffset fmt) m) (slice (actorUpdateHmacOffset fmt) 32 m)"
    by (cases fmt) (simp_all add: take_put slice_put_same)
qed

definition caps_body :: "i64 \<Rightarrow> i64 \<Rightarrow> u32 \<Rightarrow> u8 \<Rightarrow> bytes \<Rightarrow> bytes" where
  "caps_body appId gtid flags sq buf = snd (buildCapabilities (\<lambda>_ _. None) appId gtid flags sq [] buf)"

lemmas caps_unfold =
  caps_body_def buildCapabilities_def spatialSign_def access_defs wire_consts Let_def

lemma length_caps_body [simp]: "length (caps_body appId gtid flags sq buf) = length buf"
  by (simp add: caps_unfold)

lemma buildCapabilities_iff:
  shows "buildCapabilities hm appId gtid flags sq token buf = (True, m) \<longleftrightarrow>
    (\<exists>tag. sealed hm token (take 72 (caps_body appId gtid flags sq buf)) tag \<and>
           m = put 72 tag (caps_body appId gtid flags sq buf))"
  by (simp add: buildCapabilities_def caps_body_def spatialSign_def sealed_def Let_def wire_consts
       split: option.splits) auto

lemma caps_fields:
  assumes "length buf = 113"
  shows "caps_body appId gtid flags sq buf ! 0 = 29" "readI64 1 (caps_body appId gtid flags sq buf) = appId"
    "caps_body appId gtid flags sq buf ! 35 = 1"
    "from_le (slice 68 4 (caps_body appId gtid flags sq buf)) = flags"
    "readI64 104 (caps_body appId gtid flags sq buf) = gtid"
    "caps_body appId gtid flags sq buf ! 112 = sq"
  using assms by (simp_all add: caps_unfold buffer_simps)

interpretation caps: sealed_datagram hm token
  "\<lambda>(appId, gtid, flags, sq, buf). buildCapabilities hm appId gtid flags sq token buf"
  "\<lambda>_. 72"
  "\<lambda>(appId, gtid, flags, sq, buf). length buf = CAPABILITIES_SIZE" for hm token
proof (unfold_locales, clarify)
  fix m appId gtid flags sq and buf :: bytes
  assume l: "length buf = CAPABILITIES_SIZE"
    and "buildCapabilities hm appId gtid flags sq token buf = (True, m)"
  then obtain tag where
    s: "sealed hm token (take 72 (caps_body appId gtid flags sq buf)) tag"
    and m: "m = put 72 tag (caps_body appId gtid flags sq buf)"
    by (auto simp: buildCapabilities_iff)
  then have "length tag = 32" by (simp add: sealed_def)
  with s m l show "72 \<le> (72::nat) \<and> 72 + 41 \<le> length m \<and> sealed hm token (take 72 m) (slice 72 32 m)"
    by (simp add: take_put slice_put_same wire_consts)
qed


section \<open>Properties\<close>

text \<open>
  C36. A signed actor update carries exactly what it was given: every chunk coordinate, every
  pose field (for the BWF profile narrowed to a float, with the mob flag never set) and the
  sequence number read back from the bytes at their documented offsets, and the fields the
  template holds (type, app id, distance, decay, auth flag, uuid, token id) are the template's.
\<close>

theorem actor_update_roundtrip:
  assumes len: "length buf = ACTOR_UPDATE_MAX_SIZE"
    and ok: "finalizeActorUpdateFmt hm fmt cx cy cz p sq token buf = (True, m)"
  shows "length m = ACTOR_UPDATE_MAX_SIZE \<and>
    readI64 off_CHUNK_X m = cx \<and> readI64 off_CHUNK_Y m = cy \<and> readI64 off_CHUNK_Z m = cz \<and>
    m ! actorUpdateSeqOffset fmt = sq \<and>
    (if fmt = UE5 then
       map (\<lambda>k. readF64 (off_PAYLOAD + k) m) [8, 16, 24, 32, 40, 48, 56, 64, 72] =
         [ap_posX p, ap_posY p, ap_posZ p, ap_pitch p, ap_yaw p, ap_roll p,
          ap_velX p, ap_velY p, ap_velZ p]
     else
       map (\<lambda>k. readF32 (off_PAYLOAD + k) m) [0, 4, 8, 12, 16, 20, 24, 28] =
         map f64_to_f32 [ap_posX p, ap_posY p, ap_posZ p, ap_yaw p, ap_pitch p,
           ap_velX p, ap_velY p, ap_velZ p] \<and>
       m ! (off_PAYLOAD + bwfpose_FLAGS) = (if ap_grounded p then bwfpose_FLAG_GROUNDED else 0) \<and>
       readF64 (off_PAYLOAD + bwfpose_UPDATED_AT) m = ap_updatedAtMs p) \<and>
    slice 0 9 m = slice 0 9 buf \<and> slice off_DISTANCE 35 m = slice off_DISTANCE 35 buf \<and>
    slice (actorUpdateTokenIdOffset fmt) 8 m = slice (actorUpdateTokenIdOffset fmt) 8 buf"
proof -
  have len: "length buf = 197" using len by (simp add: wire_consts)
  let ?b = "patched fmt cx cy cz p sq buf"
  obtain tag where s: "sealed hm token (take (actorUpdateHmacOffset fmt) ?b) tag"
    and m: "m = put (actorUpdateHmacOffset fmt) tag ?b"
    using ok len by (auto simp: finalize_iff)
  note past_tag = slice_put_tag [OF s] nth_put_tag [OF s]
  note facts = patched_chunks [OF len, of fmt cx cy cz p sq]
    patched_frame(1-3) [OF len, of fmt cx cy cz p sq]
    patched_pose_UE5 [OF len, of cx cy cz p sq] patched_pose_BWF [OF len, of cx cy cz p sq]
  show ?thesis using len facts
    by (cases fmt) (simp_all add: m past_tag readI64_def readF64_def readF32_def wire_consts)
qed

theorem actor_update_roundtrip_witness:
  "\<exists>m. finalizeActorUpdateFmt (\<lambda>k b. Some (replicate 32 7)) BWF 1 2 (-3)
        \<lparr>ap_posX = 0x3FF8000000000000, ap_posY = 0, ap_posZ = 0, ap_pitch = 0, ap_yaw = 0,
         ap_roll = 0, ap_velX = 0, ap_velY = 0, ap_velZ = 0, ap_grounded = True,
         ap_updatedAtMs = 5\<rparr> 9 (replicate 64 1) (replicate 197 0) = (True, m) \<and>
     readI64 off_CHUNK_Z m = -3 \<and> readF32 off_PAYLOAD m = 0x3FC00000 \<and>
     m ! actorUpdateSeqOffset BWF = 9"
proof -
  let ?p = "\<lparr>ap_posX = 0x3FF8000000000000, ap_posY = 0, ap_posZ = 0, ap_pitch = 0, ap_yaw = 0,
         ap_roll = 0, ap_velX = 0, ap_velY = 0, ap_velZ = 0, ap_grounded = True,
         ap_updatedAtMs = 5\<rparr> :: ActorPose"
  let ?hm = "\<lambda>k b. Some (replicate 32 7) :: bytes option"
  let ?r = "finalizeActorUpdateFmt ?hm BWF 1 2 (-3) ?p 9 (replicate 64 1) (replicate 197 0)"
  have ok: "?r = (True, snd ?r)"
    by (simp add: finalize_patched spatialSign_def wire_consts)
  have "f64_to_f32 0x3FF8000000000000 = 0x3FC00000"
    by (simp add: f64_to_f32_def rne_shift_def)
  then show ?thesis
    using ok actor_update_roundtrip [OF _ ok] by (intro exI [of _ "snd ?r"]) (simp add: wire_consts)
qed


text \<open>
  The datagram a client sends is authentic for the receiver: built from a fresh template
  and signed with the app token, its first \<open>actorUpdateSize\<close> bytes are a spatial message with
  the auth flag set, the template's identity fields, the game token id and the sequence
  number in the nine-byte tail, and a tag that verifies under the same token.
\<close>

theorem actor_update_authentic:
  assumes len: "length buf = ACTOR_UPDATE_MAX_SIZE" "length uuid = 32"
    and t: "t = initActorUpdateTemplateFmt fmt uuid appId gtid distance decay buf"
    and ok: "finalizeActorUpdateFmt hm fmt cx cy cz p sq token t = (True, m)"
    and d: "d = take (actorUpdateSize fmt) m"
  shows "length d = actorUpdateSize fmt \<and> msg_type d = ACTOR_UPDATE_REQUEST_2 \<and> is_spatial d \<and>
    d ! off_CONTAINS_AUTH = 1 \<and> readI64 off_APP_ID d = appId \<and> slice off_UUID 32 d = uuid \<and>
    readI64 (length d - TAIL_NO_HMAC) d = gtid \<and> d ! (length d - 1) = sq \<and>
    verifyNotification hm d token"
proof -
  have l: "length buf = 197" using len by (simp add: wire_consts)
  have lt: "length t = 197" using l len(2) by (simp add: t length_init)
  note fields = init_fields [OF l len(2) t]
  let ?b = "patched fmt cx cy cz p sq t"
  obtain tag where s: "sealed hm token (take (actorUpdateHmacOffset fmt) ?b) tag"
    and m: "m = put (actorUpdateHmacOffset fmt) tag ?b"
    using ok lt by (auto simp: finalize_iff)
  have v: "verifyNotification hm d token"
    using update.datagram_verifies [where x = "(fmt, cx, cy, cz, p, sq, t)", OF _ _ refl] ok lt
    by (cases fmt) (simp_all add: d)
  have n: "?b ! 0 = t ! 0" "?b ! 35 = t ! 35" "slice 36 32 ?b = slice 36 32 t"
    "slice 1 8 ?b = slice 1 8 t"
    using lt by (cases fmt; simp add: update_unfold buffer_simps)+
  note past_tag = slice_put_tag [OF s] nth_put_tag [OF s]
  show ?thesis
    using v lt n fields patched_chunks(4) [OF lt, of fmt] patched_frame(3) [OF lt, of fmt cx cy cz p sq]
    by (cases fmt)
      (simp_all add: d m past_tag slice_take readI64_def wire_consts is_spatial_def msg_type_def min_def)
qed

theorem actor_update_authentic_witness:
  "\<exists>m. finalizeActorUpdateFmt (\<lambda>k b. Some (replicate 32 7)) UE5 1 2 3
        \<lparr>ap_posX = 0, ap_posY = 0, ap_posZ = 0, ap_pitch = 0, ap_yaw = 0, ap_roll = 0, ap_velX = 0,
         ap_velY = 0, ap_velZ = 0, ap_grounded = False, ap_updatedAtMs = 0\<rparr> 9 (replicate 64 1)
        (initActorUpdateTemplateFmt UE5 (replicate 32 65) 42 77 8 EXPONENTIAL (replicate 197 0)) =
        (True, m) \<and>
     readI64 off_APP_ID (take (actorUpdateSize UE5) m) = 42 \<and>
     verifyNotification (\<lambda>k b. Some (replicate 32 7)) (take (actorUpdateSize UE5) m) (replicate 64 1)"
proof -
  let ?p = "\<lparr>ap_posX = 0, ap_posY = 0, ap_posZ = 0, ap_pitch = 0, ap_yaw = 0, ap_roll = 0,
         ap_velX = 0, ap_velY = 0, ap_velZ = 0, ap_grounded = False, ap_updatedAtMs = 0\<rparr> :: ActorPose"
  let ?hm = "\<lambda>k b. Some (replicate 32 7) :: bytes option"
  let ?t = "initActorUpdateTemplateFmt UE5 (replicate 32 65) 42 77 8 EXPONENTIAL (replicate 197 0)"
  let ?r = "finalizeActorUpdateFmt ?hm UE5 1 2 3 ?p 9 (replicate 64 1) ?t"
  have ok: "?r = (True, snd ?r)"
    by (simp add: finalize_patched length_init spatialSign_def wire_consts)
  show ?thesis
    using ok actor_update_authentic [OF _ _ refl ok refl]
    by (intro exI [of _ "snd ?r"]) (simp add: wire_consts)
qed

text \<open>
  C11. Parsing an unsigned bundle is exact. The members delivered are those of the longest
  well-formed beginning of the datagram, in order and each shorter than 2^16 bytes; the parser
  reports success precisely when nothing is left over, and otherwise what is left is cut short
  inside a member. Re-encoding the delivered members and appending the leftover gives the
  datagram back, so no byte is skipped and none is read twice.
\<close>

theorem bundle_parse_exact:
  assumes "data \<noteq> []" "data ! 0 = MESSAGE_BUNDLE" "forEachMessage data = (ms, ok)"
  shows "\<exists>rest. data = MESSAGE_BUNDLE # encode_members ms @ rest \<and>
    (\<forall>m \<in> set ms. length m < 2 ^ 16) \<and> (ok \<longleftrightarrow> rest = []) \<and> (\<not> ok \<longrightarrow> truncated rest)"
proof -
  have "bundle_loop data (length data) 1 = (ms, ok)"
    using assms by (simp add: forEachMessage_def wire_consts)
  from bundle_loop_sound [OF this] assms(1) obtain rest where
    r: "drop 1 data = encode_members ms @ rest" "if ok then rest = [] else truncated rest"
      "\<forall>m \<in> set ms. length m < 2 ^ 16"
    by (cases data) auto
  moreover have "data = MESSAGE_BUNDLE # drop 1 data" using assms(1,2) by (cases data) auto
  moreover have "rest = [] \<Longrightarrow> ok" using r(2) by (auto simp: truncated_def split: if_splits)
  ultimately show ?thesis by (intro exI [of _ rest]) (auto split: if_splits)
qed

theorem bundle_parse_exact_witness:
  "forEachMessage [2, 1, 0, 9, 5, 0, 1] = ([[9]], False) \<and>
   (\<exists>rest. [2, 1, 0, 9, 5, 0, 1] = MESSAGE_BUNDLE # encode_members [[9]] @ rest \<and> truncated rest)"
proof -
  have r: "forEachMessage [2, 1, 0, 9, 5, 0, 1] = ([[9]], False)"
    by (simp add: forEachMessage_def bundle_loop.simps wire_consts slice_def)
  show ?thesis using r bundle_parse_exact [OF _ _ r] by (auto simp: wire_consts)
qed

text \<open>
  Encoding then parsing returns the members, for both kinds of bundle: any list of
  members shorter than 2^16 bytes is delivered unchanged and in order from an unsigned bundle,
  and from a signed one whose trailing tag is the one the client's token makes, which
  verifies.
\<close>

theorem bundle_roundtrip:
  assumes "\<forall>m \<in> set ms. length m < 2 ^ 16"
  shows "forEachMessage (MESSAGE_BUNDLE # encode_members ms) = (ms, True) \<and>
    (ms \<noteq> [] \<and> sealed hm token (MESSAGE_BUNDLE_SIGNED # encode_members ms) tag \<longrightarrow>
       verifySignedBundle hm (MESSAGE_BUNDLE_SIGNED # encode_members ms @ tag) token \<and>
       forEachMessage (MESSAGE_BUNDLE_SIGNED # encode_members ms @ tag) = (ms, True))"
proof (intro conjI impI)
  let ?e = "encode_members ms"
  show "forEachMessage (MESSAGE_BUNDLE # ?e) = (ms, True)"
    using assms by (simp add: forEachMessage_def bundle_loop_encode wire_consts)
next
  let ?e = "encode_members ms"
  let ?d = "MESSAGE_BUNDLE_SIGNED # ?e @ tag"
  assume s: "ms \<noteq> [] \<and> sealed hm token (MESSAGE_BUNDLE_SIGNED # ?e) tag"
  then have l: "length tag = 32" by (simp add: sealed_def)
  from s have ne: "0 < length ?e" by (cases ms) simp_all
  have cut: "take (length ?d - 32) ?d = MESSAGE_BUNDLE_SIGNED # ?e" "drop (length ?d - 32) ?d = tag"
    using l by simp_all
  then show "verifySignedBundle hm ?d token"
    using s l ne by (subst verifySignedBundle_iff) simp
  have "bundle_loop ?d (length ?d - 32) 1 = (ms, True)"
    using assms l cut(1) by (intro bundle_loop_encode) simp_all
  then show "forEachMessage ?d = (ms, True)"
    using l ne by (simp add: forEachMessage_def wire_consts)
qed

theorem bundle_roundtrip_witness:
  "forEachMessage (MESSAGE_BUNDLE # encode_members [[130, 1], []]) = ([[130, 1], []], True) \<and>
   forEachMessage (MESSAGE_BUNDLE_SIGNED # encode_members [[130, 1], []] @ replicate 32 7) =
     ([[130, 1], []], True)"
proof -
  let ?ms = "[[130, 1], []] :: bytes list"
  have h: "\<forall>m \<in> set ?ms. length m < 2 ^ 16" by simp
  have s: "sealed (\<lambda>k b. Some (replicate 32 7)) [] (MESSAGE_BUNDLE_SIGNED # encode_members ?ms)
     (replicate 32 7)"
    by (simp add: sealed_def encode_member_def)
  show ?thesis
    using h bundle_roundtrip [OF h, of "\<lambda>k b. Some (replicate 32 7)" "[]" "replicate 32 7"] s by simp
qed

text \<open>
  C18. The verifiers accept exactly the tags the token makes. A spatial notification with the
  auth flag set passes if and only if it is long enough for a tag and the 32 bytes before its
  nine-byte tail are the tag of everything before them; a signed bundle passes if and only if
  its last 32 bytes are the tag of everything before them.
\<close>

theorem verification_exact:
  "(is_spatial m \<and> off_CONTAINS_AUTH < length m \<and> m ! off_CONTAINS_AUTH \<noteq> 0 \<longrightarrow>
      (verifyNotification hm m token \<longleftrightarrow>
         HEADER_SIZE + TAIL_WITH_HMAC \<le> length m \<and>
         sealed hm token (take (length m - TAIL_WITH_HMAC) m)
           (slice (length m - TAIL_WITH_HMAC) TAG_SIZE m))) \<and>
   (verifySignedBundle hm data token \<longleftrightarrow>
      TAG_SIZE + 1 < length data \<and> data ! 0 = MESSAGE_BUNDLE_SIGNED \<and>
      sealed hm token (take (length data - TAG_SIZE) data) (drop (length data - TAG_SIZE) data))"
proof (intro conjI impI)
  assume "is_spatial m \<and> off_CONTAINS_AUTH < length m \<and> m ! off_CONTAINS_AUTH \<noteq> 0"
  then have "is_spatial m" "35 < length m" "m ! 35 \<noteq> 0" by (auto simp: wire_consts)
  from verifyNotification_iff [OF this, of hm token]
  show "verifyNotification hm m token \<longleftrightarrow> HEADER_SIZE + TAIL_WITH_HMAC \<le> length m \<and>
      sealed hm token (take (length m - TAIL_WITH_HMAC) m) (slice (length m - TAIL_WITH_HMAC) TAG_SIZE m)"
    by (simp add: wire_consts)
next
  show "verifySignedBundle hm data token \<longleftrightarrow>
      TAG_SIZE + 1 < length data \<and> data ! 0 = MESSAGE_BUNDLE_SIGNED \<and>
      sealed hm token (take (length data - TAG_SIZE) data) (drop (length data - TAG_SIZE) data)"
    using verifySignedBundle_iff [of hm data token] by (simp add: wire_consts)
qed

theorem verification_exact_witness:
  "is_spatial (130 # replicate 34 0 @ 1 # replicate 73 0) \<and>
   \<not> verifyNotification (\<lambda>k b. Some (replicate 32 7)) (130 # replicate 34 0 @ 1 # replicate 73 0)
       (replicate 64 1)"
proof -
  let ?m = "130 # replicate 34 0 @ 1 # replicate 73 0 :: bytes"
  let ?hm = "\<lambda>k b. Some (replicate 32 7) :: bytes option"
  have sp: "is_spatial ?m" by (simp add: is_spatial_def msg_type_def wire_consts)
  have a: "?m ! 35 = 1" by (simp add: nth_append)
  have "slice 68 32 ?m \<noteq> replicate 32 7"
    by (simp add: slice_def)
  then have "\<not> sealed ?hm (replicate 64 1) (take 68 ?m) (slice 68 32 ?m)"
    by (simp add: sealed_def)
  then show ?thesis
    using sp a verification_exact [of ?m ?hm "replicate 64 1" "[]"] by (simp add: wire_consts)
qed

text \<open>
  The profile-less builders are the UE5 profile: on a message buffer the old template
  initialiser and the old per-send patcher produce the same bytes and the same result as the
  per-profile ones at \<open>UE5\<close>.
\<close>

theorem legacy_builders_agree:
  "initActorUpdateTemplate uuid appId gtid distance decay buf =
     initActorUpdateTemplateFmt UE5 uuid appId gtid distance decay buf \<and>
   finalizeActorUpdate hm cx cy cz px py pz rp ry rr vx vy vz sq token buf =
     finalizeActorUpdateFmt hm UE5 cx cy cz
       \<lparr>ap_posX = px, ap_posY = py, ap_posZ = pz, ap_pitch = rp, ap_yaw = ry, ap_roll = rr,
        ap_velX = vx, ap_velY = vy, ap_velZ = vz, ap_grounded = g, ap_updatedAtMs = u\<rparr>
       sq token buf"
  by (simp add: initActorUpdateTemplate_def initActorUpdateTemplateFmt_def finalizeActorUpdate_def
      finalizeActorUpdateFmt_def ACTOR_UPDATE_MAX_SIZE_def ACTOR_UPDATE_TOKEN_ID_OFFSET_def
      ACTOR_UPDATE_HMAC_OFFSET_def ACTOR_UPDATE_SEQ_OFFSET_def Let_def)

text \<open>
  A capabilities datagram announces what it should: app id, flags, game token id and
  sequence number read back at their offsets, the auth flag is set, its tag is valid for the
  token, and the verifier of the protocol accepts it.
\<close>

theorem capabilities_roundtrip:
  assumes "length buf = CAPABILITIES_SIZE"
    and ok: "buildCapabilities hm appId gtid flags sq token buf = (True, m)"
  shows "length m = CAPABILITIES_SIZE \<and> msg_type m = CLIENT_CAPABILITIES \<and>
    readI64 off_APP_ID m = appId \<and> m ! off_CONTAINS_AUTH = 1 \<and>
    from_le (slice HEADER_SIZE 4 m) = flags \<and>
    readI64 (length m - TAIL_NO_HMAC) m = gtid \<and> m ! (length m - 1) = sq \<and>
    sealed hm token (take (length m - TAIL_WITH_HMAC) m)
      (slice (length m - TAIL_WITH_HMAC) TAG_SIZE m) \<and>
    verifyNotification hm m token"
proof -
  have l: "length buf = 113" using assms(1) by (simp add: wire_consts)
  obtain tag where s: "sealed hm token (take 72 (caps_body appId gtid flags sq buf)) tag"
    and m: "m = put 72 tag (caps_body appId gtid flags sq buf)"
    using ok by (auto simp: buildCapabilities_iff)
  note past_tag = slice_put_tag [OF s] nth_put_tag [OF s]
  have b: "sealed hm token (take 72 m) (slice 72 32 m)"
    using caps.build_sealed [where x = "(appId, gtid, flags, sq, buf)"] ok assms(1) by simp
  have v: "verifyNotification hm (take (72 + 41) m) token"
    using caps.datagram_verifies [where x = "(appId, gtid, flags, sq, buf)", OF _ _ refl] ok assms(1)
    by simp
  show ?thesis
    using l b v caps_fields [OF l, of appId gtid flags sq]
    by (simp add: m past_tag msg_type_def readI64_def wire_consts)
qed

theorem capabilities_roundtrip_witness:
  "\<exists>m. buildCapabilities (\<lambda>k b. Some (replicate 32 7)) 42 77 CAP_BUNDLE_SIGNED 3 (replicate 64 1)
        (replicate 113 0) = (True, m) \<and> from_le (slice HEADER_SIZE 4 m) = CAP_BUNDLE_SIGNED"
proof -
  let ?r = "buildCapabilities (\<lambda>k b. Some (replicate 32 7)) 42 77 CAP_BUNDLE_SIGNED 3
     (replicate 64 1) (replicate 113 0)"
  have ok: "?r = (True, snd ?r)"
    by (simp add: buildCapabilities_def spatialSign_def wire_consts Let_def)
  show ?thesis
    using ok capabilities_roundtrip [OF _ ok] by (intro exI [of _ "snd ?r"]) (simp add: wire_consts)
qed

end
