(* ===== verification/Config.thy ===== *)
theory Config
  imports Json
begin

text \<open>
  Configuration (\<^verbatim>\<open>src/Config.hpp\<close>, \<^verbatim>\<open>src/Config.cpp\<close>): the record with its defaults, the
  KEY=VALUE file, the layers of file, environment and command line, the control-port bind
  specification, the derived account emails and the validation of a loaded configuration.

  The environment is a function from names to values. The command line is what cxxopts makes
  of it: per type, a partial function from option names to values. \<open>sd\<close> is the C library's
  \<^verbatim>\<open>std::stod\<close>. Ways of not returning a configuration (exit, uncaught exception) are the values
  of \<open>config_error\<close>.
\<close>

section \<open>The record\<close>

record Config =
  cf_email :: string
  cf_password :: string
  cf_provisioningToken :: string
  cf_managementApiUrl :: string
  cf_gameApiUrl :: string
  cf_appId :: int
  cf_clients :: int
  cf_threads :: int
  cf_updateHz :: int
  cf_walkSpeed :: double
  cf_spawnRadiusChunks :: int
  cf_distance :: int
  cf_poseFormat :: string
  cf_chunkSizeUnits :: double
  cf_volumeChunks :: int
  cf_replayLogging :: string
  cf_sparseRangeChunks :: int
  cf_sparseGroup :: int
  cf_volumeBaseUp :: int
  cf_permWindowRadiusChunks :: int
  cf_permReloadGraceMs :: int
  cf_decay :: int
  cf_instanceId :: string
  cf_indexBase :: int
  cf_indexLimit :: int
  cf_indexWidth :: int
  cf_controlBind :: string
  cf_controlToken :: string
  cf_statsDir :: string
  cf_rampBatchSize :: int
  cf_rampIntervalMs :: int
  cf_rxSilentReassignSec :: int
  cf_provisionConcurrency :: int
  cf_durationSec :: int
  cf_statsIntervalSec :: int
  cf_csvOut :: string
  cf_emailPattern :: string
  cf_rosterFile :: string
  cf_rosterRequired :: bool
  cf_verifyServerHmac :: bool
  cf_socketRcvbufBytes :: int
  cf_clientCaps :: bool
  cf_capsIntervalSec :: int
  cf_tlsInsecure :: bool
  cf_sessionSettleMs :: int
  cf_rxHealthTimeoutSec :: int
  cf_tokenRefreshLeadSec :: int

definition Config_init :: Config where
  "Config_init = \<lparr>
     cf_email = [],
     cf_password = [],
     cf_provisioningToken = [],
     cf_managementApiUrl = [],
     cf_gameApiUrl = [],
     cf_appId = 0,
     cf_clients = 10,
     cf_threads = 1,
     cf_updateHz = 10,
     cf_walkSpeed = -1,
     cf_spawnRadiusChunks = 8,
     cf_distance = 8,
     cf_poseFormat = ''ue5'',
     cf_chunkSizeUnits = -1,
     cf_volumeChunks = 0,
     cf_replayLogging = ''leave'',
     cf_sparseRangeChunks = 0,
     cf_sparseGroup = 1,
     cf_volumeBaseUp = 0,
     cf_permWindowRadiusChunks = 8,
     cf_permReloadGraceMs = 5000,
     cf_decay = 1,
     cf_instanceId = [],
     cf_indexBase = 0,
     cf_indexLimit = -1,
     cf_indexWidth = 4,
     cf_controlBind = ''127.0.0.1:9109'',
     cf_controlToken = [],
     cf_statsDir = [],
     cf_rampBatchSize = 10,
     cf_rampIntervalMs = 1000,
     cf_rxSilentReassignSec = 0,
     cf_provisionConcurrency = 4,
     cf_durationSec = 0,
     cf_statsIntervalSec = 5,
     cf_csvOut = [],
     cf_emailPattern = ''{local}+lt-{index}@'' @ ''{domain}'',
     cf_rosterFile = [],
     cf_rosterRequired = False,
     cf_verifyServerHmac = False,
     cf_socketRcvbufBytes = 0,
     cf_clientCaps = True,
     cf_capsIntervalSec = 15,
     cf_tlsInsecure = False,
     cf_sessionSettleMs = 1500,
     cf_rxHealthTimeoutSec = 10,
     cf_tokenRefreshLeadSec = 120\<rparr>"

datatype config_error =
    CannotOpenFile
  | InvalidArgument
  | OutOfRange
  | CommandLineError
  | HelpShown
  | Invalid string

section \<open>Numbers and strings\<close>

definition is_blank :: "char \<Rightarrow> bool" where
  "is_blank c \<longleftrightarrow> c \<in> {CHR '' '', CHR 0x09, CHR 0x0D, CHR 0x0A}"

definition trim :: "string \<Rightarrow> string" where
  "trim s = rev (dropWhile is_blank (rev (dropWhile is_blank s)))"

text \<open>
  \<^verbatim>\<open>std::stoi\<close> and \<^verbatim>\<open>std::stoll\<close>: white space, a sign, the longest run of digits; what follows
  is ignored.
\<close>

definition is_digit :: "char \<Rightarrow> bool" where
  "is_digit c \<longleftrightarrow> 48 \<le> (of_char c :: nat) \<and> (of_char c :: nat) \<le> 57"

definition is_space :: "char \<Rightarrow> bool" where
  "is_space c \<longleftrightarrow> c = CHR '' '' \<or> 9 \<le> (of_char c :: nat) \<and> (of_char c :: nat) \<le> 13"

definition parse_integer :: "nat \<Rightarrow> string \<Rightarrow> config_error + int" where
  "parse_integer bits s =
     (let t = dropWhile is_space s;
          neg = (t \<noteq> [] \<and> hd t = CHR ''-'');
          u = (if t \<noteq> [] \<and> (hd t = CHR ''-'' \<or> hd t = CHR ''+'') then tl t else t);
          ds = takeWhile is_digit u;
          n = (if neg then - int (undec ds) else int (undec ds))
      in if ds = [] then Inl InvalidArgument
         else if n < - (2 ^ (bits - 1)) \<or> n \<ge> 2 ^ (bits - 1) then Inl OutOfRange
         else Inr n)"

definition stoi :: "string \<Rightarrow> config_error + int" where
  "stoi = parse_integer 32"

definition stoll :: "string \<Rightarrow> config_error + int" where
  "stoll = parse_integer 64"

section \<open>The configuration file\<close>

fun split_lines :: "string \<Rightarrow> string list" where
  "split_lines [] = [[]]"
| "split_lines (c # s) =
     (if c = CHR 0x0A then [] # split_lines s
      else (case split_lines s of [] \<Rightarrow> [[c]] | l # ls \<Rightarrow> (c # l) # ls))"

definition unquote :: "string \<Rightarrow> string" where
  "unquote val =
     (if length val \<ge> 2 \<and>
         (hd val = CHR 0x22 \<and> last val = CHR 0x22 \<or> hd val = CHR 0x27 \<and> last val = CHR 0x27)
      then butlast (tl val) else val)"

definition kv_line :: "string \<Rightarrow> (string \<times> string) option" where
  "kv_line line =
     (let t = trim line in
      if t = [] \<or> hd t = CHR ''#'' then None
      else if CHR ''='' \<notin> set t then None
      else Some (trim (takeWhile (\<lambda>c. c \<noteq> CHR ''='') t),
                 unquote (trim (tl (dropWhile (\<lambda>c. c \<noteq> CHR ''='') t)))))"

text \<open>\<open>contents\<close> is \<open>None\<close> when the file cannot be opened.\<close>

definition parseKvFile :: "string option \<Rightarrow> config_error + (string \<rightharpoonup> string)" where
  "parseKvFile contents =
     (case contents of
        None \<Rightarrow> Inl CannotOpenFile
      | Some text \<Rightarrow>
          Inr (fold (\<lambda>line kv. case kv_line line of None \<Rightarrow> kv | Some (k, v) \<Rightarrow> kv(k \<mapsto> v))
                 (split_lines text) Map.empty))"

section \<open>Layers\<close>

record Layers =
  ly_env :: "string \<rightharpoonup> string"
  ly_file :: "string \<rightharpoonup> string"

definition lget :: "Layers \<Rightarrow> string \<Rightarrow> string \<Rightarrow> string" where
  "lget l name fallback =
     (case ly_env l name of
        Some v \<Rightarrow> v
      | None \<Rightarrow> (case ly_file l name of Some v \<Rightarrow> v | None \<Rightarrow> fallback))"

definition lgetInt :: "Layers \<Rightarrow> string \<Rightarrow> int \<Rightarrow> config_error + int" where
  "lgetInt l name fallback = (let v = lget l name [] in if v = [] then Inr fallback else stoi v)"

definition lgetI64 :: "Layers \<Rightarrow> string \<Rightarrow> int \<Rightarrow> config_error + int" where
  "lgetI64 l name fallback = (let v = lget l name [] in if v = [] then Inr fallback else stoll v)"

definition lgetDouble ::
  "(string \<Rightarrow> config_error + double) \<Rightarrow> Layers \<Rightarrow> string \<Rightarrow> double \<Rightarrow> config_error + double" where
  "lgetDouble sd l name fallback = (let v = lget l name [] in if v = [] then Inr fallback else sd v)"

definition lgetBool :: "Layers \<Rightarrow> string \<Rightarrow> bool \<Rightarrow> bool" where
  "lgetBool l name fallback =
     (let v = lget l name [] in
      if v = [] then fallback
      else v = ''1'' \<or> v = ''true'' \<or> v = ''yes'' \<or> v = ''on'')"

text \<open>
  One assignment of \<^verbatim>\<open>Config::load\<close>: read the field's layer with the field's current value as
  fallback and store the result.
\<close>

definition layer_str ::
  "Layers \<Rightarrow> string \<Rightarrow> (Config \<Rightarrow> string) \<Rightarrow> ((string \<Rightarrow> string) \<Rightarrow> Config \<Rightarrow> Config) \<Rightarrow> Config \<Rightarrow> config_error + Config" where
  "layer_str l name sel upd c = Inr (upd (\<lambda>_. lget l name (sel c)) c)"

definition layer_int ::
  "Layers \<Rightarrow> string \<Rightarrow> (Config \<Rightarrow> int) \<Rightarrow> ((int \<Rightarrow> int) \<Rightarrow> Config \<Rightarrow> Config) \<Rightarrow> Config \<Rightarrow> config_error + Config" where
  "layer_int l name sel upd c = ebind (lgetInt l name (sel c)) (\<lambda>v. Inr (upd (\<lambda>_. v) c))"

definition layer_i64 ::
  "Layers \<Rightarrow> string \<Rightarrow> (Config \<Rightarrow> int) \<Rightarrow> ((int \<Rightarrow> int) \<Rightarrow> Config \<Rightarrow> Config) \<Rightarrow> Config \<Rightarrow> config_error + Config" where
  "layer_i64 l name sel upd c = ebind (lgetI64 l name (sel c)) (\<lambda>v. Inr (upd (\<lambda>_. v) c))"

definition layer_double ::
  "(string \<Rightarrow> config_error + double) \<Rightarrow> Layers \<Rightarrow> string \<Rightarrow> (Config \<Rightarrow> double) \<Rightarrow>
     ((double \<Rightarrow> double) \<Rightarrow> Config \<Rightarrow> Config) \<Rightarrow> Config \<Rightarrow> config_error + Config" where
  "layer_double sd l name sel upd c =
     ebind (lgetDouble sd l name (sel c)) (\<lambda>v. Inr (upd (\<lambda>_. v) c))"

definition layer_bool ::
  "Layers \<Rightarrow> string \<Rightarrow> (Config \<Rightarrow> bool) \<Rightarrow> ((bool \<Rightarrow> bool) \<Rightarrow> Config \<Rightarrow> Config) \<Rightarrow> Config \<Rightarrow> config_error + Config" where
  "layer_bool l name sel upd c = Inr (upd (\<lambda>_. lgetBool l name (sel c)) c)"

text \<open>The layered assignments, in the order of the source.\<close>

definition layer_steps :: "(string \<Rightarrow> config_error + double) \<Rightarrow> Layers \<Rightarrow> (Config \<Rightarrow> config_error + Config) list" where
  "layer_steps sd l =
     [layer_str l ''LT_EMAIL'' cf_email cf_email_update,
      layer_str l ''LT_PASSWORD'' cf_password cf_password_update,
      layer_str l ''LT_PROVISIONING_TOKEN'' cf_provisioningToken cf_provisioningToken_update,
      layer_str l ''LT_MANAGEMENT_API_URL'' cf_managementApiUrl cf_managementApiUrl_update,
      layer_str l ''LT_GAME_API_URL'' cf_gameApiUrl cf_gameApiUrl_update,
      layer_i64 l ''LT_APP_ID'' cf_appId cf_appId_update,
      layer_int l ''LT_CLIENTS'' cf_clients cf_clients_update,
      layer_int l ''LT_THREADS'' cf_threads cf_threads_update,
      layer_int l ''LT_UPDATE_HZ'' cf_updateHz cf_updateHz_update,
      layer_double sd l ''LT_WALK_SPEED'' cf_walkSpeed cf_walkSpeed_update,
      layer_int l ''LT_SPAWN_RADIUS_CHUNKS'' cf_spawnRadiusChunks cf_spawnRadiusChunks_update,
      layer_int l ''LT_DISTANCE'' cf_distance cf_distance_update,
      layer_str l ''LT_POSE_FORMAT'' cf_poseFormat cf_poseFormat_update,
      layer_double sd l ''LT_CHUNK_SIZE_UNITS'' cf_chunkSizeUnits cf_chunkSizeUnits_update,
      layer_int l ''LT_VOLUME_CHUNKS'' cf_volumeChunks cf_volumeChunks_update,
      layer_str l ''LT_REPLAY_LOGGING'' cf_replayLogging cf_replayLogging_update,
      layer_int l ''LT_SPARSE_RANGE_CHUNKS'' cf_sparseRangeChunks cf_sparseRangeChunks_update,
      layer_int l ''LT_SPARSE_GROUP'' cf_sparseGroup cf_sparseGroup_update,
      layer_int l ''LT_VOLUME_BASE_UP'' cf_volumeBaseUp cf_volumeBaseUp_update,
      layer_int l ''LT_PERMISSION_WINDOW_RADIUS_CHUNKS'' cf_permWindowRadiusChunks cf_permWindowRadiusChunks_update,
      layer_int l ''LT_PERMISSION_RELOAD_GRACE_MS'' cf_permReloadGraceMs cf_permReloadGraceMs_update,
      layer_int l ''LT_DECAY'' cf_decay cf_decay_update,
      layer_str l ''LT_INSTANCE_ID'' cf_instanceId cf_instanceId_update,
      layer_int l ''LT_INDEX_BASE'' cf_indexBase cf_indexBase_update,
      layer_int l ''LT_INDEX_LIMIT'' cf_indexLimit cf_indexLimit_update,
      layer_int l ''LT_INDEX_WIDTH'' cf_indexWidth cf_indexWidth_update,
      layer_str l ''LT_CONTROL_BIND'' cf_controlBind cf_controlBind_update,
      layer_str l ''LT_CONTROL_TOKEN'' cf_controlToken cf_controlToken_update,
      layer_str l ''LT_STATS_DIR'' cf_statsDir cf_statsDir_update,
      layer_int l ''LT_RAMP_BATCH_SIZE'' cf_rampBatchSize cf_rampBatchSize_update,
      layer_int l ''LT_RAMP_INTERVAL_MS'' cf_rampIntervalMs cf_rampIntervalMs_update,
      layer_int l ''LT_RX_SILENT_REASSIGN_SEC'' cf_rxSilentReassignSec cf_rxSilentReassignSec_update,
      layer_int l ''LT_PROVISION_CONCURRENCY'' cf_provisionConcurrency cf_provisionConcurrency_update,
      layer_int l ''LT_DURATION_SEC'' cf_durationSec cf_durationSec_update,
      layer_int l ''LT_STATS_INTERVAL_SEC'' cf_statsIntervalSec cf_statsIntervalSec_update,
      layer_str l ''LT_CSV_OUT'' cf_csvOut cf_csvOut_update,
      layer_str l ''LT_EMAIL_PATTERN'' cf_emailPattern cf_emailPattern_update,
      layer_str l ''LT_ROSTER_FILE'' cf_rosterFile cf_rosterFile_update,
      layer_bool l ''LT_ROSTER_REQUIRED'' cf_rosterRequired cf_rosterRequired_update,
      layer_bool l ''LT_VERIFY_SERVER_HMAC'' cf_verifyServerHmac cf_verifyServerHmac_update,
      layer_int l ''LT_SOCKET_RCVBUF_BYTES'' cf_socketRcvbufBytes cf_socketRcvbufBytes_update,
      layer_bool l ''LT_CLIENT_CAPS'' cf_clientCaps cf_clientCaps_update,
      layer_int l ''LT_CAPS_INTERVAL_SEC'' cf_capsIntervalSec cf_capsIntervalSec_update,
      layer_bool l ''LT_TLS_INSECURE'' cf_tlsInsecure cf_tlsInsecure_update,
      layer_int l ''LT_SESSION_SETTLE_MS'' cf_sessionSettleMs cf_sessionSettleMs_update,
      layer_int l ''LT_RX_HEALTH_TIMEOUT_SEC'' cf_rxHealthTimeoutSec cf_rxHealthTimeoutSec_update,
      layer_int l ''LT_TOKEN_REFRESH_LEAD_SEC'' cf_tokenRefreshLeadSec cf_tokenRefreshLeadSec_update]"

section \<open>The command line\<close>

record Cli =
  cl_help :: bool
  cl_config :: "string option option"
  cl_str :: "string \<rightharpoonup> string"
  cl_int :: "string \<rightharpoonup> int"
  cl_bool :: "string \<rightharpoonup> bool"
  cl_double :: "string \<rightharpoonup> double"

definition cli_str ::
  "Cli \<Rightarrow> string \<Rightarrow> ((string \<Rightarrow> string) \<Rightarrow> Config \<Rightarrow> Config) \<Rightarrow> Config \<Rightarrow> Config" where
  "cli_str cli name upd c = (case cl_str cli name of Some v \<Rightarrow> upd (\<lambda>_. v) c | None \<Rightarrow> c)"

definition cli_int ::
  "Cli \<Rightarrow> string \<Rightarrow> ((int \<Rightarrow> int) \<Rightarrow> Config \<Rightarrow> Config) \<Rightarrow> Config \<Rightarrow> Config" where
  "cli_int cli name upd c = (case cl_int cli name of Some v \<Rightarrow> upd (\<lambda>_. v) c | None \<Rightarrow> c)"

definition cli_bool ::
  "Cli \<Rightarrow> string \<Rightarrow> ((bool \<Rightarrow> bool) \<Rightarrow> Config \<Rightarrow> Config) \<Rightarrow> Config \<Rightarrow> Config" where
  "cli_bool cli name upd c = (case cl_bool cli name of Some v \<Rightarrow> upd (\<lambda>_. v) c | None \<Rightarrow> c)"

definition cli_double ::
  "Cli \<Rightarrow> string \<Rightarrow> ((double \<Rightarrow> double) \<Rightarrow> Config \<Rightarrow> Config) \<Rightarrow> Config \<Rightarrow> Config" where
  "cli_double cli name upd c = (case cl_double cli name of Some v \<Rightarrow> upd (\<lambda>_. v) c | None \<Rightarrow> c)"

definition cli_steps :: "Cli \<Rightarrow> (Config \<Rightarrow> Config) list" where
  "cli_steps cli =
     [cli_str cli ''email'' cf_email_update,
      cli_str cli ''password'' cf_password_update,
      cli_str cli ''management-api-url'' cf_managementApiUrl_update,
      cli_str cli ''game-api-url'' cf_gameApiUrl_update,
      cli_int cli ''app-id'' cf_appId_update,
      cli_int cli ''clients'' cf_clients_update,
      cli_int cli ''threads'' cf_threads_update,
      cli_int cli ''update-hz'' cf_updateHz_update,
      cli_double cli ''walk-speed'' cf_walkSpeed_update,
      cli_int cli ''spawn-radius-chunks'' cf_spawnRadiusChunks_update,
      cli_int cli ''distance'' cf_distance_update,
      cli_str cli ''pose-format'' cf_poseFormat_update,
      cli_double cli ''chunk-size-units'' cf_chunkSizeUnits_update,
      cli_int cli ''volume-chunks'' cf_volumeChunks_update,
      cli_str cli ''replay-logging'' cf_replayLogging_update,
      cli_int cli ''sparse-range-chunks'' cf_sparseRangeChunks_update,
      cli_int cli ''sparse-group'' cf_sparseGroup_update,
      cli_int cli ''volume-base-up'' cf_volumeBaseUp_update,
      cli_int cli ''permission-window-radius-chunks'' cf_permWindowRadiusChunks_update,
      cli_int cli ''decay'' cf_decay_update,
      cli_str cli ''instance-id'' cf_instanceId_update,
      cli_int cli ''index-base'' cf_indexBase_update,
      cli_int cli ''index-limit'' cf_indexLimit_update,
      cli_int cli ''index-width'' cf_indexWidth_update,
      cli_str cli ''control-bind'' cf_controlBind_update,
      cli_str cli ''control-token'' cf_controlToken_update,
      cli_str cli ''stats-dir'' cf_statsDir_update,
      cli_int cli ''ramp-batch-size'' cf_rampBatchSize_update,
      cli_int cli ''ramp-interval-ms'' cf_rampIntervalMs_update,
      cli_int cli ''rx-silent-reassign-sec'' cf_rxSilentReassignSec_update,
      cli_int cli ''provision-concurrency'' cf_provisionConcurrency_update,
      cli_int cli ''duration-sec'' cf_durationSec_update,
      cli_int cli ''stats-interval-sec'' cf_statsIntervalSec_update,
      cli_str cli ''csv-out'' cf_csvOut_update,
      cli_str cli ''email-pattern'' cf_emailPattern_update,
      cli_str cli ''roster'' cf_rosterFile_update,
      cli_bool cli ''roster-required'' cf_rosterRequired_update,
      cli_bool cli ''verify-server-hmac'' cf_verifyServerHmac_update,
      cli_int cli ''socket-rcvbuf-bytes'' cf_socketRcvbufBytes_update,
      cli_bool cli ''client-caps'' cf_clientCaps_update,
      cli_bool cli ''tls-insecure'' cf_tlsInsecure_update,
      cli_int cli ''session-settle-ms'' cf_sessionSettleMs_update,
      cli_int cli ''rx-health-timeout-sec'' cf_rxHealthTimeoutSec_update,
      cli_int cli ''token-refresh-lead-sec'' cf_tokenRefreshLeadSec_update]"

text \<open>The options cxxopts is told about, and the options \<^verbatim>\<open>Config::load\<close> asks it for.\<close>

definition declared_options :: "string list" where
  "declared_options =
     [''config'', ''email'', ''password'', ''management-api-url'', ''game-api-url'', ''app-id'',
      ''clients'', ''threads'', ''update-hz'', ''walk-speed'', ''spawn-radius-chunks'',
      ''socket-rcvbuf-bytes'', ''sparse-range-chunks'', ''sparse-group'', ''distance'',
      ''pose-format'', ''chunk-size-units'', ''replay-logging'', ''volume-chunks'',
      ''volume-base-up'', ''permission-window-radius-chunks'', ''decay'', ''instance-id'',
      ''index-base'', ''index-limit'', ''index-width'', ''control-bind'', ''control-token'',
      ''stats-dir'', ''ramp-batch-size'', ''ramp-interval-ms'', ''provision-concurrency'',
      ''duration-sec'', ''stats-interval-sec'', ''csv-out'', ''email-pattern'', ''roster'',
      ''roster-required'', ''verify-server-hmac'', ''tls-insecure'', ''session-settle-ms'',
      ''rx-health-timeout-sec'', ''token-refresh-lead-sec'', ''h'', ''help'']"

definition consulted_options :: "string list" where
  "consulted_options =
     [''help'', ''config'', ''email'', ''password'', ''management-api-url'', ''game-api-url'',
      ''app-id'', ''clients'', ''threads'', ''update-hz'', ''walk-speed'', ''spawn-radius-chunks'',
      ''distance'', ''pose-format'', ''chunk-size-units'', ''volume-chunks'', ''replay-logging'',
      ''sparse-range-chunks'', ''sparse-group'', ''volume-base-up'',
      ''permission-window-radius-chunks'', ''decay'', ''instance-id'', ''index-base'',
      ''index-limit'', ''index-width'', ''control-bind'', ''control-token'', ''stats-dir'',
      ''ramp-batch-size'', ''ramp-interval-ms'', ''rx-silent-reassign-sec'',
      ''provision-concurrency'', ''duration-sec'', ''stats-interval-sec'', ''csv-out'',
      ''email-pattern'', ''roster'', ''roster-required'', ''verify-server-hmac'',
      ''socket-rcvbuf-bytes'', ''client-caps'', ''tls-insecure'', ''session-settle-ms'',
      ''rx-health-timeout-sec'', ''token-refresh-lead-sec'']"

section \<open>The control-port bind\<close>

record ControlBind =
  cb_host :: string
  cb_port :: int
  cb_loopback :: bool
  cb_wildcard :: bool
  cb_disabled :: bool

definition ControlBind_init :: ControlBind where
  "ControlBind_init = \<lparr>cb_host = ''127.0.0.1'', cb_port = 9109, cb_loopback = True,
     cb_wildcard = False, cb_disabled = False\<rparr>"

definition bind_flags :: "ControlBind \<Rightarrow> ControlBind" where
  "bind_flags b =
     (let b = (if cb_host b = [] then b\<lparr>cb_host := ''0.0.0.0''\<rparr> else b);
          host = cb_host b
      in b\<lparr>cb_wildcard := host = ''0.0.0.0'' \<or> host = ''*'' \<or> host = ''::'',
           cb_loopback := host = ''127.0.0.1'' \<or> host = ''::1'' \<or> host = ''localhost''\<rparr>)"

definition parseControlBind :: "string \<Rightarrow> config_error + ControlBind" where
  "parseControlBind spec =
     (let b = ControlBind_init; s = trim spec in
      if s = [] \<or> s = ''off'' \<or> s = ''none'' \<or> s = ''disabled'' then Inr (b\<lparr>cb_disabled := True\<rparr>)
      else if hd s = CHR ''['' then
        if CHR '']'' \<notin> set s then Inr (b\<lparr>cb_host := s\<rparr>)
        else let b = b\<lparr>cb_host := tl (takeWhile (\<lambda>c. c \<noteq> CHR '']'') s)\<rparr>;
                 rest = tl (dropWhile (\<lambda>c. c \<noteq> CHR '']'') s)
             in if rest \<noteq> [] \<and> hd rest = CHR '':''
                then ebind (stoi (tl rest)) (\<lambda>p. Inr (bind_flags (b\<lparr>cb_port := p\<rparr>)))
                else Inr (bind_flags b)
      else if CHR '':'' \<notin> set s then Inr (bind_flags (b\<lparr>cb_host := s\<rparr>))
      else let port = rev (takeWhile (\<lambda>c. c \<noteq> CHR '':'') (rev s));
               b = b\<lparr>cb_host := rev (tl (dropWhile (\<lambda>c. c \<noteq> CHR '':'') (rev s)))\<rparr>
           in ebind (stoi port) (\<lambda>p. Inr (bind_flags (b\<lparr>cb_port := p\<rparr>))))"

section \<open>Derived values\<close>

definition isSparse :: "Config \<Rightarrow> bool" where
  "isSparse c \<longleftrightarrow> cf_sparseRangeChunks c > 0"

definition needsPassword :: "Config \<Rightarrow> bool" where
  "needsPassword c \<longleftrightarrow> cf_rosterFile c = [] \<or> \<not> cf_rosterRequired c"

definition isBwf :: "Config \<Rightarrow> bool" where
  "isBwf c \<longleftrightarrow> cf_poseFormat c = ''bwf''"

definition effectiveChunkSize :: "Config \<Rightarrow> double" where
  "effectiveChunkSize c =
     (if cf_chunkSizeUnits c > 0 then cf_chunkSizeUnits c else if isBwf c then 16 else 1600)"

definition effectiveWalkSpeed :: "Config \<Rightarrow> double" where
  "effectiveWalkSpeed c =
     (if cf_walkSpeed c > 0 then cf_walkSpeed c else if isBwf c then 4 else 150)"

text \<open>
  \<^verbatim>\<open>snprintf(buf, 32, "%0*d", width, i)\<close>: zeros after the sign up to the width, blanks after the
  number for a negative width, at most 31 characters.
\<close>

definition formatIndex :: "Config \<Rightarrow> int \<Rightarrow> string" where
  "formatIndex c globalIndex =
     (let w = cf_indexWidth c;
          sign = (if globalIndex < 0 then ''-'' else []);
          ds = dec (nat \<bar>globalIndex\<bar>);
          n = length (sign @ ds)
      in take 31 (if w < 0 then sign @ ds @ replicate (nat \<bar>w\<bar> - n) (CHR '' '')
                  else sign @ replicate (nat w - n) (CHR ''0'') @ ds))"

fun replaceAll :: "string \<Rightarrow> string \<Rightarrow> string \<Rightarrow> string" where
  "replaceAll pat to [] = []"
| "replaceAll pat to (c # s) =
     (if pat \<noteq> [] \<and> take (length pat) (c # s) = pat
      then to @ replaceAll pat to (drop (length pat) (c # s))
      else c # replaceAll pat to s)"

definition derivedEmail :: "Config \<Rightarrow> int \<Rightarrow> string" where
  "derivedEmail c globalIndex =
     (let email = cf_email c;
          has_at = CHR ''@'' \<in> set email;
          local = (if has_at then takeWhile (\<lambda>c. c \<noteq> CHR ''@'') email else email);
          domain = (if has_at then tl (dropWhile (\<lambda>c. c \<noteq> CHR ''@'') email) else []);
          idx = formatIndex c globalIndex;
          out = cf_emailPattern c;
          out = replaceAll ''{local}'' local out;
          out = replaceAll ''{domain}'' domain out
      in replaceAll ''{index}'' idx out)"

section \<open>Validation\<close>

definition validate_bind :: "Config \<Rightarrow> ControlBind \<Rightarrow> string" where
  "validate_bind c bind =
     (if \<not> cb_disabled bind \<and> (cb_port bind < 1 \<or> cb_port bind > 65535) then
        ''LT_CONTROL_BIND port out of range''
      else if \<not> cb_disabled bind \<and> \<not> cb_loopback bind \<and> cf_controlToken c = [] then
        ''LT_CONTROL_TOKEN is required when LT_CONTROL_BIND is not loopback '' @
        ''(a fleet bind without a token would accept unauthenticated adds)''
      else if cf_clients c = 0 \<and> cb_disabled bind then
        ''LT_CLIENTS is 0 and the control port is off: nothing would run. '' @
        ''Set LT_CLIENTS > 0 or enable LT_CONTROL_BIND so an agent can add clients''
      else [])"

definition validate_password :: "Config \<Rightarrow> string" where
  "validate_password c =
     (if needsPassword c then
        if cf_password c = [] then
          if cf_rosterFile c = [] then ''missing LT_PASSWORD / --password''
          else ''missing LT_PASSWORD / --password: the roster may not '' @
               ''cover every client and the rest must sign in. Set '' @
               ''LT_ROSTER_REQUIRED=1 to refuse a short roster instead.''
        else if length (cf_password c) < 8 then
          ''LT_PASSWORD must be at least 8 characters (API minimum)''
        else []
      else [])"

text \<open>The range checks between the password and the bind, with their messages, in order.\<close>

definition validate_ranges :: "Config \<Rightarrow> (bool \<times> string) list" where
  "validate_ranges c =
     [(cf_managementApiUrl c = [], ''missing LT_MANAGEMENT_API_URL / --management-api-url''),
      (cf_appId c \<le> 0, ''missing/invalid LT_APP_ID / --app-id''),
      (cf_clients c < 0, ''LT_CLIENTS must be >= 0''),
      (cf_threads c < 1, ''LT_THREADS must be >= 1''),
      (cf_updateHz c < 1 \<or> cf_updateHz c > 1000, ''LT_UPDATE_HZ must be in [1, 1000]''),
      (cf_distance c < 0 \<or> cf_distance c > 255, ''LT_DISTANCE must be in [0, 255]''),
      (cf_poseFormat c \<noteq> ''ue5'' \<and> cf_poseFormat c \<noteq> ''bwf'', ''LT_POSE_FORMAT must be 'ue5' or 'bwf'' @ [CHR 0x27]),
      (cf_volumeChunks c < 0 \<or> cf_volumeChunks c > 64, ''LT_VOLUME_CHUNKS must be in [0, 64]''),
      (cf_replayLogging c \<noteq> ''on'' \<and> cf_replayLogging c \<noteq> ''off'' \<and> cf_replayLogging c \<noteq> ''leave'',
       ''LT_REPLAY_LOGGING must be 'on', 'off' or 'leave'' @ [CHR 0x27]),
      (cf_sparseRangeChunks c < 0 \<or> cf_sparseRangeChunks c > 1000000000,
       ''LT_SPARSE_RANGE_CHUNKS must be in [0, 1e9]''),
      (cf_sparseRangeChunks c > 0 \<and> cf_volumeChunks c > 0,
       ''LT_SPARSE_RANGE_CHUNKS and LT_VOLUME_CHUNKS are exclusive population shapes''),
      (cf_sparseGroup c < 1, ''LT_SPARSE_GROUP must be >= 1''),
      (cf_spawnRadiusChunks c < 0, ''LT_SPAWN_RADIUS_CHUNKS must be >= 0''),
      (cf_permWindowRadiusChunks c < 0, ''LT_PERMISSION_WINDOW_RADIUS_CHUNKS must be >= 0''),
      (cf_permReloadGraceMs c < 0, ''LT_PERMISSION_RELOAD_GRACE_MS must be >= 0''),
      (cf_decay c < 0 \<or> cf_decay c > 5, ''LT_DECAY must be in [0, 5]''),
      (cf_provisionConcurrency c < 1, ''LT_PROVISION_CONCURRENCY must be >= 1''),
      (cf_rampBatchSize c < 1, ''LT_RAMP_BATCH_SIZE must be >= 1''),
      (cf_rxSilentReassignSec c < 0, ''LT_RX_SILENT_REASSIGN_SEC must be >= 0''),
      (cf_socketRcvbufBytes c < 0, ''LT_SOCKET_RCVBUF_BYTES must be >= 0''),
      (cf_indexBase c < 0, ''LT_INDEX_BASE must be >= 0''),
      (cf_indexWidth c < 1 \<or> cf_indexWidth c > 16, ''LT_INDEX_WIDTH must be in [1, 16]''),
      (cf_indexLimit c < 0, ''LT_INDEX_LIMIT must be >= 0''),
      (cf_indexLimit c < cf_clients c, ''LT_INDEX_LIMIT must be >= LT_CLIENTS'')]"

text \<open>The message of the first check that fails, the empty string when none does.\<close>

fun first_failure :: "(bool \<times> string) list \<Rightarrow> string" where
  "first_failure [] = []"
| "first_failure ((bad, msg) # checks) = (if bad then msg else first_failure checks)"

definition validate :: "Config \<Rightarrow> config_error + string" where
  "validate c =
     (if cf_email c = [] then Inr ''missing LT_EMAIL / --email''
      else if CHR ''@'' \<notin> set (cf_email c) then Inr ''LT_EMAIL must be a full email address''
      else if validate_password c \<noteq> [] then Inr (validate_password c)
      else if first_failure (validate_ranges c) \<noteq> [] then Inr (first_failure (validate_ranges c))
      else ebind (parseControlBind (cf_controlBind c)) (\<lambda>bind. Inr (validate_bind c bind)))"

section \<open>Loading\<close>

text \<open>
  \<open>cli\<close> is \<open>None\<close> when cxxopts refuses the command line. \<open>cl_config\<close> is \<open>None\<close> without
  \<^verbatim>\<open>--config\<close>, else the contents of the named file. \<open>hostname\<close> is what \<^verbatim>\<open>gethostname\<close> gives.
\<close>

definition defaultInstanceId :: "string option \<Rightarrow> string" where
  "defaultInstanceId hostname = (case hostname of None \<Rightarrow> ''cks-loadtest'' | Some h \<Rightarrow> take 255 h)"

definition load_defaults :: "string option \<Rightarrow> Config \<Rightarrow> Config" where
  "load_defaults hostname c =
     (let c = (if cf_instanceId c = [] then c\<lparr>cf_instanceId := defaultInstanceId hostname\<rparr> else c);
          c = (if cf_indexLimit c < 0 then c\<lparr>cf_indexLimit := cf_clients c\<rparr> else c)
      in if cf_clients c > 0 \<and> cf_threads c > cf_clients c then c\<lparr>cf_threads := cf_clients c\<rparr> else c)"

definition load ::
  "(string \<Rightarrow> config_error + double) \<Rightarrow> (string \<rightharpoonup> string) \<Rightarrow> string option \<Rightarrow> Cli option \<Rightarrow> config_error + Config" where
  "load sd env hostname parsed =
     (case parsed of
        None \<Rightarrow> Inl CommandLineError
      | Some cli \<Rightarrow>
          if cl_help cli then Inl HelpShown
          else ebind (case cl_config cli of None \<Rightarrow> Inr Map.empty | Some contents \<Rightarrow> parseKvFile contents) (\<lambda>kv.
               ebind (foldl ebind (Inr Config_init) (layer_steps sd \<lparr>ly_env = env, ly_file = kv\<rparr>)) (\<lambda>c.
               let c = load_defaults hostname (fold (\<lambda>step c. step c) (cli_steps cli) c)
               in ebind (validate c) (\<lambda>err. if err \<noteq> [] then Inl (Invalid err) else Inr c))))"

section \<open>Validation\<close>

lemma first_failure_empty:
  "list_all (\<lambda>ck. snd ck \<noteq> []) checks \<Longrightarrow> first_failure checks = [] \<longleftrightarrow> list_all (\<lambda>ck. \<not> fst ck) checks"
  by (induction checks rule: first_failure.induct) auto

lemma validate_password_empty:
  "validate_password c = [] \<longleftrightarrow> (needsPassword c \<longrightarrow> length (cf_password c) \<ge> 8)"
  by (auto simp: validate_password_def)

lemma validate_bind_empty:
  "validate_bind c b = [] \<longleftrightarrow>
     (cb_disabled b \<longrightarrow> cf_clients c \<noteq> 0) \<and>
     (\<not> cb_disabled b \<longrightarrow> 1 \<le> cb_port b \<and> cb_port b \<le> 65535 \<and> (cb_loopback b \<or> cf_controlToken c \<noteq> []))"
  by (auto simp: validate_bind_def)

lemma validate_ranges_empty:
  "first_failure (validate_ranges c) = [] \<longleftrightarrow>
     cf_managementApiUrl c \<noteq> [] \<and> cf_appId c > 0 \<and> cf_clients c \<ge> 0 \<and> cf_threads c \<ge> 1 \<and>
     1 \<le> cf_updateHz c \<and> cf_updateHz c \<le> 1000 \<and> 0 \<le> cf_distance c \<and> cf_distance c \<le> 255 \<and>
     (cf_poseFormat c = ''ue5'' \<or> cf_poseFormat c = ''bwf'') \<and> 0 \<le> cf_volumeChunks c \<and> cf_volumeChunks c \<le> 64 \<and>
     (cf_replayLogging c = ''on'' \<or> cf_replayLogging c = ''off'' \<or> cf_replayLogging c = ''leave'') \<and>
     0 \<le> cf_sparseRangeChunks c \<and> cf_sparseRangeChunks c \<le> 1000000000 \<and>
     (cf_sparseRangeChunks c \<le> 0 \<or> cf_volumeChunks c \<le> 0) \<and> cf_sparseGroup c \<ge> 1 \<and>
     cf_spawnRadiusChunks c \<ge> 0 \<and> cf_permWindowRadiusChunks c \<ge> 0 \<and> cf_permReloadGraceMs c \<ge> 0 \<and>
     0 \<le> cf_decay c \<and> cf_decay c \<le> 5 \<and> cf_provisionConcurrency c \<ge> 1 \<and> cf_rampBatchSize c \<ge> 1 \<and>
     cf_rxSilentReassignSec c \<ge> 0 \<and> cf_socketRcvbufBytes c \<ge> 0 \<and> cf_indexBase c \<ge> 0 \<and>
     1 \<le> cf_indexWidth c \<and> cf_indexWidth c \<le> 16 \<and> cf_indexLimit c \<ge> 0 \<and> cf_clients c \<le> cf_indexLimit c"
  by (subst first_failure_empty) (simp_all add: validate_ranges_def not_less not_le)

lemma validate_empty:
  "validate c = Inr [] \<longleftrightarrow>
     CHR ''@'' \<in> set (cf_email c) \<and> (needsPassword c \<longrightarrow> length (cf_password c) \<ge> 8) \<and>
     first_failure (validate_ranges c) = [] \<and>
     (\<exists>b. parseControlBind (cf_controlBind c) = Inr b \<and> validate_bind c b = [])"
  by (auto simp: validate_def ebind_Inr_iff simp flip: validate_password_empty)

section \<open>Layers\<close>

definition keeps :: "(Config \<Rightarrow> 'a) \<Rightarrow> (Config \<Rightarrow> config_error + Config) \<Rightarrow> bool" where
  "keeps sel step \<longleftrightarrow> (\<forall>c c'. step c = Inr c' \<longrightarrow> sel c' = sel c)"

lemmas layer_defs = layer_str_def layer_int_def layer_i64_def layer_double_def layer_bool_def

lemma keeps_str: "(\<And>f c. sel (upd f c) = sel c) \<Longrightarrow> keeps sel (layer_str l n s1 upd)"
  by (auto simp: keeps_def layer_defs ebind_Inr_iff)

lemma keeps_bool: "(\<And>f c. sel (upd f c) = sel c) \<Longrightarrow> keeps sel (layer_bool l n s1 upd)"
  by (auto simp: keeps_def layer_defs ebind_Inr_iff)

lemma keeps_int: "(\<And>f c. sel (upd f c) = sel c) \<Longrightarrow> keeps sel (layer_int l n s1 upd)"
  by (auto simp: keeps_def layer_defs ebind_Inr_iff)

lemma keeps_i64: "(\<And>f c. sel (upd f c) = sel c) \<Longrightarrow> keeps sel (layer_i64 l n s1 upd)"
  by (auto simp: keeps_def layer_defs ebind_Inr_iff)

lemma keeps_double: "(\<And>f c. sel (upd f c) = sel c) \<Longrightarrow> keeps sel (layer_double sd l n s1 upd)"
  by (auto simp: keeps_def layer_defs ebind_Inr_iff)

lemmas keeps_simps = keeps_str keeps_bool keeps_int keeps_i64 keeps_double

lemma foldl_ebind_Inl: "foldl ebind (Inl e) steps = Inl e"
  by (induction steps) simp_all

lemma foldl_keeps:
  assumes "foldl ebind (Inr c) steps = Inr c'" "list_all (keeps sel) steps"
  shows "sel c' = sel c"
  using assms
proof (induction steps arbitrary: c)
  case Nil
  then show ?case by simp
next
  case (Cons s steps)
  then show ?case
    by (cases "s c") (auto simp: foldl_ebind_Inl keeps_def)
qed

definition cli_keeps :: "(Config \<Rightarrow> 'a) \<Rightarrow> (Config \<Rightarrow> Config) \<Rightarrow> bool" where
  "cli_keeps sel step \<longleftrightarrow> (\<forall>c. sel (step c) = sel c)"

lemma fold_cli_keeps: "list_all (cli_keeps sel) steps \<Longrightarrow> sel (fold (\<lambda>s c. s c) steps c) = sel c"
  by (induction steps arbitrary: c) (simp_all add: cli_keeps_def)

lemmas cli_defs = cli_str_def cli_int_def cli_bool_def cli_double_def

lemma cli_keeps_str: "(\<And>f c. sel (upd f c) = sel c) \<Longrightarrow> cli_keeps sel (cli_str cli n upd)"
  by (simp add: cli_keeps_def cli_str_def split: option.split)

lemma cli_keeps_int: "(\<And>f c. sel (upd f c) = sel c) \<Longrightarrow> cli_keeps sel (cli_int cli n upd)"
  by (simp add: cli_keeps_def cli_int_def split: option.split)

lemma cli_keeps_bool: "(\<And>f c. sel (upd f c) = sel c) \<Longrightarrow> cli_keeps sel (cli_bool cli n upd)"
  by (simp add: cli_keeps_def cli_bool_def split: option.split)

lemma cli_keeps_double: "(\<And>f c. sel (upd f c) = sel c) \<Longrightarrow> cli_keeps sel (cli_double cli n upd)"
  by (simp add: cli_keeps_def cli_double_def split: option.split)

lemmas cli_keeps_simps = cli_keeps_str cli_keeps_int cli_keeps_bool cli_keeps_double

lemma fold_cli_sets:
  assumes "list_all (cli_keeps sel) pre" "list_all (cli_keeps sel) post" "steps = pre @ step # post"
    "\<And>d. sel (step d) = g (sel d)"
  shows "sel (fold (\<lambda>s c. s c) steps c) = g (sel c)"
  using assms by (simp add: fold_cli_keeps)

section \<open>Derived emails\<close>

lemma length_dec: "n < 10 ^ Suc k \<Longrightarrow> length (dec n) \<le> Suc k"
proof (induction k arbitrary: n)
  case 0
  then show ?case by (subst dec.simps) simp
next
  case (Suc k)
  show ?case
  proof (cases "n < 10")
    case True
    then show ?thesis by (subst dec.simps) simp
  next
    case False
    have "n div 10 < 10 ^ Suc k" using Suc.prems by (simp add: less_mult_imp_div_less mult.commute)
    then have "length (dec (n div 10)) \<le> Suc k" by (rule Suc.IH)
    then show ?thesis using False by (subst dec.simps) simp
  qed
qed

lemma formatIndex_nonneg:
  assumes "0 \<le> i" "i < 2 ^ 31" "0 \<le> cf_indexWidth c" "cf_indexWidth c \<le> 16"
  shows "formatIndex c i = replicate (nat (cf_indexWidth c) - length (dec (nat i))) (CHR ''0'') @ dec (nat i)"
proof -
  have "nat i < 10 ^ Suc 9" using assms(1,2) by simp
  then have "length (dec (nat i)) \<le> 10" using length_dec [of "nat i" 9] by simp
  then have "length (replicate (nat (cf_indexWidth c) - length (dec (nat i))) (CHR ''0'') @ dec (nat i)) \<le> 31"
    using assms(4) by simp
  then show ?thesis using assms by (simp add: formatIndex_def Let_def)
qed

lemma formatIndex_inj:
  assumes "formatIndex c i = formatIndex c j" "0 \<le> i" "i < 2 ^ 31" "0 \<le> j" "j < 2 ^ 31"
    "0 \<le> cf_indexWidth c" "cf_indexWidth c \<le> 16"
  shows "i = j"
proof -
  have u: "undec (formatIndex c k) = nat k" if "0 \<le> k" "k < 2 ^ 31" for k
    by (simp only: formatIndex_nonneg [OF that assms(6,7)] undec_zeros undec_dec)
  have "nat i = nat j" using u assms(1-5) by metis
  then show ?thesis using assms by simp
qed

lemma replaceAll_skip:
  assumes "x \<notin> set p"
  shows "replaceAll (x # pat) to (p @ s) = p @ replaceAll (x # pat) to s"
  using assms by (induction p) auto

lemma replaceAll_none: "x \<notin> set s \<Longrightarrow> replaceAll (x # pat) to s = s"
  using replaceAll_skip [of x s pat to "[]"] by simp

lemma derivedEmail_default:
  assumes "cf_email c = local @ CHR ''@'' # domain" "CHR ''@'' \<notin> set local"
    "CHR ''{'' \<notin> set local" "CHR ''{'' \<notin> set domain"
    "cf_emailPattern c = ''{local}+lt-{index}@'' @ ''{domain}''"
  shows "derivedEmail c i = local @ ''+lt-'' @ formatIndex c i @ ''@'' @ domain"
proof -
  have at: "takeWhile (\<lambda>c. c \<noteq> CHR ''@'') (cf_email c) = local"
    "tl (dropWhile (\<lambda>c. c \<noteq> CHR ''@'') (cf_email c)) = domain"
    using assms(1,2) by (auto simp: takeWhile_append dropWhile_append)
  have has: "CHR ''@'' \<in> set (cf_email c)" using assms(1) by simp
  have 1: "replaceAll ''{local}'' local (''{local}+lt-{index}@'' @ ''{domain}'') = local @ ''+lt-{index}@'' @ ''{domain}''"
    by simp
  have 2: "replaceAll ''{domain}'' domain (local @ ''+lt-{index}@'' @ ''{domain}'') = local @ ''+lt-{index}@'' @ domain"
    using assms(3) by (simp add: replaceAll_skip)
  have 3: "replaceAll ''{index}'' x (local @ ''+lt-{index}@'' @ domain) = local @ ''+lt-'' @ x @ ''@'' @ domain" for x
    using assms(3,4) by (simp add: replaceAll_skip replaceAll_none)
  show ?thesis
    unfolding derivedEmail_def Let_def at assms(5) if_P [OF has] 1 2 3 ..
qed

section \<open>Loading\<close>

lemma load_InrD:
  assumes "load sd env hostname parsed = Inr c"
  obtains cli kv c0 where "parsed = Some cli" "\<not> cl_help cli"
    "(case cl_config cli of None \<Rightarrow> Inr Map.empty | Some contents \<Rightarrow> parseKvFile contents) = Inr kv"
    "foldl ebind (Inr Config_init) (layer_steps sd \<lparr>ly_env = env, ly_file = kv\<rparr>) = Inr c0"
    "c = load_defaults hostname (fold (\<lambda>step c. step c) (cli_steps cli) c0)" "validate c = Inr []"
proof (cases parsed)
  case None
  then show ?thesis using assms by (simp add: load_def)
next
  case (Some cli)
  then have h: "\<not> cl_help cli" using assms by (auto simp: load_def)
  obtain kv c0 where kv: "(case cl_config cli of None \<Rightarrow> Inr Map.empty | Some contents \<Rightarrow> parseKvFile contents) = Inr kv"
    and c0: "foldl ebind (Inr Config_init) (layer_steps sd \<lparr>ly_env = env, ly_file = kv\<rparr>) = Inr c0"
    and v: "ebind (validate (load_defaults hostname (fold (\<lambda>step c. step c) (cli_steps cli) c0)))
       (\<lambda>err. if err \<noteq> [] then Inl (Invalid err)
              else Inr (load_defaults hostname (fold (\<lambda>step c. step c) (cli_steps cli) c0))) = Inr c"
    using assms Some h by (auto simp: load_def Let_def ebind_Inr_iff [of "case_option _ _ _"]
        ebind_Inr_iff [of "foldl _ _ _"])
  then show ?thesis using that [OF Some h kv c0] by (auto simp: ebind_Inr_iff split: if_splits)
qed

lemma load_defaults_keeps:
  "cf_clients (load_defaults h c) = cf_clients c" "cf_email (load_defaults h c) = cf_email c"
  "cf_rxSilentReassignSec (load_defaults h c) = cf_rxSilentReassignSec c"
  "cf_clientCaps (load_defaults h c) = cf_clientCaps c"
  by (simp_all add: load_defaults_def Let_def)

lemma load_defaults_bounds:
  "cf_clients (load_defaults h c) > 0 \<Longrightarrow> cf_threads (load_defaults h c) \<le> cf_clients (load_defaults h c)"
proof -
  assume pos: "cf_clients (load_defaults h c) > 0"
  have "\<exists>d. load_defaults h c =
      (if cf_clients d > 0 \<and> cf_threads d > cf_clients d then d\<lparr>cf_threads := cf_clients d\<rparr> else d)"
    unfolding load_defaults_def Let_def by (rule exI, rule refl)
  then obtain d where "load_defaults h c =
      (if cf_clients d > 0 \<and> cf_threads d > cf_clients d then d\<lparr>cf_threads := cf_clients d\<rparr> else d)" ..
  then show ?thesis using pos by (auto split: if_splits)
qed

lemma cli_rxSilent:
  "cf_rxSilentReassignSec (fold (\<lambda>s c. s c) (cli_steps cli) c) =
     (case cl_int cli ''rx-silent-reassign-sec'' of Some v \<Rightarrow> v | None \<Rightarrow> cf_rxSilentReassignSec c)"
  by (rule fold_cli_sets [where pre = "take 29 (cli_steps cli)" and post = "drop 30 (cli_steps cli)"
        and step = "cli_int cli ''rx-silent-reassign-sec'' cf_rxSilentReassignSec_update"])
     (simp_all add: cli_steps_def cli_keeps_simps cli_int_def split: option.split)

lemma cli_clientCaps:
  "cf_clientCaps (fold (\<lambda>s c. s c) (cli_steps cli) c) =
     (case cl_bool cli ''client-caps'' of Some v \<Rightarrow> v | None \<Rightarrow> cf_clientCaps c)"
proof (rule fold_cli_sets [where pre = "take 39 (cli_steps cli)" and post = "drop 40 (cli_steps cli)"
        and step = "cli_bool cli ''client-caps'' cf_clientCaps_update" and sel = cf_clientCaps
        and g = "\<lambda>x. case cl_bool cli ''client-caps'' of Some v \<Rightarrow> v | None \<Rightarrow> x"])
  show "cf_clientCaps (cli_bool cli ''client-caps'' cf_clientCaps_update d) =
      (case cl_bool cli ''client-caps'' of Some v \<Rightarrow> v | None \<Rightarrow> cf_clientCaps d)" for d
    by (cases "cl_bool cli ''client-caps''") (simp_all add: cli_bool_def)
qed (simp_all add: cli_steps_def cli_keeps_simps)

section \<open>A sample configuration\<close>

definition sample_env :: "string \<rightharpoonup> string" where
  "sample_env = [''LT_EMAIL'' \<mapsto> ''qa@example.com'', ''LT_PASSWORD'' \<mapsto> ''correct horse'',
     ''LT_MANAGEMENT_API_URL'' \<mapsto> ''https://api.example.com'', ''LT_APP_ID'' \<mapsto> ''7'',
     ''LT_CLIENTS'' \<mapsto> ''40'']"

definition sample_cli :: Cli where
  "sample_cli = \<lparr>cl_help = False, cl_config = Some (Some ''LT_EMAIL=other@example.com''), cl_str = Map.empty,
     cl_int = [''clients'' \<mapsto> 25], cl_bool = Map.empty, cl_double = Map.empty\<rparr>"

definition sample_config :: Config where
  "sample_config = Config_init\<lparr>cf_email := ''qa@example.com'', cf_password := ''correct horse'',
     cf_managementApiUrl := ''https://api.example.com'', cf_appId := 7, cf_clients := 25,
     cf_instanceId := ''cks-loadtest'', cf_indexLimit := 25\<rparr>"

lemma sample_bind: "parseControlBind (cf_controlBind sample_config) = Inr ControlBind_init"
  by code_simp

lemma sample_valid: "validate sample_config = Inr []"
  using sample_bind
  by (simp add: validate_empty validate_ranges_empty validate_bind_empty sample_config_def Config_init_def
      ControlBind_init_def needsPassword_def)

definition sample_file :: "string \<rightharpoonup> string" where
  "sample_file = [''LT_EMAIL'' \<mapsto> ''other@example.com'']"

lemma sample_kv: "parseKvFile (Some ''LT_EMAIL=other@example.com'') = Inr sample_file"
proof -
  have "split_lines ''LT_EMAIL=other@example.com'' = [''LT_EMAIL=other@example.com'']" by code_simp
  moreover have "kv_line ''LT_EMAIL=other@example.com'' = Some (''LT_EMAIL'', ''other@example.com'')" by code_simp
  ultimately show ?thesis by (simp add: parseKvFile_def sample_file_def)
qed

definition sample_layered :: Config where
  "sample_layered = Config_init\<lparr>cf_email := ''qa@example.com'', cf_password := ''correct horse'',
     cf_managementApiUrl := ''https://api.example.com'', cf_appId := 7, cf_clients := 40\<rparr>"

lemma sample_numbers: "stoll ''7'' = Inr 7" "stoi ''40'' = Inr 40"
  by code_simp+

lemma sample_layers:
  "foldl ebind (Inr Config_init) (layer_steps sd \<lparr>ly_env = sample_env, ly_file = sample_file\<rparr>) = Inr sample_layered"
  by (simp add: layer_steps_def layer_defs lgetInt_def lgetI64_def lgetDouble_def lgetBool_def lget_def
      sample_env_def sample_file_def sample_numbers)
     (simp add: sample_layered_def Config_init_def)

lemma sample_cli_applied:
  "load_defaults None (fold (\<lambda>step c. step c) (cli_steps sample_cli) sample_layered) = sample_config"
  by (simp add: cli_steps_def cli_defs sample_cli_def)
     (simp add: load_defaults_def sample_layered_def Config_init_def sample_config_def defaultInstanceId_def)

lemma sample_load: "load sd sample_env None (Some sample_cli) = Inr sample_config"
proof -
  have "cl_config sample_cli = Some (Some ''LT_EMAIL=other@example.com'')" "\<not> cl_help sample_cli"
    by (simp_all add: sample_cli_def)
  then show ?thesis
    by (simp add: load_def sample_kv sample_layers sample_cli_applied sample_valid)
qed

section \<open>Properties\<close>

text \<open>
  C21. A loaded configuration is valid, within its client budget, uses at most one thread per
  client, and never exposes an unauthenticated control port: it is off, bound to loopback, or
  protected by a token.
\<close>

theorem load_valid:
  assumes "load sd env hostname parsed = Inr c"
  shows "validate c = Inr [] \<and> 0 \<le> cf_clients c \<and> cf_clients c \<le> cf_indexLimit c \<and>
     1 \<le> cf_updateHz c \<and> cf_updateHz c \<le> 1000 \<and>
     (cf_clients c > 0 \<longrightarrow> cf_threads c \<le> cf_clients c) \<and>
     (\<exists>b. parseControlBind (cf_controlBind c) = Inr b \<and>
          (cb_disabled b \<or> cb_loopback b \<or> cf_controlToken c \<noteq> []))"
proof -
  have v: "validate c = Inr []" and t: "cf_clients c > 0 \<longrightarrow> cf_threads c \<le> cf_clients c"
    using assms by (auto elim!: load_InrD simp: load_defaults_bounds)
  then obtain b where "parseControlBind (cf_controlBind c) = Inr b" "validate_bind c b = []"
    by (auto simp: validate_empty)
  then show ?thesis using v t by (auto simp: validate_empty validate_ranges_empty validate_bind_empty)
qed

theorem load_valid_witness:
  "validate sample_config = Inr [] \<and> cf_clients sample_config \<le> cf_indexLimit sample_config"
  using load_valid [OF sample_load [of "\<lambda>_. Inl InvalidArgument"]] by blast

text \<open>
  \<^verbatim>\<open>validate\<close> accepts exactly the configurations in range; the control port must be
  parseable and, off loopback, come with a token.
\<close>

theorem validate_exact:
  "validate c = Inr [] \<longleftrightarrow>
     CHR ''@'' \<in> set (cf_email c) \<and> (needsPassword c \<longrightarrow> length (cf_password c) \<ge> 8) \<and>
     cf_managementApiUrl c \<noteq> [] \<and> cf_appId c > 0 \<and> cf_clients c \<ge> 0 \<and> cf_threads c \<ge> 1 \<and>
     1 \<le> cf_updateHz c \<and> cf_updateHz c \<le> 1000 \<and> 0 \<le> cf_distance c \<and> cf_distance c \<le> 255 \<and>
     (cf_poseFormat c = ''ue5'' \<or> cf_poseFormat c = ''bwf'') \<and> 0 \<le> cf_volumeChunks c \<and> cf_volumeChunks c \<le> 64 \<and>
     (cf_replayLogging c = ''on'' \<or> cf_replayLogging c = ''off'' \<or> cf_replayLogging c = ''leave'') \<and>
     0 \<le> cf_sparseRangeChunks c \<and> cf_sparseRangeChunks c \<le> 1000000000 \<and>
     (cf_sparseRangeChunks c \<le> 0 \<or> cf_volumeChunks c \<le> 0) \<and> cf_sparseGroup c \<ge> 1 \<and>
     cf_spawnRadiusChunks c \<ge> 0 \<and> cf_permWindowRadiusChunks c \<ge> 0 \<and> cf_permReloadGraceMs c \<ge> 0 \<and>
     0 \<le> cf_decay c \<and> cf_decay c \<le> 5 \<and> cf_provisionConcurrency c \<ge> 1 \<and> cf_rampBatchSize c \<ge> 1 \<and>
     cf_rxSilentReassignSec c \<ge> 0 \<and> cf_socketRcvbufBytes c \<ge> 0 \<and> cf_indexBase c \<ge> 0 \<and>
     1 \<le> cf_indexWidth c \<and> cf_indexWidth c \<le> 16 \<and> cf_indexLimit c \<ge> 0 \<and> cf_clients c \<le> cf_indexLimit c \<and>
     (\<exists>b. parseControlBind (cf_controlBind c) = Inr b \<and> (cb_disabled b \<longrightarrow> cf_clients c \<noteq> 0) \<and>
        (\<not> cb_disabled b \<longrightarrow> 1 \<le> cb_port b \<and> cb_port b \<le> 65535 \<and> (cb_loopback b \<or> cf_controlToken c \<noteq> [])))"
  by (simp only: validate_empty validate_ranges_empty validate_bind_empty conj_assoc)

theorem validate_exact_witness: "validate sample_config = Inr []"
  unfolding validate_exact
  by (simp only: sample_bind) (simp add: sample_config_def Config_init_def ControlBind_init_def needsPassword_def)

text \<open>
  Distinct clients get distinct accounts: under the default pattern the derived email is
  injective in the global client index.
\<close>

theorem emails_distinct:
  assumes "cf_email c = local @ CHR ''@'' # domain" "CHR ''@'' \<notin> set local"
    and "CHR ''{'' \<notin> set local" "CHR ''{'' \<notin> set domain"
    and "cf_emailPattern c = ''{local}+lt-{index}@'' @ ''{domain}''"
    and "validate c = Inr []"
    and "0 \<le> i" "i < 2 ^ 31" "0 \<le> j" "j < 2 ^ 31"
    and "derivedEmail c i = derivedEmail c j"
  shows "i = j"
proof -
  have "0 \<le> cf_indexWidth c" "cf_indexWidth c \<le> 16"
    using assms(6) by (auto simp: validate_empty validate_ranges_empty)
  moreover have "formatIndex c i = formatIndex c j"
    using assms(11) derivedEmail_default [OF assms(1-5)] by simp
  ultimately show ?thesis using assms formatIndex_inj by blast
qed

theorem emails_distinct_witness: "derivedEmail sample_config 3 \<noteq> derivedEmail sample_config 17"
proof
  assume "derivedEmail sample_config 3 = derivedEmail sample_config 17"
  then have "(3 :: int) = 17"
    by (rule emails_distinct [of sample_config "''qa''" "''example.com''", rotated -1])
       (simp_all add: sample_valid, simp_all add: sample_config_def Config_init_def)
  then show False by simp
qed

text \<open>
  Two options are consulted that were never declared. As cxxopts only reports declared
  options, neither can be set on the command line: both keep the value of the lower layers.
\<close>

theorem undeclared_options:
  assumes "\<And>n. n \<notin> set declared_options \<Longrightarrow> cl_int cli n = None \<and> cl_bool cli n = None"
    and "foldl ebind (Inr Config_init) (layer_steps sd l) = Inr c0"
  shows "filter (\<lambda>n. n \<notin> set declared_options) consulted_options =
           [''rx-silent-reassign-sec'', ''client-caps''] \<and>
     cf_rxSilentReassignSec (load_defaults hostname (fold (\<lambda>step c. step c) (cli_steps cli) c0)) =
       cf_rxSilentReassignSec c0 \<and>
     cf_clientCaps (load_defaults hostname (fold (\<lambda>step c. step c) (cli_steps cli) c0)) = cf_clientCaps c0"
proof -
  have f: "filter (\<lambda>n. n \<notin> set declared_options) consulted_options =
     [''rx-silent-reassign-sec'', ''client-caps'']" by code_simp
  have "''rx-silent-reassign-sec'' \<notin> set declared_options" "''client-caps'' \<notin> set declared_options"
    by code_simp+
  then have none: "cl_int cli ''rx-silent-reassign-sec'' = None" "cl_bool cli ''client-caps'' = None"
    using assms(1) by blast+
  show ?thesis
    by (intro conjI f) (simp_all add: load_defaults_keeps cli_rxSilent cli_clientCaps none)
qed

theorem undeclared_options_witness:
  "cf_rxSilentReassignSec (load_defaults None (fold (\<lambda>step c. step c) (cli_steps sample_cli) sample_layered)) =
     cf_rxSilentReassignSec sample_layered"
proof -
  have "''clients'' \<in> set declared_options" by code_simp
  then have "\<And>n. n \<notin> set declared_options \<Longrightarrow> cl_int sample_cli n = None \<and> cl_bool sample_cli n = None"
    by (auto simp: sample_cli_def)
  from undeclared_options [OF this sample_layers [of "\<lambda>_. Inl InvalidArgument"]] show ?thesis by blast
qed

end
