(* ===== verification/SimClient.thy ===== *)
theory SimClient
  imports Wire Config
begin

text \<open>
  One simulated client (\<^verbatim>\<open>src/SimClient.hpp\<close>) and the credentials it carries
  (\<^verbatim>\<open>src/Provisioner.hpp\<close>): placement of the population, the walk, and the signed update.

  A double is the real number it stands for and every operation rounds (theory \<open>Floating\<close>);
  the two zeros are one value, and infinities do not occur. Coordinates of chunks are integers,
  cut to 64 bits where they enter a message. Random draws are arguments: \<open>Draws\<close> lists what
  one call takes from the generator, in the order of the calls. The arc tangent of the C
  library is the parameter \<open>at2\<close>. Steady times are nanoseconds, or seconds as doubles where the
  program has them so.
\<close>

section \<open>Data\<close>

record ClientCredentials =
  cr_index :: int
  cr_email :: string
  cr_sessionToken :: string
  cr_appToken :: string
  cr_gameTokenId :: i64
  cr_gameApiUrl :: string
  cr_tokenExpiresAt :: int
  cr_serverIp4 :: string
  cr_serverPort :: u16
  cr_udpReadyAt :: int

datatype State = WAITING | ACTIVE | SUSPENDED

record SimClient =
  sc_creds :: ClientCredentials
  sc_state :: State
  sc_activateAt :: int
  sc_fd :: int
  sc_worldX :: double
  sc_worldY :: double
  sc_worldZ :: double
  sc_dirX :: double
  sc_dirY :: double
  sc_dirZ :: double
  sc_chunkX :: int
  sc_chunkY :: int
  sc_chunkZ :: int
  sc_sparseC1 :: int
  sc_sparseC2 :: int
  sc_posX :: double
  sc_posY :: double
  sc_posZ :: double
  sc_velX :: double
  sc_velY :: double
  sc_velZ :: double
  sc_rotYawDeg :: double
  sc_reaimAt :: double
  sc_uuid :: bytes
  sc_sequence :: u8
  sc_lastSendTime :: double
  sc_lastCapsTime :: double
  sc_lastMoveTime :: double
  sc_lastRxTime :: double
  sc_refreshRequested :: bool
  sc_consecutiveSendErrors :: int
  sc_errorLogged :: bool
  sc_unauthorizedCount :: int
  sc_activatedAt :: int
  sc_permWindowCenterX :: int
  sc_permWindowCenterY :: int
  sc_permWindowCenterZ :: int
  sc_permWindowValid :: bool
  sc_permReloadAt :: int
  sc_message :: bytes

definition SimClient_init :: "ClientCredentials \<Rightarrow> int \<Rightarrow> SimClient" where
  "SimClient_init creds activateAt = \<lparr>
     sc_creds = creds, sc_state = WAITING, sc_activateAt = activateAt, sc_fd = -1,
     sc_worldX = 0, sc_worldY = 0, sc_worldZ = 0, sc_dirX = 1, sc_dirY = 0, sc_dirZ = 0,
     sc_chunkX = 0, sc_chunkY = 0, sc_chunkZ = 0, sc_sparseC1 = 0, sc_sparseC2 = 0,
     sc_posX = 0, sc_posY = 0, sc_posZ = 0, sc_velX = 0, sc_velY = 0, sc_velZ = 0,
     sc_rotYawDeg = 0, sc_reaimAt = 0, sc_uuid = replicate 32 0, sc_sequence = 0,
     sc_lastSendTime = 0, sc_lastCapsTime = -1000000000, sc_lastMoveTime = 0, sc_lastRxTime = 0,
     sc_refreshRequested = False, sc_consecutiveSendErrors = 0, sc_errorLogged = False,
     sc_unauthorizedCount = 0, sc_activatedAt = 0, sc_permWindowCenterX = 0,
     sc_permWindowCenterY = 0, sc_permWindowCenterZ = 0, sc_permWindowValid = False,
     sc_permReloadAt = 0, sc_message = replicate ACTOR_UPDATE_MAX_SIZE 0\<rparr>"

definition UE5_HEIGHT_OFFSET :: double where "UE5_HEIGHT_OFFSET = -60"
definition BWF_WALK_HEIGHT :: double where "BWF_WALK_HEIGHT = 20"

text \<open>What one call draws: two 64-bit words, reals, integers, and candidate directions.\<close>

record Draws =
  dr_uuid :: "u64 \<times> u64"
  dr_jitter :: "double \<times> double \<times> double"
  dr_chunk :: "int \<times> int"
  dr_dirs :: "(double \<times> double \<times> double) list"
  dr_reaim :: double
  dr_off :: double

section \<open>Identity\<close>

definition hex :: bytes where
  "hex = [0x30, 0x31, 0x32, 0x33, 0x34, 0x35, 0x36, 0x37, 0x38, 0x39, 0x41, 0x42, 0x43, 0x44, 0x45, 0x46]"

definition hex_word :: "u64 \<Rightarrow> bytes" where
  "hex_word a = map (\<lambda>i. hex ! unat (drop_bit ((15 - i) * 4) a AND 0xF)) [0..<16]"

definition generateUuid :: "u64 \<times> u64 \<Rightarrow> SimClient \<Rightarrow> SimClient" where
  "generateUuid ab c = c\<lparr>sc_uuid := hex_word (fst ab) @ hex_word (snd ab)\<rparr>"

definition poseFormat :: "Config \<Rightarrow> PoseFormat" where
  "poseFormat cfg = (if isBwf cfg then BWF else UE5)"

section \<open>Axes\<close>

text \<open>
  \<^verbatim>\<open>axes(cfg)\<close>: the horizontal axes are X and, by profile, Y (UE5) or Z (BWF); the other one is up.
\<close>

definition h1 :: "SimClient \<Rightarrow> double" where "h1 c = sc_worldX c"
definition h2 :: "Config \<Rightarrow> SimClient \<Rightarrow> double" where
  "h2 cfg c = (if isBwf cfg then sc_worldZ c else sc_worldY c)"
definition up :: "Config \<Rightarrow> SimClient \<Rightarrow> double" where
  "up cfg c = (if isBwf cfg then sc_worldY c else sc_worldZ c)"
definition d1 :: "SimClient \<Rightarrow> double" where "d1 c = sc_dirX c"
definition d2 :: "Config \<Rightarrow> SimClient \<Rightarrow> double" where
  "d2 cfg c = (if isBwf cfg then sc_dirZ c else sc_dirY c)"
definition dup :: "Config \<Rightarrow> SimClient \<Rightarrow> double" where
  "dup cfg c = (if isBwf cfg then sc_dirY c else sc_dirZ c)"

definition set_h1 :: "double \<Rightarrow> SimClient \<Rightarrow> SimClient" where "set_h1 v c = c\<lparr>sc_worldX := v\<rparr>"
definition set_h2 :: "Config \<Rightarrow> double \<Rightarrow> SimClient \<Rightarrow> SimClient" where
  "set_h2 cfg v c = (if isBwf cfg then c\<lparr>sc_worldZ := v\<rparr> else c\<lparr>sc_worldY := v\<rparr>)"
definition set_up :: "Config \<Rightarrow> double \<Rightarrow> SimClient \<Rightarrow> SimClient" where
  "set_up cfg v c = (if isBwf cfg then c\<lparr>sc_worldY := v\<rparr> else c\<lparr>sc_worldZ := v\<rparr>)"
definition set_d1 :: "double \<Rightarrow> SimClient \<Rightarrow> SimClient" where "set_d1 v c = c\<lparr>sc_dirX := v\<rparr>"
definition set_d2 :: "Config \<Rightarrow> double \<Rightarrow> SimClient \<Rightarrow> SimClient" where
  "set_d2 cfg v c = (if isBwf cfg then c\<lparr>sc_dirZ := v\<rparr> else c\<lparr>sc_dirY := v\<rparr>)"
definition set_dup :: "Config \<Rightarrow> double \<Rightarrow> SimClient \<Rightarrow> SimClient" where
  "set_dup cfg v c = (if isBwf cfg then c\<lparr>sc_dirY := v\<rparr> else c\<lparr>sc_dirZ := v\<rparr>)"

lemmas axes_defs = h1_def h2_def up_def d1_def d2_def dup_def
  set_h1_def set_h2_def set_up_def set_d1_def set_d2_def set_dup_def

section \<open>Directions\<close>

definition fsqrt :: "double \<Rightarrow> double" where "fsqrt x = f64_round (sqrt x)"

definition too_short :: double where "too_short = f64_round (1 / 10000)"

text \<open>
  The rejection loops: the first candidate that is long enough; \<open>None\<close> when the draws run out
  before one is found.
\<close>

definition len2 :: "double \<Rightarrow> double \<Rightarrow> double" where
  "len2 x y = fsqrt (fadd (fmul x x) (fmul y y))"

definition len3 :: "double \<Rightarrow> double \<Rightarrow> double \<Rightarrow> double" where
  "len3 x y z = fsqrt (fadd (fadd (fmul x x) (fmul y y)) (fmul z z))"

definition randomizeDirection ::
  "Config \<Rightarrow> (double \<times> double \<times> double) list \<Rightarrow> SimClient \<Rightarrow> SimClient option" where
  "randomizeDirection cfg draws c =
     (case find (\<lambda>(x, y, z). \<not> len2 x y < too_short) draws of
        None \<Rightarrow> None
      | Some (x, y, z) \<Rightarrow>
          Some (set_dup cfg 0 (set_d2 cfg (fdiv y (len2 x y)) (set_d1 (fdiv x (len2 x y)) c))))"

definition randomizeDirection3D ::
  "(double \<times> double \<times> double) list \<Rightarrow> SimClient \<Rightarrow> SimClient option" where
  "randomizeDirection3D draws c =
     (case find (\<lambda>(x, y, z). \<not> len3 x y z < too_short) draws of
        None \<Rightarrow> None
      | Some (x, y, z) \<Rightarrow>
          Some (c\<lparr>sc_dirX := fdiv x (len3 x y z), sc_dirY := fdiv y (len3 x y z),
                  sc_dirZ := fdiv z (len3 x y z)\<rparr>))"

section \<open>Placement\<close>

definition cubeMinHorizontal :: "Config \<Rightarrow> int" where
  "cubeMinHorizontal cfg = - (cf_volumeChunks cfg div 2)"

text \<open>The slot of a client in the cube: chunk offsets on the axes h1, up, h2.\<close>

definition cube_slot :: "Config \<Rightarrow> int \<Rightarrow> int \<times> int \<times> int" where
  "cube_slot cfg index =
     (let n = cf_volumeChunks cfg;
          slots = n * n * n;
          raw = index mod slots;
          idx = (raw * (1 + n + n * n)) mod slots
      in (idx mod n, (idx div n) mod n, (idx div (n * n)) mod n))"

definition placeInCube :: "Config \<Rightarrow> double \<times> double \<times> double \<Rightarrow> SimClient \<Rightarrow> SimClient" where
  "placeInCube cfg jitter c =
     (let (i1, iup, i2) = cube_slot cfg (cr_index (sc_creds c));
          (j1, j2, jup) = jitter;
          size = effectiveChunkSize cfg;
          c = set_h1 (fmul (fadd (int_to_f64 (cubeMinHorizontal cfg + i1)) j1) size) c;
          c = set_h2 cfg (fmul (fadd (int_to_f64 (cubeMinHorizontal cfg + i2)) j2) size) c
      in set_up cfg (fmul (fadd (int_to_f64 (cf_volumeBaseUp cfg + iup)) jup) size) c)"

definition mix64 :: "u64 \<Rightarrow> u64" where
  "mix64 x =
     (let x = x + 0x9E3779B97F4A7C15;
          x = (x XOR drop_bit 30 x) * 0xBF58476D1CE4E5B9;
          x = (x XOR drop_bit 27 x) * 0x94D049BB133111EB
      in x XOR drop_bit 31 x)"

text \<open>\<^verbatim>\<open>index / std::max(1, group)\<close> truncates toward zero.\<close>

definition quot_int :: "int \<Rightarrow> int \<Rightarrow> int" where
  "quot_int a b = (if a < 0 then - ((- a) div b) else a div b)"

definition sparseChunkFor :: "Config \<Rightarrow> int \<Rightarrow> int \<times> int" where
  "sparseChunkFor cfg index =
     (let span = (word_of_int (2 * cf_sparseRangeChunks cfg + 1) :: u64);
          slot = (word_of_int (quot_int index (max 1 (cf_sparseGroup cfg))) :: u64);
          m1 = mix64 (slot * 2 + 1);
          m2 = mix64 (slot * 2 + 2)
      in (sint (m1 mod span) - cf_sparseRangeChunks cfg, sint (m2 mod span) - cf_sparseRangeChunks cfg))"

definition placeSparse :: "Config \<Rightarrow> double \<times> double \<times> double \<Rightarrow> SimClient \<Rightarrow> SimClient" where
  "placeSparse cfg jitter c =
     (let (s1, s2) = sparseChunkFor cfg (cr_index (sc_creds c));
          (j1, j2, jup) = jitter;
          c = c\<lparr>sc_sparseC1 := s1, sc_sparseC2 := s2\<rparr>;
          size = effectiveChunkSize cfg;
          c = set_h1 (fmul (fadd (int_to_f64 s1) j1) size) c;
          c = set_h2 cfg (fmul (fadd (int_to_f64 s2) j2) size) c
      in set_up cfg (if isBwf cfg then BWF_WALK_HEIGHT else 0) c)"

section \<open>The message\<close>

definition string_bytes :: "string \<Rightarrow> bytes" where
  "string_bytes s = map (\<lambda>ch. of_char ch) s"

definition decay_rate :: "int \<Rightarrow> DecayRate" where
  "decay_rate d =
     (if d = 1 then EXPONENTIAL else if d = 2 then LINEAR_50 else if d = 3 then LINEAR_25
      else if d = 4 then LINEAR_10 else if d = 5 then LINEAR_5 else NONE)"

definition rebuildTemplate :: "Config \<Rightarrow> SimClient \<Rightarrow> SimClient" where
  "rebuildTemplate cfg c =
     c\<lparr>sc_lastCapsTime := -1000000000,
       sc_message := initActorUpdateTemplateFmt (poseFormat cfg) (sc_uuid c)
         (word_of_int (cf_appId cfg)) (cr_gameTokenId (sc_creds c))
         (word_of_int (cf_distance cfg)) (decay_rate (cf_decay cfg)) (sc_message c)\<rparr>"

definition chunk_of :: "double \<Rightarrow> double \<Rightarrow> int" where
  "chunk_of w sz = \<lfloor>fdiv w sz\<rfloor>"

definition projectPose :: "Config \<Rightarrow> SimClient \<Rightarrow> SimClient" where
  "projectPose cfg c =
     (let size = effectiveChunkSize cfg;
          c = c\<lparr>sc_chunkX := chunk_of (sc_worldX c) size, sc_chunkY := chunk_of (sc_worldY c) size,
                sc_chunkZ := chunk_of (sc_worldZ c) size\<rparr>
      in if isBwf cfg then
           c\<lparr>sc_posX := sc_worldX c, sc_posY := sc_worldY c, sc_posZ := sc_worldZ c\<rparr>
         else
           c\<lparr>sc_posX := fsub (sc_worldX c) (fmul (int_to_f64 (sc_chunkX c)) size),
             sc_posY := fsub (sc_worldY c) (fmul (int_to_f64 (sc_chunkY c)) size),
             sc_posZ := (if cf_volumeChunks cfg > 0
                         then fsub (sc_worldZ c) (fmul (int_to_f64 (sc_chunkZ c)) size)
                         else UE5_HEIGHT_OFFSET)\<rparr>)"

definition initial_place :: "Config \<Rightarrow> Draws \<Rightarrow> double \<Rightarrow> SimClient \<Rightarrow> SimClient option" where
  "initial_place cfg dr nowSec c =
     (let size = effectiveChunkSize cfg in
      if isSparse cfg then randomizeDirection cfg (dr_dirs dr) (placeSparse cfg (dr_jitter dr) c)
      else if cf_volumeChunks cfg > 0 then
        map_option (\<lambda>c. c\<lparr>sc_reaimAt := fadd nowSec (dr_reaim dr)\<rparr>)
          (randomizeDirection3D (dr_dirs dr) (placeInCube cfg (dr_jitter dr) c))
      else
        let c = set_h1 (fmul (int_to_f64 (fst (dr_chunk dr))) size) c;
            c = set_h2 cfg (fmul (int_to_f64 (snd (dr_chunk dr))) size) c;
            c = set_up cfg (if isBwf cfg then BWF_WALK_HEIGHT else 0) c
        in randomizeDirection cfg (dr_dirs dr) c)"

definition initSimulation :: "Config \<Rightarrow> Draws \<Rightarrow> double \<Rightarrow> SimClient \<Rightarrow> SimClient option" where
  "initSimulation cfg dr nowSec c =
     map_option (\<lambda>c.
       let c = generateUuid (dr_uuid dr) c;
           interval = fdiv 1 (int_to_f64 (cf_updateHz cfg));
           c = c\<lparr>sc_lastMoveTime := nowSec,
                 sc_lastSendTime := fadd (fsub nowSec interval) (fmul (dr_off dr) interval),
                 sc_sequence := 0\<rparr>
       in projectPose cfg (rebuildTemplate cfg c)) (initial_place cfg dr nowSec c)"

section \<open>The walk\<close>

text \<open>The lambda \<^verbatim>\<open>bounce\<close> (and \<^verbatim>\<open>bounceIn\<close>): position and direction after reflection at the edges.\<close>

definition bounce :: "double \<Rightarrow> double \<Rightarrow> double \<Rightarrow> double \<Rightarrow> double \<times> double" where
  "bounce v d lo hi =
     (let (v, d) = (if v < lo then (fadd lo (fsub lo v), \<bar>d\<bar>) else (v, d));
          (v, d) = (if v > hi then (fsub hi (fsub v hi), - \<bar>d\<bar>) else (v, d));
          v = (if v < lo then lo else v);
          v = (if v > hi then hi else v)
      in (v, d))"

definition yaw_scale :: double where
  "yaw_scale = fdiv 180 (f64_round (314159265358979 / 100000000000000))"

definition head_along :: "(double \<Rightarrow> double \<Rightarrow> double) \<Rightarrow> Config \<Rightarrow> double \<Rightarrow> SimClient \<Rightarrow> SimClient" where
  "head_along at2 cfg speed c =
     c\<lparr>sc_velX := fmul (sc_dirX c) speed, sc_velY := fmul (sc_dirY c) speed,
       sc_velZ := fmul (sc_dirZ c) speed, sc_rotYawDeg := fmul (at2 (d2 cfg c) (d1 c)) yaw_scale\<rparr>"

definition bounce_h1 :: "double \<Rightarrow> double \<Rightarrow> SimClient \<Rightarrow> SimClient" where
  "bounce_h1 lo hi c = (let (v, d) = bounce (h1 c) (d1 c) lo hi in set_d1 d (set_h1 v c))"

definition bounce_h2 :: "Config \<Rightarrow> double \<Rightarrow> double \<Rightarrow> SimClient \<Rightarrow> SimClient" where
  "bounce_h2 cfg lo hi c = (let (v, d) = bounce (h2 cfg c) (d2 cfg c) lo hi in set_d2 cfg d (set_h2 cfg v c))"

definition bounce_up :: "Config \<Rightarrow> double \<Rightarrow> double \<Rightarrow> SimClient \<Rightarrow> SimClient" where
  "bounce_up cfg lo hi c = (let (v, d) = bounce (up cfg c) (dup cfg c) lo hi in set_dup cfg d (set_up cfg v c))"

definition step_h1 :: "double \<Rightarrow> double \<Rightarrow> SimClient \<Rightarrow> SimClient" where
  "step_h1 dt speed c = set_h1 (fadd (h1 c) (fmul (fmul (d1 c) dt) speed)) c"

definition step_h2 :: "Config \<Rightarrow> double \<Rightarrow> double \<Rightarrow> SimClient \<Rightarrow> SimClient" where
  "step_h2 cfg dt speed c = set_h2 cfg (fadd (h2 cfg c) (fmul (fmul (d2 cfg c) dt) speed)) c"

definition step_up :: "Config \<Rightarrow> double \<Rightarrow> double \<Rightarrow> SimClient \<Rightarrow> SimClient" where
  "step_up cfg dt speed c = set_up cfg (fadd (up cfg c) (fmul (fmul (dup cfg c) dt) speed)) c"

definition walk_sparse :: "(double \<Rightarrow> double \<Rightarrow> double) \<Rightarrow> Config \<Rightarrow> double \<Rightarrow> SimClient \<Rightarrow> SimClient" where
  "walk_sparse at2 cfg dt c =
     (let speed = effectiveWalkSpeed cfg;
          size = effectiveChunkSize cfg;
          c = step_h2 cfg dt speed (step_h1 dt speed c);
          lo1 = fmul (int_to_f64 (sc_sparseC1 c)) size;
          lo2 = fmul (int_to_f64 (sc_sparseC2 c)) size;
          c = bounce_h2 cfg lo2 (fadd lo2 size) (bounce_h1 lo1 (fadd lo1 size) c)
      in head_along at2 cfg speed c)"

definition cube_hmin :: "Config \<Rightarrow> double" where
  "cube_hmin cfg = fmul (int_to_f64 (cubeMinHorizontal cfg)) (effectiveChunkSize cfg)"
definition cube_hmax :: "Config \<Rightarrow> double" where
  "cube_hmax cfg = fadd (cube_hmin cfg) (fmul (int_to_f64 (cf_volumeChunks cfg)) (effectiveChunkSize cfg))"
definition cube_umin :: "Config \<Rightarrow> double" where
  "cube_umin cfg = fmul (int_to_f64 (cf_volumeBaseUp cfg)) (effectiveChunkSize cfg)"
definition cube_umax :: "Config \<Rightarrow> double" where
  "cube_umax cfg = fadd (cube_umin cfg) (fmul (int_to_f64 (cf_volumeChunks cfg)) (effectiveChunkSize cfg))"

text \<open>The cube's drift; \<open>None\<close> when a re-aim is due and the draws run out.\<close>

definition walk_cube ::
  "(double \<Rightarrow> double \<Rightarrow> double) \<Rightarrow> Config \<Rightarrow> Draws \<Rightarrow> double \<Rightarrow> double \<Rightarrow> SimClient \<Rightarrow> SimClient option" where
  "walk_cube at2 cfg dr nowSec dt c =
     (let speed = effectiveWalkSpeed cfg;
          c = step_up cfg dt speed (step_h2 cfg dt speed (step_h1 dt speed c));
          c = bounce_h1 (cube_hmin cfg) (cube_hmax cfg) c;
          c = bounce_h2 cfg (cube_hmin cfg) (cube_hmax cfg) c;
          c = bounce_up cfg (cube_umin cfg) (cube_umax cfg) c;
          aimed = (if nowSec \<ge> sc_reaimAt c
                   then map_option (\<lambda>c. c\<lparr>sc_reaimAt := fadd nowSec (dr_reaim dr)\<rparr>)
                          (randomizeDirection3D (dr_dirs dr) c)
                   else Some c)
      in map_option (head_along at2 cfg speed) aimed)"

definition walk_plane :: "(double \<Rightarrow> double \<Rightarrow> double) \<Rightarrow> Config \<Rightarrow> double \<Rightarrow> SimClient \<Rightarrow> SimClient" where
  "walk_plane at2 cfg dt c =
     (let speed = effectiveWalkSpeed cfg;
          size = effectiveChunkSize cfg;
          c = head_along at2 cfg speed (step_h2 cfg dt speed (step_h1 dt speed c));
          c1 = chunk_of (h1 c) size;
          c2 = chunk_of (h2 cfg c) size
      in if \<bar>c1\<bar> > cf_spawnRadiusChunks cfg \<or> \<bar>c2\<bar> > cf_spawnRadiusChunks cfg
         then set_d2 cfg (- d2 cfg c) (set_d1 (- d1 c) c) else c)"

definition updateWalk ::
  "(double \<Rightarrow> double \<Rightarrow> double) \<Rightarrow> Config \<Rightarrow> Draws \<Rightarrow> double \<Rightarrow> SimClient \<Rightarrow> SimClient option" where
  "updateWalk at2 cfg dr nowSec c =
     (let dt = fsub nowSec (sc_lastMoveTime c);
          c = c\<lparr>sc_lastMoveTime := nowSec\<rparr>
      in if dt \<le> 0 then Some c
         else map_option (projectPose cfg)
           (if isSparse cfg then Some (walk_sparse at2 cfg dt c)
            else if cf_volumeChunks cfg > 0 then walk_cube at2 cfg dr nowSec dt c
            else Some (walk_plane at2 cfg dt c)))"

section \<open>The update\<close>

text \<open>
  The 64 bits of a double: for exponent \<open>e\<close> the significand with its hidden bit is added to the
  shifted exponent, which gives subnormals the exponent field 0.
\<close>

definition f64_bits :: "double \<Rightarrow> u64" where
  "f64_bits x =
     (if x = 0 then 0
      else let a = \<bar>x\<bar>;
               e = max (-1022) (ilog2 a);
               mag = nat (e + 1022) * 2 ^ 52 + nat \<lfloor>a * 2 powi (52 - e)\<rfloor>
           in of_nat ((if x < 0 then 2 ^ 63 else 0) + mag))"

definition client_pose :: "(double \<Rightarrow> double \<Rightarrow> double) \<Rightarrow> Config \<Rightarrow> int \<Rightarrow> SimClient \<Rightarrow> ActorPose" where
  "client_pose at2 cfg nowMs c = \<lparr>
     ap_posX = f64_bits (sc_posX c), ap_posY = f64_bits (sc_posY c), ap_posZ = f64_bits (sc_posZ c),
     ap_pitch = 0,
     ap_yaw = (if isBwf cfg then f64_bits (at2 (sc_dirX c) (sc_dirZ c)) else 0),
     ap_roll = (if isBwf cfg then 0 else f64_bits (sc_rotYawDeg c)),
     ap_velX = f64_bits (sc_velX c), ap_velY = f64_bits (sc_velY c), ap_velZ = f64_bits (sc_velZ c),
     ap_grounded = False,
     ap_updatedAtMs = (if isBwf cfg then f64_bits (int_to_f64 nowMs) else 0)\<rparr>"

definition buildUpdate ::
  "hmac_fn \<Rightarrow> (double \<Rightarrow> double \<Rightarrow> double) \<Rightarrow> Config \<Rightarrow> int \<Rightarrow> SimClient \<Rightarrow> bool \<times> SimClient" where
  "buildUpdate hm at2 cfg nowMs c =
     (let (ok, msg) = finalizeActorUpdateFmt hm (poseFormat cfg)
            (word_of_int (sc_chunkX c)) (word_of_int (sc_chunkY c)) (word_of_int (sc_chunkZ c))
            (client_pose at2 cfg nowMs c) (sc_sequence c) (string_bytes (cr_appToken (sc_creds c)))
            (sc_message c)
      in (ok, c\<lparr>sc_message := msg, sc_sequence := sc_sequence c + 1\<rparr>))"

definition messageSize :: "Config \<Rightarrow> nat" where
  "messageSize cfg = actorUpdateSize (poseFormat cfg)"

section \<open>Specification vocabulary\<close>

text \<open>
  The edge of a chunk, and configurations that put the population in a cube of chunks with the
  default edge, or with a given edge that is a whole number (up to \<open>2 ^ 20\<close>). The other ranges
  are those of \<^verbatim>\<open>validate\<close>; it does not restrict the edge.
\<close>

definition chunk_edge :: "Config \<Rightarrow> int" where
  "chunk_edge cfg = (if cf_chunkSizeUnits cfg > 0 then \<lfloor>cf_chunkSizeUnits cfg\<rfloor> else if isBwf cfg then 16 else 1600)"

definition cube_ok :: "Config \<Rightarrow> bool" where
  "cube_ok cfg \<longleftrightarrow> \<not> isSparse cfg \<and> 0 < cf_volumeChunks cfg \<and> cf_volumeChunks cfg \<le> 64 \<and>
     \<bar>cf_volumeBaseUp cfg\<bar> < 2 ^ 31 \<and>
     (cf_chunkSizeUnits cfg > 0 \<longrightarrow> of_int \<lfloor>cf_chunkSizeUnits cfg\<rfloor> = cf_chunkSizeUnits cfg \<and> cf_chunkSizeUnits cfg \<le> 2 ^ 20)"

section \<open>Placement\<close>

lemma digits3:
  fixes n :: int
  assumes "0 < n" "0 \<le> x" "x < n * n * n"
  shows "x = x mod n + n * ((x div n) mod n) + n * n * ((x div (n * n)) mod n)"
proof -
  have 1: "x = x mod n + n * (x div n)" by simp
  have 2: "x div n = (x div n) mod n + n * (x div n div n)" by simp
  have 3: "x div n div n = x div (n * n)" using assms(1) by (simp add: zdiv_zmult2_eq)
  have "x div (n * n) < n"
  proof (rule ccontr)
    assume "\<not> x div (n * n) < n"
    then have "n * (n * n) \<le> x div (n * n) * (n * n)" by (intro mult_right_mono) simp_all
    also have "\<dots> \<le> x" using assms(1) by (simp add: minus_mod_eq_div_mult [symmetric])
    finally show False using assms(3) by (simp add: mult.assoc)
  qed
  moreover have "0 \<le> x div (n * n)" using assms by (simp add: pos_imp_zdiv_nonneg_iff)
  ultimately have "(x div (n * n)) mod n = x div (n * n)" by simp
  then show ?thesis using 1 2 3 by (metis (no_types, opaque_lifting) add.assoc distrib_left mult.assoc)
qed

lemma cube_multiplier_coprime: "coprime (1 + n + n * n) (n * n * n :: int)"
proof -
  have "coprime (1 + n * (1 + n)) n" by (rule coprimeI) (metis dvd_add_left_iff dvd_mult2)
  then have "coprime (1 + n + n * n) n" by (simp add: algebra_simps)
  then show ?thesis by simp
qed

lemma cube_permutation:
  fixes n :: int
  assumes "0 < n" "0 \<le> i" "i < n * n * n" "0 \<le> j" "j < n * n * n"
    and "(i * (1 + n + n * n)) mod (n * n * n) = (j * (1 + n + n * n)) mod (n * n * n)"
  shows "i = j"
proof -
  have "n * n * n dvd (i - j) * (1 + n + n * n)"
    using assms(6) by (metis left_diff_distrib mod_eq_dvd_iff)
  then have "n * n * n dvd i - j"
    using cube_multiplier_coprime by (simp add: coprime_dvd_mult_left_iff coprime_commute)
  moreover have "\<bar>i - j\<bar> < n * n * n" using assms by linarith
  ultimately show ?thesis by (metis dvd_imp_le_int eq_iff_diff_eq_0 abs_of_pos assms(2,3) le_less_trans linorder_not_le)
qed

lemma uint_word_small: "0 \<le> k \<Longrightarrow> k < 2 ^ 64 \<Longrightarrow> uint (word_of_int k :: u64) = k"
  by (simp add: unsigned_of_int take_bit_int_eq_self)

lemma sparse_range:
  assumes "0 \<le> r" "r \<le> 1000000000"
  shows "0 \<le> sint (w mod (word_of_int (2 * r + 1) :: u64)) \<and> sint (w mod (word_of_int (2 * r + 1) :: u64)) \<le> 2 * r"
proof -
  let ?s = "word_of_int (2 * r + 1) :: u64"
  have s: "uint ?s = 2 * r + 1" using assms by (intro uint_word_small) simp_all
  have "uint (w mod ?s) = uint w mod uint ?s" by (rule uint_mod_distrib)
  then have "uint (w mod ?s) = uint w mod (2 * r + 1)" by (simp only: s)
  moreover have "uint w mod (2 * r + 1) < 2 * r + 1" by (rule pos_mod_bound) (use assms in simp)
  ultimately have u: "uint (w mod ?s) \<le> 2 * r" by (simp only: zle_add1_eq_le)
  have nn: "0 \<le> uint (w mod ?s)" by (rule unsigned_greater_eq)
  define k where "k = uint (w mod ?s)"
  have "sint (w mod ?s) = signed_take_bit 63 k" by (simp add: k_def sint_uint)
  also have "\<dots> = k" using nn u assms(2) unfolding k_def [symmetric] by (intro signed_take_bit_int_eq_self) simp_all
  finally show ?thesis using nn u by (simp only: k_def)
qed

section \<open>The walk\<close>

lemma bounce_bounds:
  assumes "lo \<le> hi"
  shows "lo \<le> fst (bounce v d lo hi)" "fst (bounce v d lo hi) \<le> hi"
  using assms by (auto simp: bounce_def Let_def)

lemma effectiveChunkSize_whole: "cube_ok cfg \<Longrightarrow> effectiveChunkSize cfg = of_int (chunk_edge cfg)"
  by (auto simp: effectiveChunkSize_def chunk_edge_def cube_ok_def)

lemma f64_round_of_int: "\<bar>n\<bar> < 2 ^ 53 \<Longrightarrow> f64_round (of_int n) = of_int n"
  by (rule f64.rnd_rep, rule f64_rep_of_int)

lemma fmul_int: "\<bar>a\<bar> < 2 ^ 53 \<Longrightarrow> \<bar>a * b\<bar> < 2 ^ 53 \<Longrightarrow> fmul (int_to_f64 a) (of_int b) = of_int (a * b)"
  using f64_round_of_int [of "a * b"] by (simp add: fmul_def int_to_f64_exact)

lemma fadd_int: "\<bar>a + b\<bar> < 2 ^ 53 \<Longrightarrow> fadd (of_int a) (of_int b) = of_int (a + b)"
  using f64_round_of_int [of "a + b"] by (simp add: fadd_def)

lemma chunk_of_range:
  assumes "0 < s" "of_int (k * s) \<le> w" "w \<le> of_int (m * s)" "\<bar>k\<bar> < 2 ^ 53" "\<bar>m\<bar> < 2 ^ 53"
  shows "k \<le> chunk_of w (of_int s)" "chunk_of w (of_int s) \<le> m"
proof -
  have s: "(0::real) < of_int s" using assms(1) by simp
  have "of_int k \<le> w / of_int s" "w / of_int s \<le> of_int m"
    using assms(2,3) s by (simp_all add: pos_le_divide_eq pos_divide_le_eq)
  then have "of_int k \<le> fdiv w (of_int s)" "fdiv w (of_int s) \<le> of_int m"
    unfolding fdiv_def using assms(4,5) by (auto intro!: f64.rnd_lower f64.rnd_upper f64_rep_of_int)
  then show "k \<le> chunk_of w (of_int s)" "chunk_of w (of_int s) \<le> m"
    unfolding chunk_of_def by (simp_all add: le_floor_iff floor_le_iff)
qed

lemma chunk_edge_bounds:
  assumes "cube_ok cfg"
  shows "0 < chunk_edge cfg" "chunk_edge cfg \<le> 2 ^ 20"
proof -
  have "(0 :: real) < of_int (chunk_edge cfg)" "of_int (chunk_edge cfg) \<le> (of_int (2 ^ 20) :: real)"
    using assms by (auto simp: cube_ok_def chunk_edge_def)
  then show "0 < chunk_edge cfg" "chunk_edge cfg \<le> 2 ^ 20" by (simp_all only: of_int_0_less_iff of_int_le_iff)
qed

lemma times_edge:
  assumes "cube_ok cfg" "\<bar>k\<bar> < 2 ^ 32"
  shows "\<bar>k * chunk_edge cfg\<bar> < 2 ^ 53"
proof -
  have "\<bar>k\<bar> * chunk_edge cfg \<le> 2 ^ 32 * 2 ^ 20"
    using assms(2) chunk_edge_bounds [OF assms(1)] by (intro mult_mono) auto
  then show ?thesis using chunk_edge_bounds [OF assms(1)] by (simp add: abs_mult)
qed

lemma cube_faces:
  assumes "cube_ok cfg"
  shows "cube_hmin cfg = of_int (cubeMinHorizontal cfg * chunk_edge cfg)"
    "cube_hmax cfg = of_int ((cubeMinHorizontal cfg + cf_volumeChunks cfg) * chunk_edge cfg)"
    "cube_umin cfg = of_int (cf_volumeBaseUp cfg * chunk_edge cfg)"
    "cube_umax cfg = of_int ((cf_volumeBaseUp cfg + cf_volumeChunks cfg) * chunk_edge cfg)"
proof -
  let ?n = "cf_volumeChunks cfg" and ?k = "cubeMinHorizontal cfg" and ?b = "cf_volumeBaseUp cfg" and ?s = "chunk_edge cfg"
  have sz: "effectiveChunkSize cfg = of_int ?s" using assms by (rule effectiveChunkSize_whole)
  have b: "\<bar>?k\<bar> < 2 ^ 32" "\<bar>?b\<bar> < 2 ^ 32" "\<bar>?n\<bar> < 2 ^ 32" "\<bar>?k + ?n\<bar> < 2 ^ 32" "\<bar>?b + ?n\<bar> < 2 ^ 32"
    using assms by (auto simp: cube_ok_def cubeMinHorizontal_def)
  have m: "fmul (int_to_f64 x) (effectiveChunkSize cfg) = of_int (x * ?s)" if "\<bar>x\<bar> < 2 ^ 32" for x
    unfolding sz using that times_edge [OF assms that] by (intro fmul_int) simp_all
  have a: "fadd (of_int (x * ?s)) (of_int (?n * ?s)) = of_int ((x + ?n) * ?s)" if "\<bar>x + ?n\<bar> < 2 ^ 32" for x
    using fadd_int [of "x * ?s" "?n * ?s"] times_edge [OF assms that] by (simp add: distrib_right)
  show hmin: "cube_hmin cfg = of_int (?k * ?s)" unfolding cube_hmin_def using b(1) by (rule m)
  show umin: "cube_umin cfg = of_int (?b * ?s)" unfolding cube_umin_def using b(2) by (rule m)
  show "cube_hmax cfg = of_int ((?k + ?n) * ?s)" unfolding cube_hmax_def hmin m [OF b(3)] using b(4) by (rule a)
  show "cube_umax cfg = of_int ((?b + ?n) * ?s)" unfolding cube_umax_def umin m [OF b(3)] using b(5) by (rule a)
qed

lemma bounced_position:
  assumes "lo \<le> hi"
  shows "lo \<le> h1 (bounce_h1 lo hi c) \<and> h1 (bounce_h1 lo hi c) \<le> hi"
    "lo \<le> h2 cfg (bounce_h2 cfg lo hi c) \<and> h2 cfg (bounce_h2 cfg lo hi c) \<le> hi"
    "lo \<le> up cfg (bounce_up cfg lo hi c) \<and> up cfg (bounce_up cfg lo hi c) \<le> hi"
  using bounce_bounds [OF assms]
  by (simp_all add: bounce_h1_def bounce_h2_def bounce_up_def axes_defs case_prod_beta)

lemma bounce_frame:
  "h1 (bounce_h2 cfg lo hi c) = h1 c" "h1 (bounce_up cfg lo hi c) = h1 c"
  "h2 cfg (bounce_up cfg lo hi c) = h2 cfg c"
  by (simp_all add: bounce_h2_def bounce_up_def axes_defs case_prod_beta)

lemma aim_frame:
  assumes "randomizeDirection3D draws c = Some c'"
  shows "h1 c' = h1 c" "h2 cfg c' = h2 cfg c" "up cfg c' = up cfg c"
  using assms by (auto simp: randomizeDirection3D_def axes_defs split: option.splits)

lemma reaim_frame [simp]:
  "h1 (c\<lparr>sc_reaimAt := x\<rparr>) = h1 c" "h2 cfg (c\<lparr>sc_reaimAt := x\<rparr>) = h2 cfg c"
  "up cfg (c\<lparr>sc_reaimAt := x\<rparr>) = up cfg c"
  by (simp_all add: axes_defs)

lemma head_frame [simp]:
  "h1 (head_along at2 cfg v c) = h1 c" "h2 cfg (head_along at2 cfg v c) = h2 cfg c"
  "up cfg (head_along at2 cfg v c) = up cfg c"
  by (simp_all add: head_along_def axes_defs)

lemma walk_cube_position:
  assumes "cube_hmin cfg \<le> cube_hmax cfg" "cube_umin cfg \<le> cube_umax cfg"
    and "walk_cube at2 cfg dr nowSec dt c = Some c'"
  shows "cube_hmin cfg \<le> h1 c' \<and> h1 c' \<le> cube_hmax cfg \<and> cube_hmin cfg \<le> h2 cfg c' \<and> h2 cfg c' \<le> cube_hmax cfg \<and>
     cube_umin cfg \<le> up cfg c' \<and> up cfg c' \<le> cube_umax cfg"
proof -
  let ?s = "step_up cfg dt (effectiveWalkSpeed cfg) (step_h2 cfg dt (effectiveWalkSpeed cfg) (step_h1 dt (effectiveWalkSpeed cfg) c))"
  let ?b = "bounce_up cfg (cube_umin cfg) (cube_umax cfg)
     (bounce_h2 cfg (cube_hmin cfg) (cube_hmax cfg) (bounce_h1 (cube_hmin cfg) (cube_hmax cfg) ?s))"
  obtain a where a: "c' = head_along at2 cfg (effectiveWalkSpeed cfg) a"
      "(if nowSec \<ge> sc_reaimAt ?b then map_option (\<lambda>c. c\<lparr>sc_reaimAt := fadd nowSec (dr_reaim dr)\<rparr>)
          (randomizeDirection3D (dr_dirs dr) ?b) else Some ?b) = Some a"
    using assms(3) by (auto simp: walk_cube_def Let_def)
  have "h1 a = h1 ?b \<and> h2 cfg a = h2 cfg ?b \<and> up cfg a = up cfg ?b"
  proof (cases "nowSec \<ge> sc_reaimAt ?b")
    case True
    then obtain d where d: "randomizeDirection3D (dr_dirs dr) ?b = Some d"
        "a = d\<lparr>sc_reaimAt := fadd nowSec (dr_reaim dr)\<rparr>" using a(2) by auto
    then show ?thesis using aim_frame(1) [OF d(1)] aim_frame(2,3) [OF d(1), of cfg] by simp
  next
    case False
    then show ?thesis using a(2) by simp
  qed
  then have "h1 c' = h1 ?b" "h2 cfg c' = h2 cfg ?b" "up cfg c' = up cfg ?b" using a(1) by simp_all
  then show ?thesis using bounced_position [OF assms(1)] bounced_position [OF assms(2)]
    by (simp add: bounce_frame)
qed

section \<open>Identity\<close>

lemma nibble_less: "unat (w AND 0xF :: u64) < 16"
proof -
  have "(0xF :: u64) = mask 4" by (simp add: mask_eq_exp_minus_1)
  then have "w AND 0xF = take_bit 4 w" by (simp add: take_bit_eq_mask)
  then have "unat (w AND 0xF) = take_bit 4 (unat w)" by (simp add: unsigned_take_bit_eq)
  then show ?thesis using take_bit_nat_less_exp [of 4 "unat w"] by simp
qed

lemma hex_facts: "length hex = 16" "distinct hex" "list_all (\<lambda>b. b \<noteq> 0) hex"
  by (simp_all add: hex_def)

lemma length_hex_word [simp]: "length (hex_word a) = 16"
  by (simp add: hex_word_def)

lemma hex_word_nth: "i < 16 \<Longrightarrow> hex_word a ! i = hex ! unat (drop_bit ((15 - i) * 4) a AND 0xF)"
  by (simp add: hex_word_def)

lemma hex_word_nonzero: "b \<in> set (hex_word a) \<Longrightarrow> b \<noteq> 0"
  using hex_facts nibble_less by (auto simp: hex_word_def list_all_length)

lemma hex_word_inj:
  assumes "hex_word a = hex_word b"
  shows "a = b"
proof (rule bit_word_eqI)
  fix k assume "k < LENGTH(64)"
  then have k: "k div 4 < 16" by simp
  define i where "i = 15 - k div 4"
  have i: "i < 16" "15 - i = k div 4" using k by (auto simp: i_def)
  have "hex ! unat (drop_bit ((15 - i) * 4) a AND 0xF) = hex ! unat (drop_bit ((15 - i) * 4) b AND 0xF)"
    using assms hex_word_nth [OF i(1), of a] hex_word_nth [OF i(1), of b] by simp
  then have "unat (drop_bit ((15 - i) * 4) a AND 0xF) = unat (drop_bit ((15 - i) * 4) b AND 0xF)"
    using hex_facts nibble_less by (simp add: nth_eq_iff_index_eq)
  then have "drop_bit (k div 4 * 4) a AND 0xF = drop_bit (k div 4 * 4) b AND 0xF"
    unfolding i(2) by (rule unsigned_word_eqI)
  then have "bit (drop_bit (k div 4 * 4) a AND 0xF) (k mod 4) = bit (drop_bit (k div 4 * 4) b AND 0xF) (k mod 4)"
    by simp
  moreover have "bit (0xF :: u64) (k mod 4)"
  proof -
    have "k mod 4 = 0 \<or> k mod 4 = 1 \<or> k mod 4 = 2 \<or> k mod 4 = 3" by auto
    then show ?thesis by (elim disjE) (simp_all add: bit_simps)
  qed
  moreover have "k div 4 * 4 + k mod 4 = k" by simp
  ultimately show "bit a k = bit b k" by (simp add: bit_simps)
qed

section \<open>Starting a client\<close>

lemma length_template [simp]: "length (sc_message (rebuildTemplate cfg c)) = length (sc_message c)"
  by (simp add: rebuildTemplate_def initActorUpdateTemplateFmt_def Let_def access_defs)

lemma project_frame [simp]:
  "sc_creds (projectPose cfg c) = sc_creds c" "sc_state (projectPose cfg c) = sc_state c"
  "sc_fd (projectPose cfg c) = sc_fd c" "sc_uuid (projectPose cfg c) = sc_uuid c"
  "sc_message (projectPose cfg c) = sc_message c"
  "sc_refreshRequested (projectPose cfg c) = sc_refreshRequested c"
  by (simp_all add: projectPose_def Let_def)

lemma axes_frame [simp]:
  "sc_creds (set_h1 v c) = sc_creds c" "sc_state (set_h1 v c) = sc_state c" "sc_fd (set_h1 v c) = sc_fd c"
  "sc_creds (set_h2 cfg v c) = sc_creds c" "sc_state (set_h2 cfg v c) = sc_state c" "sc_fd (set_h2 cfg v c) = sc_fd c"
  "sc_creds (set_up cfg v c) = sc_creds c" "sc_state (set_up cfg v c) = sc_state c" "sc_fd (set_up cfg v c) = sc_fd c"
  "sc_creds (set_d1 v c) = sc_creds c" "sc_state (set_d1 v c) = sc_state c" "sc_fd (set_d1 v c) = sc_fd c"
  "sc_creds (set_d2 cfg v c) = sc_creds c" "sc_state (set_d2 cfg v c) = sc_state c" "sc_fd (set_d2 cfg v c) = sc_fd c"
  "sc_creds (set_dup cfg v c) = sc_creds c" "sc_state (set_dup cfg v c) = sc_state c" "sc_fd (set_dup cfg v c) = sc_fd c"
  "sc_uuid (set_h1 v c) = sc_uuid c" "sc_uuid (set_h2 cfg v c) = sc_uuid c" "sc_uuid (set_up cfg v c) = sc_uuid c"
  "sc_uuid (set_d1 v c) = sc_uuid c" "sc_uuid (set_d2 cfg v c) = sc_uuid c" "sc_uuid (set_dup cfg v c) = sc_uuid c"
  "sc_message (set_h1 v c) = sc_message c" "sc_message (set_h2 cfg v c) = sc_message c"
  "sc_message (set_up cfg v c) = sc_message c" "sc_message (set_d1 v c) = sc_message c"
  "sc_message (set_d2 cfg v c) = sc_message c" "sc_message (set_dup cfg v c) = sc_message c"
  by (simp_all add: axes_defs)

lemma direction_frame:
  "randomizeDirection cfg draws c = Some c' \<Longrightarrow>
     sc_creds c' = sc_creds c \<and> sc_state c' = sc_state c \<and> sc_fd c' = sc_fd c \<and> sc_message c' = sc_message c \<and> sc_uuid c' = sc_uuid c"
  "randomizeDirection3D draws c = Some c' \<Longrightarrow>
     sc_creds c' = sc_creds c \<and> sc_state c' = sc_state c \<and> sc_fd c' = sc_fd c \<and> sc_message c' = sc_message c \<and> sc_uuid c' = sc_uuid c"
  by (auto simp: randomizeDirection_def randomizeDirection3D_def split: option.splits)

lemma place_frame:
  "sc_creds (placeSparse cfg j c) = sc_creds c \<and> sc_state (placeSparse cfg j c) = sc_state c \<and>
     sc_fd (placeSparse cfg j c) = sc_fd c \<and> sc_message (placeSparse cfg j c) = sc_message c"
  "sc_creds (placeInCube cfg j c) = sc_creds c \<and> sc_state (placeInCube cfg j c) = sc_state c \<and>
     sc_fd (placeInCube cfg j c) = sc_fd c \<and> sc_message (placeInCube cfg j c) = sc_message c"
  by (simp_all add: placeSparse_def placeInCube_def Let_def case_prod_beta)

lemma initial_place_frame:
  assumes "initial_place cfg dr nowSec c = Some p"
  shows "sc_creds p = sc_creds c \<and> sc_state p = sc_state c \<and> sc_fd p = sc_fd c \<and> sc_message p = sc_message c"
proof -
  consider "isSparse cfg" | "\<not> isSparse cfg" "cf_volumeChunks cfg > 0" | "\<not> isSparse cfg" "\<not> cf_volumeChunks cfg > 0"
    by blast
  then show ?thesis
  proof cases
    case 1
    then show ?thesis using assms place_frame direction_frame(1) by (simp add: initial_place_def Let_def)
  next
    case 2
    then obtain q where "randomizeDirection3D (dr_dirs dr) (placeInCube cfg (dr_jitter dr) c) = Some q"
        "p = q\<lparr>sc_reaimAt := fadd nowSec (dr_reaim dr)\<rparr>"
      using assms by (auto simp: initial_place_def Let_def)
    then show ?thesis using place_frame direction_frame(2) by simp
  next
    case 3
    then show ?thesis using assms direction_frame(1) by (simp add: initial_place_def Let_def)
  qed
qed

lemma init_frame:
  assumes "initSimulation cfg dr nowSec c = Some c'"
  shows "sc_creds c' = sc_creds c" "sc_state c' = sc_state c" "sc_fd c' = sc_fd c"
    "length (sc_message c') = length (sc_message c)"
    "sc_uuid c' = hex_word (fst (dr_uuid dr)) @ hex_word (snd (dr_uuid dr))"
proof -
  obtain p where p: "initial_place cfg dr nowSec c = Some p"
    and c': "c' = projectPose cfg (rebuildTemplate cfg ((generateUuid (dr_uuid dr) p)\<lparr>sc_lastMoveTime := nowSec,
        sc_lastSendTime := fadd (fsub nowSec (fdiv 1 (int_to_f64 (cf_updateHz cfg))))
          (fmul (dr_off dr) (fdiv 1 (int_to_f64 (cf_updateHz cfg)))), sc_sequence := 0\<rparr>))"
    using assms by (auto simp: initSimulation_def Let_def)
  note f = initial_place_frame [OF p]
  show "sc_creds c' = sc_creds c" "sc_state c' = sc_state c" "sc_fd c' = sc_fd c"
    "sc_uuid c' = hex_word (fst (dr_uuid dr)) @ hex_word (snd (dr_uuid dr))"
    using f by (simp_all add: c' rebuildTemplate_def generateUuid_def)
  show "length (sc_message c') = length (sc_message c)"
    using f by (simp add: c' generateUuid_def)
qed

lemma init_total:
  assumes "list_ex (\<lambda>(x, y, z). \<not> len2 x y < too_short \<and> \<not> len3 x y z < too_short) (dr_dirs dr)"
  shows "\<exists>c'. initSimulation cfg dr nowSec c = Some c'"
proof -
  have "find (\<lambda>(x, y, z). \<not> len2 x y < too_short) (dr_dirs dr) \<noteq> None"
    "find (\<lambda>(x, y, z). \<not> len3 x y z < too_short) (dr_dirs dr) \<noteq> None"
    using assms by (auto simp: find_None_iff list_ex_iff)
  then show ?thesis
    by (auto simp: initSimulation_def initial_place_def Let_def randomizeDirection_def randomizeDirection3D_def)
qed

section \<open>A sample client\<close>

definition cube_config :: Config where
  "cube_config = sample_config\<lparr>cf_volumeChunks := 8\<rparr>"

definition sample_creds :: ClientCredentials where
  "sample_creds = \<lparr>cr_index = 5, cr_email = ''qa+lt-0005@example.com'', cr_sessionToken = [],
     cr_appToken = replicate 64 (CHR ''k''), cr_gameTokenId = 77, cr_gameApiUrl = [],
     cr_tokenExpiresAt = 2000000000000000000, cr_serverIp4 = ''10.0.0.7'', cr_serverPort = 7777,
     cr_udpReadyAt = 0\<rparr>"

definition sample_draws :: Draws where
  "sample_draws = \<lparr>dr_uuid = (1, 2), dr_jitter = (1 / 2, 1 / 2, 1 / 2), dr_chunk = (0, 0),
     dr_dirs = [(1, 0, 0)], dr_reaim = 4, dr_off = 0\<rparr>"

lemma round_unit: "f64_round 1 = 1" "f64_round 0 = 0"
  using f64_round_of_int [of 1] f64_round_of_int [of 0] by simp_all

lemma sample_direction: "\<not> len2 1 0 < too_short" "\<not> len3 1 0 0 < too_short"
  using f64.rnd_upper [OF f64_rep_1, of "1 / 10000"]
  by (simp_all add: len2_def len3_def fsqrt_def fadd_def fmul_def round_unit too_short_def)

section \<open>Properties\<close>

text \<open>
  Clients of a cube population stand apart: the slot of a client is a permutation of its
  global index, so that no two of the first \<open>n ^ 3\<close> indices share a chunk.
\<close>

theorem cube_slots_distinct:
  assumes "0 < cf_volumeChunks cfg"
    and "0 \<le> i" "i < cf_volumeChunks cfg ^ 3" "0 \<le> j" "j < cf_volumeChunks cfg ^ 3"
    and "cube_slot cfg i = cube_slot cfg j"
  shows "i = j"
proof -
  let ?n = "cf_volumeChunks cfg"
  let ?idx = "\<lambda>i. (i * (1 + ?n + ?n * ?n)) mod (?n * ?n * ?n)"
  have n3: "?n ^ 3 = ?n * ?n * ?n" by (simp add: power3_eq_cube)
  have r: "k mod (?n * ?n * ?n) = k" if "0 \<le> k" "k < ?n ^ 3" for k using that n3 by simp
  have b: "0 \<le> ?idx k" "?idx k < ?n * ?n * ?n" for k using assms(1) by simp_all
  have "?idx i = ?idx j"
    using assms(6) digits3 [OF assms(1) b(1) b(2), of i] digits3 [OF assms(1) b(1) b(2), of j]
      r [OF assms(2,3)] r [OF assms(4,5)]
    by (simp add: cube_slot_def Let_def)
  then show ?thesis using cube_permutation [OF assms(1)] assms n3 by metis
qed

theorem cube_slots_distinct_witness: "cube_slot cube_config 3 \<noteq> cube_slot cube_config 4"
proof
  assume "cube_slot cube_config 3 = cube_slot cube_config 4"
  then have "(3 :: int) = 4"
    by (rule cube_slots_distinct [rotated -1]) (simp_all add: cube_config_def)
  then show False by simp
qed


lemma cube_sample_walk: "\<exists>c'. updateWalk (\<lambda>y x. 0) cube_config sample_draws 1 (SimClient_init sample_creds 0) = Some c'"
  using sample_direction
  by (auto simp: updateWalk_def walk_cube_def Let_def randomizeDirection3D_def sample_draws_def)


text \<open>
  Sparse placement stays in range on both axes and depends on the client's group only, so that
  every process of a fleet places the same client alike.
\<close>

theorem sparse_placement:
  assumes "0 \<le> cf_sparseRangeChunks cfg" "cf_sparseRangeChunks cfg \<le> 1000000000"
  shows "\<bar>fst (sparseChunkFor cfg i)\<bar> \<le> cf_sparseRangeChunks cfg \<and>
     \<bar>snd (sparseChunkFor cfg i)\<bar> \<le> cf_sparseRangeChunks cfg \<and>
     (quot_int i (max 1 (cf_sparseGroup cfg)) = quot_int j (max 1 (cf_sparseGroup cfg)) \<longrightarrow>
        sparseChunkFor cfg i = sparseChunkFor cfg j)"
proof -
  have "\<bar>sint (w mod (word_of_int (2 * cf_sparseRangeChunks cfg + 1) :: u64)) - cf_sparseRangeChunks cfg\<bar>
      \<le> cf_sparseRangeChunks cfg" for w
    using sparse_range [OF assms, of w] by linarith
  then show ?thesis unfolding sparseChunkFor_def Let_def by (intro conjI) (simp_all only: fst_conv snd_conv, simp)
qed

theorem sparse_placement_witness:
  "\<bar>fst (sparseChunkFor (sample_config\<lparr>cf_sparseRangeChunks := 50, cf_sparseGroup := 2\<rparr>) 6)\<bar> \<le> 50 \<and>
   sparseChunkFor (sample_config\<lparr>cf_sparseRangeChunks := 50, cf_sparseGroup := 2\<rparr>) 6 =
   sparseChunkFor (sample_config\<lparr>cf_sparseRangeChunks := 50, cf_sparseGroup := 2\<rparr>) 7"
  using sparse_placement [of "sample_config\<lparr>cf_sparseRangeChunks := 50, cf_sparseGroup := 2\<rparr>" 6 7]
  by (auto simp: quot_int_def)

text \<open>
  An actor's uuid is 32 bytes, none of them zero (so that a client is initialised once), and
  two clients have the same uuid exactly when they drew the same two words.
\<close>

theorem uuid_identifies:
  "length (sc_uuid (generateUuid ab c)) = 32 \<and> 0 \<notin> set (sc_uuid (generateUuid ab c)) \<and>
   (sc_uuid (generateUuid ab c) = sc_uuid (generateUuid ab' c') \<longleftrightarrow> ab = ab')"
  using hex_word_inj
  by (auto simp: generateUuid_def prod_eq_iff dest: hex_word_nonzero)

text \<open>
  C17. The datagram of an update carries the client: its chunk, its pose (position, heading and
  velocity as doubles, or narrowed to floats and with the time for the BWF profile) and its
  sequence number, each at its offset. It verifies under the client's app token, and the buffer is
  ready for the next update.
\<close>

theorem update_carries_client:
  assumes "length (sc_message c) = ACTOR_UPDATE_MAX_SIZE"
    and "buildUpdate hm at2 cfg nowMs c = (True, c')"
  shows "let d = take (messageSize cfg) (sc_message c') in
     length d = messageSize cfg \<and>
     readI64 off_CHUNK_X d = word_of_int (sc_chunkX c) \<and> readI64 off_CHUNK_Y d = word_of_int (sc_chunkY c) \<and>
     readI64 off_CHUNK_Z d = word_of_int (sc_chunkZ c) \<and> d ! (length d - 1) = sc_sequence c \<and>
     (if isBwf cfg
      then map (\<lambda>k. readF32 (off_PAYLOAD + k) d) [0, 4, 8, 12, 16, 20, 24, 28] =
          map (\<lambda>x. f64_to_f32 (f64_bits x)) [sc_posX c, sc_posY c, sc_posZ c, at2 (sc_dirX c) (sc_dirZ c), 0, sc_velX c, sc_velY c, sc_velZ c] \<and>
        d ! (off_PAYLOAD + bwfpose_FLAGS) = 0 \<and> readF64 (off_PAYLOAD + bwfpose_UPDATED_AT) d = f64_bits (int_to_f64 nowMs)
      else map (\<lambda>k. readF64 (off_PAYLOAD + k) d) [8, 16, 24, 32, 40, 48, 56, 64, 72] =
          map f64_bits [sc_posX c, sc_posY c, sc_posZ c, 0, 0, sc_rotYawDeg c, sc_velX c, sc_velY c, sc_velZ c]) \<and>
     sc_sequence c' = sc_sequence c + 1 \<and> length (sc_message c') = ACTOR_UPDATE_MAX_SIZE \<and>
     verifyNotification hm d (string_bytes (cr_appToken (sc_creds c)))"
proof -
  let ?f = "poseFormat cfg" and ?t = "string_bytes (cr_appToken (sc_creds c))"
  let ?x = "word_of_int (sc_chunkX c)" and ?y = "word_of_int (sc_chunkY c)" and ?z = "word_of_int (sc_chunkZ c)"
  let ?p = "client_pose at2 cfg nowMs c"
  let ?b = "patched ?f ?x ?y ?z ?p (sc_sequence c) (sc_message c)"
  have l: "length (sc_message c) = 197" using assms(1) by (simp add: wire_consts)
  obtain m where m: "finalizeActorUpdateFmt hm ?f ?x ?y ?z ?p (sc_sequence c) ?t (sc_message c) = (True, m)"
      "c' = c\<lparr>sc_message := m, sc_sequence := sc_sequence c + 1\<rparr>"
    using assms(2) by (auto simp: buildUpdate_def split: prod.splits)
  then obtain tag where s: "sealed hm ?t (take (actorUpdateHmacOffset ?f) ?b) tag"
    and put: "m = put (actorUpdateHmacOffset ?f) tag ?b"
    using l by (auto simp: finalize_iff)
  have v: "verifyNotification hm (take (actorUpdateSize ?f) m) ?t"
    using update.datagram_verifies [where x = "(?f, ?x, ?y, ?z, ?p, sc_sequence c, sc_message c)", OF _ _ refl] m(1) l
    by (cases ?f) simp_all
  have ch: "readI64 off_CHUNK_X m = ?x" "readI64 off_CHUNK_Y m = ?y" "readI64 off_CHUNK_Z m = ?z"
    using patched_chunks(1-3) [OF l, of ?f ?x ?y ?z ?p "sc_sequence c"]
    by (cases ?f; simp add: put readI64_def slice_put_tag [OF s] wire_consts)+
  have sq: "m ! actorUpdateSeqOffset ?f = sc_sequence c"
    using patched_chunks(4) [OF l, of ?f ?x ?y ?z ?p "sc_sequence c"] l
    by (cases ?f; simp add: put nth_put_tag [OF s])
  have lm: "length m = 197" using l by (simp add: put)
  have z: "f64_bits 0 = 0" by (simp add: f64_bits_def)
  have pose: "isBwf cfg \<Longrightarrow> map (\<lambda>k. readF32 (off_PAYLOAD + k) m) [0, 4, 8, 12, 16, 20, 24, 28] =
      map f64_to_f32 [ap_posX ?p, ap_posY ?p, ap_posZ ?p, ap_yaw ?p, ap_pitch ?p, ap_velX ?p, ap_velY ?p, ap_velZ ?p] \<and>
      m ! (off_PAYLOAD + bwfpose_FLAGS) = 0 \<and> readF64 (off_PAYLOAD + bwfpose_UPDATED_AT) m = ap_updatedAtMs ?p"
    "\<not> isBwf cfg \<Longrightarrow> map (\<lambda>k. readF64 (off_PAYLOAD + k) m) [8, 16, 24, 32, 40, 48, 56, 64, 72] =
      [ap_posX ?p, ap_posY ?p, ap_posZ ?p, ap_pitch ?p, ap_yaw ?p, ap_roll ?p, ap_velX ?p, ap_velY ?p, ap_velZ ?p]"
    using patched_pose_UE5 [OF l, of ?x ?y ?z ?p "sc_sequence c"] patched_pose_BWF [OF l, of ?x ?y ?z ?p "sc_sequence c"] l
    by (simp_all add: put poseFormat_def readF64_def readF32_def slice_put_tag [OF s] nth_put_tag [OF s] wire_consts client_pose_def)
  show ?thesis using ch sq v lm m(2) pose z
    by (cases "isBwf cfg")
       (simp_all add: messageSize_def poseFormat_def client_pose_def readI64_def readF64_def readF32_def slice_take wire_consts min_def)
qed

theorem update_carries_client_witness:
  "\<exists>c'. buildUpdate (\<lambda>k b. Some (replicate 32 9)) (\<lambda>y x. 0) sample_config 0 (SimClient_init sample_creds 0) = (True, c') \<and>
     verifyNotification (\<lambda>k b. Some (replicate 32 9)) (take (messageSize sample_config) (sc_message c'))
       (string_bytes (cr_appToken sample_creds))"
proof -
  let ?hm = "\<lambda>k b. Some (replicate 32 9)" and ?c = "SimClient_init sample_creds 0"
  have len: "length (sc_message ?c) = ACTOR_UPDATE_MAX_SIZE" by (simp add: SimClient_init_def)
  then have "length (sc_message ?c) = 197" by (simp add: wire_consts)
  then have "\<exists>c'. buildUpdate ?hm (\<lambda>y x. 0) sample_config 0 ?c = (True, c')"
    by (cases "poseFormat sample_config")
       (simp_all add: buildUpdate_def finalize_patched spatialSign_def wire_consts Let_def)
  then obtain c' where c': "buildUpdate ?hm (\<lambda>y x. 0) sample_config 0 ?c = (True, c')" ..
  have "sc_creds ?c = sample_creds" by (simp add: SimClient_init_def)
  then show ?thesis using update_carries_client [OF len c'] c' by (auto simp: Let_def)
qed

end
