(* ===== verification/Worker.thy ===== *)
theory Worker
  imports Stats SimClient
begin

text \<open>
  A worker and the control queue (\<^verbatim>\<open>src/Worker.hpp\<close>, \<^verbatim>\<open>src/Worker.cpp\<close>): the state machine
  of the simulated clients, driven by ticks. A worker's state includes the statistics and the
  control queue it shares with others. Clients are named by their slot in the worker's vector.

  System calls, clocks and random draws of one tick are arguments (\<open>Tick\<close>, \<open>Recv\<close>,
  \<open>Clock\<close>); \<open>hm\<close> is HMAC-SHA256, \<open>at2\<close> the arc tangent. An operation that would wait for the
  random generator forever is \<open>None\<close>. Log output is not modelled.
\<close>

section \<open>The control queue\<close>

datatype Kind = REASSIGN | REFRESH

record ControlRequest =
  rq_workerIndex :: int
  rq_clientIndex :: nat
  rq_kind :: Kind
  rq_creds :: ClientCredentials

record ClientUpdate =
  cu_clientIndex :: nat
  cu_failed :: bool
  cu_creds :: ClientCredentials

record ControlQueue =
  cq_queue :: "ControlRequest list"
  cq_shutdown :: bool

datatype pop_result = Blocked | ShutDown | Popped ControlRequest ControlQueue

definition queue_push :: "ControlRequest \<Rightarrow> ControlQueue \<Rightarrow> ControlQueue" where
  "queue_push req q = q\<lparr>cq_queue := cq_queue q @ [req]\<rparr>"

text \<open>\<open>Blocked\<close>: the caller waits on the condition variable.\<close>

definition queue_pop :: "ControlQueue \<Rightarrow> pop_result" where
  "queue_pop q =
     (case cq_queue q of
        [] \<Rightarrow> if cq_shutdown q then ShutDown else Blocked
      | r # rs \<Rightarrow> Popped r (q\<lparr>cq_queue := rs\<rparr>))"

definition queue_shutdown :: "ControlQueue \<Rightarrow> ControlQueue" where
  "queue_shutdown q = q\<lparr>cq_shutdown := True\<rparr>"

section \<open>State\<close>

record PendingAdd =
  pa_creds :: ClientCredentials
  pa_activateAt :: int

record Worker =
  wk_index :: int
  wk_clients :: "SimClient list"
  wk_clientCount :: int
  wk_pending :: "PendingAdd list"
  wk_inbox :: "ClientUpdate list"
  wk_stats :: Stats
  wk_control :: ControlQueue

definition new_worker :: "int \<Rightarrow> Stats \<Rightarrow> ControlQueue \<Rightarrow> Worker" where
  "new_worker index stats control = \<lparr>wk_index = index, wk_clients = [], wk_clientCount = 0, wk_pending = [],
     wk_inbox = [], wk_stats = stats, wk_control = control\<rparr>"

definition client :: "nat \<Rightarrow> Worker \<Rightarrow> SimClient" where
  "client slot w = wk_clients w ! slot"

definition on_client :: "nat \<Rightarrow> (SimClient \<Rightarrow> SimClient) \<Rightarrow> Worker \<Rightarrow> Worker" where
  "on_client slot f w = w\<lparr>wk_clients := (wk_clients w)[slot := f (wk_clients w ! slot)]\<rparr>"

definition on_stats :: "(Stats \<Rightarrow> Stats) \<Rightarrow> Worker \<Rightarrow> Worker" where
  "on_stats f w = w\<lparr>wk_stats := f (wk_stats w)\<rparr>"

text \<open>The answers of the operating system to \<^verbatim>\<open>openSocket\<close>'s calls.\<close>

record OpenAnswers =
  oa_socket :: int
  oa_pton :: bool
  oa_setsockopt :: bool
  oa_connect :: bool
  oa_epoll :: bool

text \<open>Clock readings while one datagram is handled; the last two per message of it.\<close>

record Clock =
  ck_rxSec :: double
  ck_epochMs :: i64
  ck_contact :: "nat \<Rightarrow> int"
  ck_reload :: "nat \<Rightarrow> int"

datatype Recv = RDatagram bytes Clock | RAgain | RRefused | RFailed

record Tick =
  tk_now :: int
  tk_nowSec :: double
  tk_sysNs :: int
  tk_open :: "nat \<Rightarrow> OpenAnswers"
  tk_draws :: "nat \<Rightarrow> Draws"
  tk_walk :: "nat \<Rightarrow> Draws"
  tk_updateMs :: "nat \<Rightarrow> int"
  tk_sendCaps :: "nat \<Rightarrow> int"
  tk_send :: "nat \<Rightarrow> int"
  tk_events :: "(nat \<times> Recv list) list"

section \<open>Adding clients\<close>

definition addClient :: "ClientCredentials \<Rightarrow> int \<Rightarrow> Worker \<Rightarrow> Worker" where
  "addClient creds activateAt w =
     w\<lparr>wk_pending := wk_pending w @ [\<lparr>pa_creds = creds, pa_activateAt = activateAt\<rparr>]\<rparr>"

definition push_client :: "PendingAdd \<Rightarrow> Worker \<Rightarrow> Worker" where
  "push_client p w =
     (let cs = wk_clients w @ [SimClient_init (pa_creds p) (pa_activateAt p)]
      in w\<lparr>wk_clients := cs, wk_clientCount := int (length cs)\<rparr>)"

definition applyPendingClients :: "Worker \<Rightarrow> Worker" where
  "applyPendingClients w = fold push_client (wk_pending w) (w\<lparr>wk_pending := []\<rparr>)"

definition postUpdate :: "ClientUpdate \<Rightarrow> Worker \<Rightarrow> Worker" where
  "postUpdate u w = w\<lparr>wk_inbox := wk_inbox w @ [u]\<rparr>"

section \<open>Sockets\<close>

definition openSocket :: "Config \<Rightarrow> OpenAnswers \<Rightarrow> nat \<Rightarrow> Worker \<Rightarrow> bool \<times> Worker" where
  "openSocket cfg oa slot w =
     (if oa_socket oa < 0 then (False, w)
      else if \<not> oa_pton oa then (False, w)
      else let w = (if cf_socketRcvbufBytes cfg > 0 \<and> \<not> oa_setsockopt oa
                    then on_stats (\<lambda>s. s\<lparr>st_rcvbufSetFailures := st_rcvbufSetFailures s + 1\<rparr>) w else w)
           in if \<not> oa_connect oa then (False, w)
              else if \<not> oa_epoll oa then (False, w)
              else (True, on_client slot (\<lambda>c. c\<lparr>sc_fd := oa_socket oa\<rparr>) w))"

definition closeSocket :: "SimClient \<Rightarrow> SimClient" where
  "closeSocket c = (if sc_fd c \<ge> 0 then c\<lparr>sc_fd := -1\<rparr> else c)"

section \<open>Suspending and resuming\<close>

definition suspendClient :: "Kind \<Rightarrow> nat \<Rightarrow> Worker \<Rightarrow> Worker" where
  "suspendClient kind slot w =
     (if sc_state (client slot w) = SUSPENDED then w
      else let w = on_client slot closeSocket w;
               w = (if sc_state (client slot w) = ACTIVE
                    then on_stats (\<lambda>s. s\<lparr>st_activeClients := st_activeClients s - 1\<rparr>) w else w);
               w = on_client slot (\<lambda>c. c\<lparr>sc_state := SUSPENDED\<rparr>) w;
               w = on_stats (\<lambda>s. s\<lparr>st_suspendedClients := st_suspendedClients s + 1\<rparr>) w
           in w\<lparr>wk_control := queue_push \<lparr>rq_workerIndex = wk_index w, rq_clientIndex = slot,
                  rq_kind = kind, rq_creds = sc_creds (client slot w)\<rparr> (wk_control w)\<rparr>)"

definition apply_update :: "Config \<Rightarrow> ClientUpdate \<Rightarrow> Worker \<Rightarrow> Worker" where
  "apply_update cfg u w =
     (let slot = cu_clientIndex u;
          c = client slot w;
          wasSuspended = (sc_state c = SUSPENDED)
      in if cu_failed u then w
         else let tokenChanged = (cr_gameTokenId (cu_creds u) \<noteq> cr_gameTokenId (sc_creds c));
                  w = on_client slot (\<lambda>c. c\<lparr>sc_creds := cu_creds u, sc_refreshRequested := False\<rparr>) w;
                  w = (if tokenChanged then on_client slot (rebuildTemplate cfg) w else w)
              in if wasSuspended then
                   on_client slot (\<lambda>c. c\<lparr>sc_state := WAITING, sc_activateAt := cr_udpReadyAt (sc_creds c)\<rparr>)
                     (on_stats (\<lambda>s. s\<lparr>st_suspendedClients := st_suspendedClients s - 1\<rparr>) w)
                 else if sc_state (client slot w) = ACTIVE then
                   on_stats (\<lambda>s. s\<lparr>st_activeClients := st_activeClients s - 1\<rparr>)
                     (on_client slot (\<lambda>c. c\<lparr>sc_state := WAITING, sc_activateAt := cr_udpReadyAt (sc_creds c)\<rparr>)
                        (on_client slot closeSocket w))
                 else w)"

definition applyPendingUpdates :: "Config \<Rightarrow> Worker \<Rightarrow> Worker" where
  "applyPendingUpdates cfg w = fold (apply_update cfg) (wk_inbox w) (w\<lparr>wk_inbox := []\<rparr>)"

section \<open>Activation\<close>

text \<open>A loop over slots whose body may not return.\<close>

fun each :: "(nat \<Rightarrow> 'w \<Rightarrow> 'w option) \<Rightarrow> nat list \<Rightarrow> 'w \<Rightarrow> 'w option" where
  "each f [] w = Some w"
| "each f (slot # slots) w = (case f slot w of None \<Rightarrow> None | Some w' \<Rightarrow> each f slots w')"

definition resume_timing :: "double \<Rightarrow> SimClient \<Rightarrow> SimClient" where
  "resume_timing nowSec c =
     c\<lparr>sc_lastMoveTime := nowSec, sc_lastSendTime := nowSec, sc_lastCapsTime := -1000000000\<rparr>"

definition arm_client :: "int \<Rightarrow> double \<Rightarrow> SimClient \<Rightarrow> SimClient" where
  "arm_client now nowSec c =
     c\<lparr>sc_lastRxTime := nowSec, sc_activatedAt := now, sc_permWindowCenterX := sc_chunkX c,
       sc_permWindowCenterY := sc_chunkY c, sc_permWindowCenterZ := sc_chunkZ c,
       sc_permWindowValid := True\<rparr>"

definition activate_client :: "Config \<Rightarrow> Tick \<Rightarrow> nat \<Rightarrow> Worker \<Rightarrow> Worker option" where
  "activate_client cfg tk slot w =
     (let c = client slot w; now = tk_now tk; nowSec = tk_nowSec tk in
      if sc_state c \<noteq> WAITING then Some w
      else if now < sc_activateAt c \<or> now < cr_udpReadyAt (sc_creds c) then Some w
      else
        case (if sc_uuid c ! 0 = 0 then initSimulation cfg (tk_draws tk slot) nowSec c
              else Some (resume_timing nowSec c)) of
          None \<Rightarrow> None
        | Some c \<Rightarrow>
            let w = on_client slot (\<lambda>_. arm_client now nowSec c) w;
                (ok, w) = openSocket cfg (tk_open tk slot) slot w
            in Some (if \<not> ok then suspendClient REASSIGN slot w
                     else on_stats (\<lambda>s. s\<lparr>st_activeClients := st_activeClients s + 1\<rparr>)
                            (on_client slot (\<lambda>c. c\<lparr>sc_state := ACTIVE\<rparr>) w)))"

definition activateDueClients :: "Config \<Rightarrow> Tick \<Rightarrow> Worker \<Rightarrow> Worker option" where
  "activateDueClients cfg tk w = each (activate_client cfg tk) [0..<length (wk_clients w)] w"

section \<open>Receiving\<close>

definition FIRST_CONTACT_GRACE_MS :: int where "FIRST_CONTACT_GRACE_MS = 2000"

definition ms_ns :: "int \<Rightarrow> int" where "ms_ns ms = ms * 1000000"

definition outside_window :: "Config \<Rightarrow> SimClient \<Rightarrow> bool" where
  "outside_window cfg c \<longleftrightarrow>
     \<bar>sc_chunkX c - sc_permWindowCenterX c\<bar> > cf_permWindowRadiusChunks cfg \<or>
     \<bar>sc_chunkY c - sc_permWindowCenterY c\<bar> > cf_permWindowRadiusChunks cfg \<or>
     \<bar>sc_chunkZ c - sc_permWindowCenterZ c\<bar> > cf_permWindowRadiusChunks cfg"

text \<open>
  The classification of an error code: whether the refusal is expected, with the counters and
  the window centre it moves.
\<close>

definition classify_refusal :: "Config \<Rightarrow> Clock \<Rightarrow> nat \<Rightarrow> u8 \<Rightarrow> nat \<Rightarrow> Worker \<Rightarrow> bool \<times> Worker" where
  "classify_refusal cfg ck i code slot w =
     (let c = client slot w in
      if code = ERR_UNAUTHORIZED \<and> sc_activatedAt c \<noteq> 0 \<and>
         ck_contact ck i - sc_activatedAt c < ms_ns FIRST_CONTACT_GRACE_MS then
        (True, on_stats (\<lambda>s. s\<lparr>st_unauthorizedFirstContact := st_unauthorizedFirstContact s + 1\<rparr>) w)
      else if code = ERR_UNAUTHORIZED \<and> sc_permWindowValid c then
        let nowTp = ck_reload ck i;
            sameEpisode = (sc_permReloadAt c \<noteq> 0 \<and>
              nowTp - sc_permReloadAt c < ms_ns (cf_permReloadGraceMs cfg))
        in if sameEpisode \<or> outside_window cfg c then
             let w = on_stats (\<lambda>s. s\<lparr>st_unauthorizedWindowReload := st_unauthorizedWindowReload s + 1\<rparr>) w
             in (True,
                 if \<not> sameEpisode
                 then on_client slot (\<lambda>c. c\<lparr>sc_permWindowCenterX := sc_chunkX c,
                        sc_permWindowCenterY := sc_chunkY c, sc_permWindowCenterZ := sc_chunkZ c,
                        sc_permReloadAt := nowTp\<rparr>) w
                 else w)
           else (False, w)
      else (False, w))"

definition react_to_code :: "Config \<Rightarrow> u8 \<Rightarrow> nat \<Rightarrow> Worker \<Rightarrow> Worker" where
  "react_to_code cfg code slot w =
     (if (code = ERR_INVALID_TOKEN \<or> code = ERR_TOKEN_EXPIRED \<or> code = ERR_USER_NOT_AUTHENTICATED) \<and>
         \<not> sc_refreshRequested (client slot w) then
        suspendClient REFRESH slot (on_client slot (\<lambda>c. c\<lparr>sc_refreshRequested := True\<rparr>) w)
      else if code = ERR_UNAUTHORIZED then
        let w = on_client slot (\<lambda>c. c\<lparr>sc_unauthorizedCount := sc_unauthorizedCount c + 1\<rparr>) w
        in if sc_unauthorizedCount (client slot w) \<ge> 5 * cf_updateHz cfg
           then suspendClient REASSIGN slot (on_client slot (\<lambda>c. c\<lparr>sc_unauthorizedCount := 0\<rparr>) w)
           else w
      else w)"

definition handle_error :: "Config \<Rightarrow> Clock \<Rightarrow> nat \<Rightarrow> InboundView \<Rightarrow> nat \<Rightarrow> Worker \<Rightarrow> Worker" where
  "handle_error cfg ck i m slot w =
     (let w = on_stats (\<lambda>s. s\<lparr>st_rxErrorMessages := st_rxErrorMessages s + 1\<rparr>) w in
      if length m \<ge> 3 then
        let code = m ! 2;
            w = on_stats (\<lambda>s. s\<lparr>st_errorCodes :=
                  (st_errorCodes s)[unat code := st_errorCodes s ! unat code + 1]\<rparr>) w;
            (expected, w) = classify_refusal cfg ck i code slot w;
            w = on_client slot (\<lambda>c. if \<not> sc_errorLogged c \<and> \<not> expected
                                    then c\<lparr>sc_errorLogged := True\<rparr> else c) w
        in react_to_code cfg code slot w
      else w)"

definition handle_spatial :: "hmac_fn \<Rightarrow> Config \<Rightarrow> Clock \<Rightarrow> InboundView \<Rightarrow> nat \<Rightarrow> Worker \<Rightarrow> Worker" where
  "handle_spatial hm cfg ck m slot w =
     (if cf_verifyServerHmac cfg \<and>
         \<not> verifyNotification hm m (string_bytes (cr_appToken (sc_creds (client slot w)))) then
        on_stats (\<lambda>s. s\<lparr>st_rxHmacFailures := st_rxHmacFailures s + 1\<rparr>) w
      else
        let w = (if msg_type m = ACTOR_UPDATE_NOTIFICATION_2
                 then on_stats (\<lambda>s. s\<lparr>st_rxActorNotifications := st_rxActorNotifications s + 1\<rparr>) w
                 else on_stats (\<lambda>s. s\<lparr>st_rxOtherSpatial := st_rxOtherSpatial s + 1\<rparr>) w)
        in case notificationEpochMs m of
             Some epoch \<Rightarrow> if sint epoch > 0 then on_stats (recordLatencyMs (ck_epochMs ck - epoch)) w else w
           | None \<Rightarrow> w)"

definition handle_message ::
  "hmac_fn \<Rightarrow> Config \<Rightarrow> Clock \<Rightarrow> bool \<Rightarrow> nat \<Rightarrow> nat \<times> InboundView \<Rightarrow> Worker \<Rightarrow> Worker" where
  "handle_message hm cfg ck signedBundle slot im w =
     (let (i, m) = im;
          w = (if signedBundle
               then on_stats (\<lambda>s. s\<lparr>st_rxSignedMembers := st_rxSignedMembers s + 1\<rparr>) w else w)
      in if msg_type m = GENERIC_ERROR_MESSAGE then handle_error cfg ck i m slot w
         else if msg_type m = COMMAND_RECONNECT then
           suspendClient REASSIGN slot
             (on_stats (\<lambda>s. s\<lparr>st_rxReconnectCommands := st_rxReconnectCommands s + 1\<rparr>) w)
         else if is_spatial m then handle_spatial hm cfg ck m slot w
         else w)"

definition handleDatagram :: "hmac_fn \<Rightarrow> Config \<Rightarrow> Clock \<Rightarrow> bytes \<Rightarrow> nat \<Rightarrow> Worker \<Rightarrow> Worker" where
  "handleDatagram hm cfg ck data slot w =
     (let w = on_stats (\<lambda>s. s\<lparr>st_rxDatagrams := st_rxDatagrams s + 1,
                              st_rxBytes := st_rxBytes s + of_nat (length data)\<rparr>) w;
          w = on_client slot (\<lambda>c. c\<lparr>sc_lastRxTime := ck_rxSec ck\<rparr>) w
      in if length data = 0 then w
         else
           let w = (if data ! 0 = MESSAGE_BUNDLE
                    then on_stats (\<lambda>s. s\<lparr>st_rxBundles := st_rxBundles s + 1\<rparr>) w
                    else if data ! 0 = MESSAGE_BUNDLE_SIGNED
                    then on_stats (\<lambda>s. s\<lparr>st_rxSignedBundles := st_rxSignedBundles s + 1\<rparr>) w
                    else w);
               signedBundle = (data ! 0 = MESSAGE_BUNDLE_SIGNED)
           in if signedBundle \<and>
                 \<not> verifySignedBundle hm data (string_bytes (cr_appToken (sc_creds (client slot w)))) then
                on_stats (\<lambda>s. s\<lparr>st_rxHmacFailures := st_rxHmacFailures s + 1\<rparr>) w
              else
                let (ms, ok) = forEachMessage data;
                    w = fold (handle_message hm cfg ck signedBundle slot) (enumerate 0 ms) w
                in if \<not> ok then on_stats (\<lambda>s. s\<lparr>st_rxMalformed := st_rxMalformed s + 1\<rparr>) w else w)"

text \<open>\<open>drain_loop\<close>: what \<^verbatim>\<open>recv\<close> answers, until it has nothing left or the socket is gone.\<close>

fun drain_loop :: "hmac_fn \<Rightarrow> Config \<Rightarrow> nat \<Rightarrow> Recv list \<Rightarrow> Worker \<Rightarrow> Worker" where
  "drain_loop hm cfg slot [] w = w"
| "drain_loop hm cfg slot (RAgain # rs) w = w"
| "drain_loop hm cfg slot (RRefused # rs) w = drain_loop hm cfg slot rs w"
| "drain_loop hm cfg slot (RFailed # rs) w = w"
| "drain_loop hm cfg slot (RDatagram data ck # rs) w =
     (if sc_state (client slot w) \<noteq> ACTIVE then drain_loop hm cfg slot rs w
      else let w = handleDatagram hm cfg ck data slot w
           in if sc_fd (client slot w) < 0 then w else drain_loop hm cfg slot rs w)"

definition drainSocket :: "hmac_fn \<Rightarrow> Config \<Rightarrow> nat \<Rightarrow> Recv list \<Rightarrow> Worker \<Rightarrow> Worker" where
  "drainSocket hm cfg slot rs w =
     (if sc_fd (client slot w) < 0 then w else drain_loop hm cfg slot rs w)"

section \<open>Sending\<close>

definition silent :: "Config \<Rightarrow> double \<Rightarrow> SimClient \<Rightarrow> bool" where
  "silent cfg nowSec c \<longleftrightarrow> cf_rxSilentReassignSec cfg > 0 \<and>
     fsub nowSec (sc_lastRxTime c) > int_to_f64 (cf_rxSilentReassignSec cfg)"

definition next_send :: "double \<Rightarrow> double \<Rightarrow> SimClient \<Rightarrow> SimClient" where
  "next_send interval nowSec c =
     (let t = fadd (sc_lastSendTime c) interval
      in c\<lparr>sc_lastSendTime := (if fsub nowSec t > interval then nowSec else t)\<rparr>)"

definition request_refresh :: "Config \<Rightarrow> Tick \<Rightarrow> nat \<Rightarrow> Worker \<Rightarrow> Worker" where
  "request_refresh cfg tk slot w =
     (let c = client slot w in
      if \<not> sc_refreshRequested c \<and>
         tk_sysNs tk + cf_tokenRefreshLeadSec cfg * 1000000000 \<ge> cr_tokenExpiresAt (sc_creds c) then
        let w = on_client slot (\<lambda>c. c\<lparr>sc_refreshRequested := True\<rparr>) w
        in w\<lparr>wk_control := queue_push \<lparr>rq_workerIndex = wk_index w, rq_clientIndex = slot,
               rq_kind = REFRESH, rq_creds = sc_creds (client slot w)\<rparr> (wk_control w)\<rparr>
      else w)"

definition advertise :: "hmac_fn \<Rightarrow> Config \<Rightarrow> Tick \<Rightarrow> nat \<Rightarrow> Worker \<Rightarrow> Worker" where
  "advertise hm cfg tk slot w =
     (let c = client slot w; nowSec = tk_nowSec tk in
      if cf_clientCaps cfg \<and> fsub nowSec (sc_lastCapsTime c) \<ge> int_to_f64 (cf_capsIntervalSec cfg) then
        let (ok, caps) = buildCapabilities hm (word_of_int (cf_appId cfg)) (cr_gameTokenId (sc_creds c))
              CAP_BUNDLE_SIGNED (sc_sequence c) (string_bytes (cr_appToken (sc_creds c)))
              (replicate CAPABILITIES_SIZE 0);
            w = on_client slot (\<lambda>c. c\<lparr>sc_lastCapsTime := nowSec, sc_sequence := sc_sequence c + 1\<rparr>) w
        in if ok \<and> tk_sendCaps tk slot = int CAPABILITIES_SIZE
           then on_stats (\<lambda>s. s\<lparr>st_txCapabilities := st_txCapabilities s + 1\<rparr>) w else w
      else w)"

definition after_send :: "Config \<Rightarrow> int \<Rightarrow> nat \<Rightarrow> Worker \<Rightarrow> Worker" where
  "after_send cfg n slot w =
     (if n = int (messageSize cfg) then
        on_client slot (\<lambda>c. c\<lparr>sc_consecutiveSendErrors := 0\<rparr>)
          (on_stats (\<lambda>s. s\<lparr>st_txPackets := st_txPackets s + 1,
                           st_txBytes := st_txBytes s + of_nat (messageSize cfg)\<rparr>) w)
      else
        let w = on_stats (\<lambda>s. s\<lparr>st_txSendErrors := st_txSendErrors s + 1\<rparr>) w;
            w = on_client slot (\<lambda>c. c\<lparr>sc_consecutiveSendErrors := sc_consecutiveSendErrors c + 1\<rparr>) w
        in if sc_consecutiveSendErrors (client slot w) \<ge> 3 * cf_updateHz cfg
           then suspendClient REASSIGN slot (on_client slot (\<lambda>c. c\<lparr>sc_consecutiveSendErrors := 0\<rparr>) w)
           else w)"

definition send_client ::
  "hmac_fn \<Rightarrow> (double \<Rightarrow> double \<Rightarrow> double) \<Rightarrow> Config \<Rightarrow> Tick \<Rightarrow> nat \<Rightarrow> Worker \<Rightarrow> Worker option" where
  "send_client hm at2 cfg tk slot w =
     (let c = client slot w; nowSec = tk_nowSec tk; interval = fdiv 1 (int_to_f64 (cf_updateHz cfg)) in
      if sc_state c \<noteq> ACTIVE then Some w
      else if silent cfg nowSec c then
        Some (suspendClient REASSIGN slot
                (on_stats (\<lambda>s. s\<lparr>st_rxSilentReassigns := st_rxSilentReassigns s + 1\<rparr>) w))
      else if fsub nowSec (sc_lastSendTime c) < interval then Some w
      else
        let w = on_client slot (next_send interval nowSec) w;
            w = request_refresh cfg tk slot w;
            w = advertise hm cfg tk slot w
        in case updateWalk at2 cfg (tk_walk tk slot) nowSec (client slot w) of
             None \<Rightarrow> None
           | Some c \<Rightarrow>
               let (ok, c) = buildUpdate hm at2 cfg (tk_updateMs tk slot) c;
                   w = on_client slot (\<lambda>_. c) w
               in Some (if \<not> ok then on_stats (\<lambda>s. s\<lparr>st_txSendErrors := st_txSendErrors s + 1\<rparr>) w
                        else after_send cfg (tk_send tk slot) slot w))"

definition sendDueUpdates ::
  "hmac_fn \<Rightarrow> (double \<Rightarrow> double \<Rightarrow> double) \<Rightarrow> Config \<Rightarrow> Tick \<Rightarrow> Worker \<Rightarrow> Worker option" where
  "sendDueUpdates hm at2 cfg tk w = each (send_client hm at2 cfg tk) [0..<length (wk_clients w)] w"

section \<open>One turn of the loop\<close>

definition worker_tick ::
  "hmac_fn \<Rightarrow> (double \<Rightarrow> double \<Rightarrow> double) \<Rightarrow> Config \<Rightarrow> Tick \<Rightarrow> Worker \<Rightarrow> Worker option" where
  "worker_tick hm at2 cfg tk w =
     (case activateDueClients cfg tk (applyPendingUpdates cfg (applyPendingClients w)) of
        None \<Rightarrow> None
      | Some w \<Rightarrow>
          map_option (fold (\<lambda>(slot, rs). drainSocket hm cfg slot rs) (tk_events tk))
            (sendDueUpdates hm at2 cfg tk w))"

text \<open>
  What happens to a worker: clients are queued, updates are posted for its slots, its loop
  turns (with events for its slots and the descriptors the system hands out), the control
  thread takes a request.
\<close>

inductive worker_step ::
  "hmac_fn \<Rightarrow> (double \<Rightarrow> double \<Rightarrow> double) \<Rightarrow> Config \<Rightarrow> Worker \<Rightarrow> Worker \<Rightarrow> bool"
  for hm at2 cfg where
  add: "worker_step hm at2 cfg w (addClient creds activateAt w)"
| post: "cu_clientIndex u < length (wk_clients w) \<Longrightarrow> worker_step hm at2 cfg w (postUpdate u w)"
| tick: "(\<forall>(slot, rs) \<in> set (tk_events tk). slot < length (wk_clients w) + length (wk_pending w)) \<Longrightarrow>
     worker_tick hm at2 cfg tk w = Some w' \<Longrightarrow> worker_step hm at2 cfg w w'"
| pop: "queue_pop (wk_control w) = Popped req q \<Longrightarrow> worker_step hm at2 cfg w (w\<lparr>wk_control := q\<rparr>)"

section \<open>The invariant\<close>

text \<open>
  A client holds a socket exactly while it is active, and its buffers have their lengths. The
  gauges exceed the worker's own clients by constants: what the other workers contribute.
  Every update and every request names an existing slot.
\<close>

definition client_ok :: "SimClient \<Rightarrow> bool" where
  "client_ok c \<longleftrightarrow> (sc_fd c \<ge> 0 \<longleftrightarrow> sc_state c = ACTIVE) \<and> length (sc_uuid c) = 32 \<and>
     length (sc_message c) = ACTOR_UPDATE_MAX_SIZE"

definition count_state :: "State \<Rightarrow> Worker \<Rightarrow> int" where
  "count_state s w = int (length (filter (\<lambda>c. sc_state c = s) (wk_clients w)))"

definition worker_ok :: "int \<Rightarrow> int \<Rightarrow> Worker \<Rightarrow> bool" where
  "worker_ok others_active others_suspended w \<longleftrightarrow>
     list_all client_ok (wk_clients w) \<and>
     st_activeClients (wk_stats w) = others_active + count_state ACTIVE w \<and>
     st_suspendedClients (wk_stats w) = others_suspended + count_state SUSPENDED w \<and>
     list_all (\<lambda>u. cu_clientIndex u < length (wk_clients w)) (wk_inbox w) \<and>
     list_all (\<lambda>r. rq_workerIndex r = wk_index w \<longrightarrow> rq_clientIndex r < length (wk_clients w))
       (cq_queue (wk_control w))"

section \<open>Frames\<close>

lemma on_client_simps [simp]:
  "length (wk_clients (on_client slot f w)) = length (wk_clients w)"
  "wk_stats (on_client slot f w) = wk_stats w" "wk_control (on_client slot f w) = wk_control w"
  "wk_inbox (on_client slot f w) = wk_inbox w" "wk_index (on_client slot f w) = wk_index w"
  "wk_pending (on_client slot f w) = wk_pending w" "wk_clientCount (on_client slot f w) = wk_clientCount w"
  by (simp_all add: on_client_def)

lemma on_stats_simps [simp]:
  "wk_clients (on_stats g w) = wk_clients w" "client slot (on_stats g w) = client slot w"
  "wk_stats (on_stats g w) = g (wk_stats w)" "wk_control (on_stats g w) = wk_control w"
  "wk_inbox (on_stats g w) = wk_inbox w" "wk_index (on_stats g w) = wk_index w"
  "wk_pending (on_stats g w) = wk_pending w" "wk_clientCount (on_stats g w) = wk_clientCount w"
  by (simp_all add: on_stats_def client_def)

lemma client_on_client [simp]:
  "slot < length (wk_clients w) \<Longrightarrow> client slot (on_client slot f w) = f (client slot w)"
  by (simp add: on_client_def client_def)

lemma wk_clients_on_client: "wk_clients (on_client slot f w) = (wk_clients w)[slot := f (client slot w)]"
  by (simp add: on_client_def client_def)

lemma on_client_twice:
  "slot < length (wk_clients w) \<Longrightarrow> on_client slot f (on_client slot g w) = on_client slot (\<lambda>c. f (g c)) w"
  by (simp add: on_client_def)

lemma closeSocket_simps [simp]:
  "sc_state (closeSocket c) = sc_state c" "sc_creds (closeSocket c) = sc_creds c"
  "sc_uuid (closeSocket c) = sc_uuid c" "sc_message (closeSocket c) = sc_message c" "sc_fd (closeSocket c) < 0"
  by (simp_all add: closeSocket_def)

lemma count_update:
  assumes "i < length xs"
  shows "int (length (filter P (xs[i := x]))) =
     int (length (filter P xs)) - (if P (xs ! i) then 1 else 0) + (if P x then 1 else 0)"
proof -
  have "xs[i := x] = take i xs @ x # drop (Suc i) xs" by (rule upd_conv_take_nth_drop [OF assms])
  moreover have "filter P xs = filter P (take i xs) @ filter P [xs ! i] @ filter P (drop (Suc i) xs)"
    by (metis assms append_Cons append_Nil filter_append id_take_nth_drop)
  ultimately show ?thesis by simp
qed

text \<open>The one lemma behind every operation: replacing one client, with the gauges following.\<close>

lemma worker_ok_replace:
  assumes ok: "worker_ok a b w" and slot: "slot < length (wk_clients w)"
    and cs: "wk_clients w' = (wk_clients w)[slot := c']" and c': "client_ok c'"
    and act: "st_activeClients (wk_stats w') = st_activeClients (wk_stats w)
        - (if sc_state (client slot w) = ACTIVE then 1 else 0) + (if sc_state c' = ACTIVE then 1 else 0)"
    and sus: "st_suspendedClients (wk_stats w') = st_suspendedClients (wk_stats w)
        - (if sc_state (client slot w) = SUSPENDED then 1 else 0) + (if sc_state c' = SUSPENDED then 1 else 0)"
    and frame: "wk_inbox w' = wk_inbox w" "wk_index w' = wk_index w"
    and queue: "cq_queue (wk_control w') = cq_queue (wk_control w) \<or>
        (\<exists>r. cq_queue (wk_control w') = cq_queue (wk_control w) @ [r] \<and> rq_clientIndex r = slot)"
  shows "worker_ok a b w'"
proof -
  have "list_all client_ok (wk_clients w')"
    using ok slot c' by (auto simp: worker_ok_def cs list_all_length nth_list_update)
  moreover have "count_state s w' = count_state s w - (if sc_state (client slot w) = s then 1 else 0)
      + (if sc_state c' = s then 1 else 0)" for s
    using count_update [OF slot, of "\<lambda>c. sc_state c = s" c'] by (simp add: count_state_def cs client_def)
  ultimately show ?thesis using ok act sus frame queue slot
    by (auto simp: worker_ok_def cs)
qed

lemma worker_ok_on_client:
  assumes "worker_ok a b w" "slot < length (wk_clients w)"
    and "client_ok (f (client slot w))" "sc_state (f (client slot w)) = sc_state (client slot w)"
  shows "worker_ok a b (on_client slot f w)"
  using assms by (intro worker_ok_replace [OF assms(1,2), of _ "f (client slot w)"]) (simp_all add: wk_clients_on_client)

definition gauges_kept :: "(Stats \<Rightarrow> Stats) \<Rightarrow> bool" where
  "gauges_kept g \<longleftrightarrow> (\<forall>s. st_activeClients (g s) = st_activeClients s \<and> st_suspendedClients (g s) = st_suspendedClients s)"

lemma worker_ok_on_stats: "worker_ok a b w \<Longrightarrow> gauges_kept g \<Longrightarrow> worker_ok a b (on_stats g w)"
  by (simp add: worker_ok_def gauges_kept_def count_state_def)

lemma client_ok_nth: "worker_ok a b w \<Longrightarrow> slot < length (wk_clients w) \<Longrightarrow> client_ok (client slot w)"
  by (simp add: worker_ok_def list_all_length client_def)

section \<open>Suspending\<close>

lemma suspendClient_alt:
  assumes "slot < length (wk_clients w)" "sc_state (client slot w) \<noteq> SUSPENDED"
  shows "suspendClient kind slot w =
     (on_stats (\<lambda>s. s\<lparr>st_activeClients := st_activeClients s - (if sc_state (client slot w) = ACTIVE then 1 else 0),
                      st_suspendedClients := st_suspendedClients s + 1\<rparr>)
       (on_client slot (\<lambda>c. (closeSocket c)\<lparr>sc_state := SUSPENDED\<rparr>) w))
     \<lparr>wk_control := queue_push \<lparr>rq_workerIndex = wk_index w, rq_clientIndex = slot, rq_kind = kind,
         rq_creds = sc_creds (client slot w)\<rparr> (wk_control w)\<rparr>"
  using assms
  by (simp add: suspendClient_def Let_def on_client_def on_stats_def client_def)

lemma length_suspend [simp]: "length (wk_clients (suspendClient kind slot w)) = length (wk_clients w)"
  by (simp add: suspendClient_def Let_def)

lemma worker_ok_suspend:
  assumes ok: "worker_ok a b w" and slot: "slot < length (wk_clients w)"
  shows "worker_ok a b (suspendClient kind slot w)"
proof (cases "sc_state (client slot w) = SUSPENDED")
  case True
  then show ?thesis using ok by (simp add: suspendClient_def)
next
  case False
  note alt = suspendClient_alt [OF slot False, of kind]
  have "client_ok ((closeSocket (client slot w))\<lparr>sc_state := SUSPENDED\<rparr>)"
    using client_ok_nth [OF ok slot] by (simp add: client_ok_def closeSocket_def)
  then show ?thesis unfolding alt using False
    by (intro worker_ok_replace [OF ok slot, of _ "(closeSocket (client slot w))\<lparr>sc_state := SUSPENDED\<rparr>"])
       (simp_all add: wk_clients_on_client queue_push_def)
qed

definition kept :: "SimClient \<Rightarrow> SimClient \<Rightarrow> bool" where
  "kept c c' \<longleftrightarrow> sc_creds c' = sc_creds c \<and> sc_state c' = sc_state c \<and> sc_fd c' = sc_fd c \<and>
     sc_refreshRequested c' = sc_refreshRequested c \<and> (length (sc_uuid c) = 32 \<longrightarrow> length (sc_uuid c') = 32) \<and>
     length (sc_message c') = length (sc_message c)"

lemma kept_refl [simp]: "kept c c" by (simp add: kept_def)
lemma kept_trans: "kept a b \<Longrightarrow> kept b c \<Longrightarrow> kept a c" by (simp add: kept_def)

lemma kept_axes [simp]:
  "kept c (set_h1 v c)" "kept c (set_h2 cfg v c)" "kept c (set_up cfg v c)"
  "kept c (set_d1 v c)" "kept c (set_d2 cfg v c)" "kept c (set_dup cfg v c)"
  "kept c (head_along at2 cfg v c)" "kept c (projectPose cfg c)"
  by (simp_all add: kept_def axes_defs head_along_def projectPose_def Let_def)

lemma kept_moves:
  "kept c (step_h1 dt v c)" "kept c (step_h2 cfg dt v c)" "kept c (step_up cfg dt v c)"
  "kept c (bounce_h1 lo hi c)" "kept c (bounce_h2 cfg lo hi c)" "kept c (bounce_up cfg lo hi c)"
  by (simp_all add: step_h1_def step_h2_def step_up_def bounce_h1_def bounce_h2_def bounce_up_def
      kept_def axes_defs case_prod_beta)

lemma kept_walk_sparse: "kept c (walk_sparse at2 cfg dt c)"
  unfolding walk_sparse_def Let_def
  by (intro kept_trans [OF _ kept_axes(7)] kept_trans [OF _ kept_moves(5)] kept_trans [OF _ kept_moves(4)]
      kept_trans [OF _ kept_moves(2)] kept_moves)

lemma kept_walk_plane: "kept c (walk_plane at2 cfg dt c)"
proof -
  let ?v = "effectiveWalkSpeed cfg"
  have 1: "kept c (head_along at2 cfg ?v (step_h2 cfg dt ?v (step_h1 dt ?v c)))"
    by (intro kept_trans [OF _ kept_axes(7)] kept_trans [OF _ kept_moves(2)] kept_moves)
  then have "kept c (set_d2 cfg x (set_d1 y (head_along at2 cfg ?v (step_h2 cfg dt ?v (step_h1 dt ?v c)))))" for x y
    by (intro kept_trans [OF _ kept_axes(5)] kept_trans [OF _ kept_axes(4)])
  with 1 show ?thesis by (simp add: walk_plane_def Let_def)
qed

lemma kept_walk_cube:
  assumes "walk_cube at2 cfg dr nowSec dt c = Some c'"
  shows "kept c c'"
proof -
  let ?v = "effectiveWalkSpeed cfg"
  define b where "b = bounce_up cfg (cube_umin cfg) (cube_umax cfg) (bounce_h2 cfg (cube_hmin cfg) (cube_hmax cfg)
    (bounce_h1 (cube_hmin cfg) (cube_hmax cfg) (step_up cfg dt ?v (step_h2 cfg dt ?v (step_h1 dt ?v c)))))"
  have b: "kept c b" unfolding b_def
    by (intro kept_trans [OF _ kept_moves(6)] kept_trans [OF _ kept_moves(5)] kept_trans [OF _ kept_moves(4)]
        kept_trans [OF _ kept_moves(3)] kept_trans [OF _ kept_moves(2)] kept_moves)
  from assms obtain a where a: "(if nowSec \<ge> sc_reaimAt b
        then map_option (\<lambda>c. c\<lparr>sc_reaimAt := fadd nowSec (dr_reaim dr)\<rparr>) (randomizeDirection3D (dr_dirs dr) b)
        else Some b) = Some a" and c': "c' = head_along at2 cfg ?v a"
    unfolding walk_cube_def Let_def b_def [symmetric] by auto
  from a have "kept b a"
    by (auto simp: kept_def randomizeDirection3D_def split: if_splits option.splits)
  with b c' show ?thesis by (blast intro: kept_trans kept_axes(7))
qed

lemma kept_walk:
  assumes "updateWalk at2 cfg dr nowSec c = Some c'"
  shows "kept c c'"
proof -
  let ?m = "c\<lparr>sc_lastMoveTime := nowSec\<rparr>"
  have m: "kept c ?m" by (simp add: kept_def)
  show ?thesis
  proof (cases "fsub nowSec (sc_lastMoveTime c) \<le> 0")
    case True
    with assms m show ?thesis by (auto simp: updateWalk_def)
  next
    case False
    with assms obtain p where p: "kept ?m p" "c' = projectPose cfg p"
      by (auto simp: updateWalk_def Let_def split: if_splits intro: kept_walk_sparse kept_walk_plane kept_walk_cube)
    then show ?thesis using m by (metis kept_trans kept_axes(8))
  qed
qed

lemma kept_build: "buildUpdate hm at2 cfg nowMs c = (ok, c') \<Longrightarrow> kept c c'"
  by (auto simp: buildUpdate_def Let_def kept_def finalizeActorUpdateFmt_def access_defs split: prod.splits if_splits option.splits)

lemma client_ok_kept: "client_ok c \<Longrightarrow> kept c c' \<Longrightarrow> client_ok c'"
  by (simp add: client_ok_def kept_def)

section \<open>Every operation keeps the invariant\<close>

lemma fold_preserves:
  assumes "\<And>x s. x \<in> set xs \<Longrightarrow> P s \<Longrightarrow> P (f x s)"
  shows "P s \<Longrightarrow> P (fold f xs s)"
  using assms by (induction xs arbitrary: s) auto

lemma each_preserves:
  assumes "\<And>x s s'. x \<in> set xs \<Longrightarrow> P s \<Longrightarrow> f x s = Some s' \<Longrightarrow> P s'"
  shows "P s \<Longrightarrow> each f xs s = Some s' \<Longrightarrow> P s'"
  using assms
proof (induction xs arbitrary: s)
  case (Cons x xs)
  from Cons.prems(2) obtain t where t: "f x s = Some t" "each f xs t = Some s'" by (auto split: option.splits)
  from Cons.prems(1,3) t(1) have "P t" by auto
  then show ?case using t(2) Cons.prems(3) by (intro Cons.IH) auto
qed simp

lemma init_flag:
  assumes "initSimulation cfg dr nowSec c = Some c'"
  shows "sc_refreshRequested c' = sc_refreshRequested c"
proof -
  obtain p where p: "initial_place cfg dr nowSec c = Some p"
    and c': "c' = projectPose cfg (rebuildTemplate cfg ((generateUuid (dr_uuid dr) p)\<lparr>sc_lastMoveTime := nowSec,
        sc_lastSendTime := fadd (fsub nowSec (fdiv 1 (int_to_f64 (cf_updateHz cfg)))) (fmul (dr_off dr) (fdiv 1 (int_to_f64 (cf_updateHz cfg)))),
        sc_sequence := 0\<rparr>))"
    using assms by (auto simp: initSimulation_def Let_def)
  have "sc_refreshRequested p = sc_refreshRequested c" using p
    by (auto simp: initial_place_def Let_def randomizeDirection_def randomizeDirection3D_def placeSparse_def
        placeInCube_def axes_defs case_prod_beta split: if_splits option.splits)
  then show ?thesis by (simp add: c' generateUuid_def rebuildTemplate_def)
qed

lemma kept_init: "initSimulation cfg dr nowSec c = Some c' \<Longrightarrow> kept c c'"
  by (simp add: kept_def init_frame init_flag)

text \<open>The operations of one turn, for any property that their parts keep: first what receives.\<close>

locale worker_receives =
  fixes P :: "Worker \<Rightarrow> bool" and S :: "nat set"
  assumes slot: "P w \<Longrightarrow> s \<in> S \<Longrightarrow> s < length (wk_clients w)"
    and stats: "P w \<Longrightarrow> gauges_kept g \<Longrightarrow> P (on_stats g w)"
    and client_kept: "P w \<Longrightarrow> s \<in> S \<Longrightarrow> kept (client s w) (f (client s w)) \<Longrightarrow> P (on_client s f w)"
    and reassign: "P w \<Longrightarrow> s \<in> S \<Longrightarrow> P (suspendClient REASSIGN s w)"
    and refresh: "P w \<Longrightarrow> s \<in> S \<Longrightarrow> \<not> sc_refreshRequested (client s w) \<Longrightarrow>
      P (suspendClient REFRESH s (on_client s (\<lambda>c. c\<lparr>sc_refreshRequested := True\<rparr>) w))"
begin

lemmas parts = stats client_kept reassign refresh

lemma classify: "P w \<Longrightarrow> s \<in> S \<Longrightarrow> P (snd (classify_refusal cfg ck i code s w))"
  by (simp add: classify_refusal_def Let_def gauges_kept_def kept_def parts)

lemma react: "P w \<Longrightarrow> s \<in> S \<Longrightarrow> P (react_to_code cfg code s w)"
  by (simp add: react_to_code_def Let_def kept_def parts)

lemma error: "P w \<Longrightarrow> s \<in> S \<Longrightarrow> P (handle_error cfg ck i m s w)"
  by (simp add: handle_error_def Let_def case_prod_beta gauges_kept_def kept_def parts react classify)

lemma spatial: "P w \<Longrightarrow> P (handle_spatial hm cfg ck m s w)"
  by (simp add: handle_spatial_def Let_def gauges_kept_def parts recordLatencyMs_def split: option.split)

lemma message: "P w \<Longrightarrow> s \<in> S \<Longrightarrow> P (handle_message hm cfg ck sb s im w)"
  by (simp add: handle_message_def Let_def case_prod_beta gauges_kept_def parts error spatial)

lemma messages: "P w \<Longrightarrow> s \<in> S \<Longrightarrow> P (fold (handle_message hm cfg ck sb s) ms w)"
  by (rule fold_preserves) (rule message)

lemma datagram: "P w \<Longrightarrow> s \<in> S \<Longrightarrow> P (handleDatagram hm cfg ck data s w)"
  by (simp add: handleDatagram_def Let_def case_prod_beta gauges_kept_def kept_def parts messages)

lemma drain: "P w \<Longrightarrow> s \<in> S \<Longrightarrow> P (drainSocket hm cfg s rs w)"
proof -
  have "P (drain_loop hm cfg s rs w)" if "P w" "s \<in> S"
    using that by (induction hm cfg s rs w rule: drain_loop.induct) (simp_all add: Let_def datagram)
  then show "P w \<Longrightarrow> s \<in> S \<Longrightarrow> P (drainSocket hm cfg s rs w)" by (simp add: drainSocket_def)
qed

end

text \<open>Then what sends and activates, over all slots.\<close>

locale worker_turn = worker_receives +
  assumes slots: "P w \<Longrightarrow> S = {..<length (wk_clients w)}"
    and ask: "P w \<Longrightarrow> s \<in> S \<Longrightarrow> \<not> sc_refreshRequested (client s w) \<Longrightarrow>
      v = on_client s (\<lambda>c. c\<lparr>sc_refreshRequested := True\<rparr>) w \<Longrightarrow>
      P (v\<lparr>wk_control := queue_push \<lparr>rq_workerIndex = wk_index w, rq_clientIndex = s, rq_kind = REFRESH,
           rq_creds = sc_creds (client s w)\<rparr> (wk_control w)\<rparr>)"
    and activated: "P w \<Longrightarrow> s \<in> S \<Longrightarrow> sc_state (client s w) = WAITING \<Longrightarrow> 0 \<le> fd \<Longrightarrow>
      P (on_stats (\<lambda>s. s\<lparr>st_activeClients := st_activeClients s + 1\<rparr>)
           (on_client s (\<lambda>c. c\<lparr>sc_fd := fd, sc_state := ACTIVE\<rparr>) w))"
begin

lemma asking: "P w \<Longrightarrow> s \<in> S \<Longrightarrow> P (request_refresh cfg tk s w)"
  using ask [OF _ _ _ refl] slot by (simp add: request_refresh_def Let_def)

lemma advertising: "P w \<Longrightarrow> s \<in> S \<Longrightarrow> P (advertise hm cfg tk s w)"
  by (simp add: advertise_def Let_def case_prod_beta gauges_kept_def kept_def parts)

lemma after_sending: "P w \<Longrightarrow> s \<in> S \<Longrightarrow> P (after_send cfg n s w)"
  by (simp add: after_send_def Let_def gauges_kept_def kept_def parts)

lemma sending:
  assumes P: "P w" and s: "s \<in> S" and r: "send_client hm at2 cfg tk s w = Some w'"
  shows "P w'"
proof -
  let ?i = "fdiv 1 (int_to_f64 (cf_updateHz cfg))"
  define v where "v = advertise hm cfg tk s (request_refresh cfg tk s (on_client s (next_send ?i (tk_nowSec tk)) w))"
  have "P (on_client s (next_send ?i (tk_nowSec tk)) w)"
    using P s by (rule client_kept) (simp add: next_send_def Let_def kept_def)
  with s have v: "P v" unfolding v_def by (intro advertising asking)
  have sent: "P (on_client s (\<lambda>_. c') v)"
    if "updateWalk at2 cfg (tk_walk tk s) (tk_nowSec tk) (client s v) = Some c"
      "buildUpdate hm at2 cfg (tk_updateMs tk s) c = (x, c')" for c x c'
    by (rule client_kept [OF v s]) (rule kept_trans [OF kept_walk [OF that(1)] kept_build [OF that(2)]])
  show ?thesis using r P s sent unfolding send_client_def Let_def v_def [symmetric]
    by (auto simp: gauges_kept_def split: if_splits option.splits prod.splits
        intro!: stats reassign after_sending)
qed

lemma activating:
  assumes P: "P w" and s: "s \<in> S" and r: "activate_client cfg tk s w = Some w'"
  shows "P w'"
proof (cases "sc_state (client s w) \<noteq> WAITING \<or> tk_now tk < sc_activateAt (client s w) \<or>
    tk_now tk < cr_udpReadyAt (sc_creds (client s w))")
  case True
  then show ?thesis using P r by (auto simp: activate_client_def Let_def split: if_splits)
next
  case False
  define due where "due = (if sc_uuid (client s w) ! 0 = 0 then initSimulation cfg (tk_draws tk s) (tk_nowSec tk) (client s w)
              else Some (resume_timing (tk_nowSec tk) (client s w)))"
  from r False obtain c where c: "due = Some c" by (auto simp: activate_client_def Let_def due_def split: option.splits if_splits)
  then have "kept (client s w) c" by (auto simp: due_def kept_init kept_def resume_timing_def split: if_splits dest: kept_init)
  then have k: "kept (client s w) (arm_client (tk_now tk) (tk_nowSec tk) c)" by (simp add: kept_def arm_client_def)
  define v where "v = on_client s (\<lambda>_. arm_client (tk_now tk) (tk_nowSec tk) c) w"
  have v: "P v" unfolding v_def by (rule client_kept [OF P s k])
  have vs: "sc_state (client s v) = WAITING"
    using False k slot [OF P s] by (simp add: v_def kept_def)
  define x where "x = openSocket cfg (tk_open tk s) s v"
  define u where "u = (if cf_socketRcvbufBytes cfg > 0 \<and> \<not> oa_setsockopt (tk_open tk s)
      then on_stats (\<lambda>s. s\<lparr>st_rcvbufSetFailures := st_rcvbufSetFailures s + 1\<rparr>) v else v)"
  have u: "P u" "sc_state (client s u) = WAITING" using v vs by (simp_all add: u_def gauges_kept_def stats)
  have w': "w' = (if \<not> fst x then suspendClient REASSIGN s (snd x)
      else on_stats (\<lambda>s. s\<lparr>st_activeClients := st_activeClients s + 1\<rparr>) (on_client s (\<lambda>c. c\<lparr>sc_state := ACTIVE\<rparr>) (snd x)))"
    using r c False unfolding activate_client_def Let_def due_def [symmetric] v_def x_def
    by (auto simp: case_prod_beta)
  have "\<not> fst x \<Longrightarrow> snd x = v \<or> snd x = u" "fst x \<Longrightarrow> 0 \<le> oa_socket (tk_open tk s) \<and>
      snd x = on_client s (\<lambda>c. c\<lparr>sc_fd := oa_socket (tk_open tk s)\<rparr>) u"
    by (auto simp: x_def openSocket_def u_def Let_def)
  then show ?thesis using w' u v s slot [OF u(1) s] activated [OF u(1) s u(2), of "oa_socket (tk_open tk s)"] reassign
    by (cases "fst x") (auto simp: on_client_twice)
qed

lemma all_slots:
  assumes "P w" "each f [0..<length (wk_clients w)] w = Some w'"
    and "\<And>s v v'. P v \<Longrightarrow> s \<in> S \<Longrightarrow> f s v = Some v' \<Longrightarrow> P v'"
  shows "P w'"
  by (rule each_preserves [where P = P, OF _ assms(1,2)]) (use slots [OF assms(1)] assms(3) in auto)

lemma turn:
  assumes "P w" "activateDueClients cfg tk w = Some v" "sendDueUpdates hm at2 cfg tk v = Some x"
    and "\<forall>(s, rs) \<in> set (tk_events tk). s \<in> S"
  shows "P (fold (\<lambda>(s, rs). drainSocket hm cfg s rs) (tk_events tk) x)"
proof -
  have "P v" using assms(1,2) unfolding activateDueClients_def by (rule all_slots) (rule activating)
  then have "P x" using assms(3) unfolding sendDueUpdates_def by (rule all_slots) (rule sending)
  then show ?thesis
    by (rule fold_preserves [of "tk_events tk" P, rotated]) (use assms(4) in \<open>auto intro: drain\<close>)
qed

end

section \<open>Every operation keeps the invariant\<close>

text \<open>The invariant together with the number of clients, which only additions change.\<close>

definition ok_n :: "int \<Rightarrow> int \<Rightarrow> nat \<Rightarrow> Worker \<Rightarrow> bool" where
  "ok_n a b n w \<longleftrightarrow> worker_ok a b w \<and> length (wk_clients w) = n"

lemma ok_n_client_ok: "ok_n a b n w \<Longrightarrow> slot < n \<Longrightarrow> client_ok (client slot w)"
  by (auto simp: ok_n_def intro: client_ok_nth)

lemma ok_n_client:
  "ok_n a b n w \<Longrightarrow> slot < n \<Longrightarrow> client_ok (f (client slot w)) \<Longrightarrow>
     sc_state (f (client slot w)) = sc_state (client slot w) \<Longrightarrow> ok_n a b n (on_client slot f w)"
  by (auto simp: ok_n_def intro: worker_ok_on_client)

lemma ok_n_flag: "ok_n a b n w \<Longrightarrow> slot < n \<Longrightarrow> ok_n a b n (on_client slot (\<lambda>c. c\<lparr>sc_refreshRequested := True\<rparr>) w)"
  by (rule ok_n_client) (auto simp: client_ok_def dest: ok_n_client_ok)

lemma ok_n_suspend: "ok_n a b n w \<Longrightarrow> slot < n \<Longrightarrow> ok_n a b n (suspendClient kind slot w)"
  by (auto simp: ok_n_def intro: worker_ok_suspend)

lemma ok_n_push:
  assumes "ok_n a b n w" "rq_clientIndex r < n"
  shows "ok_n a b n (w\<lparr>wk_control := queue_push r (wk_control w)\<rparr>)"
  using assms by (auto simp: ok_n_def worker_ok_def queue_push_def count_state_def)

lemma ok_n_swap:
  assumes "ok_n a b n w" "slot < n" "client_ok c'"
    and "wk_clients w' = (wk_clients w)[slot := c']"
    and "st_activeClients (wk_stats w') = st_activeClients (wk_stats w)
        - (if sc_state (client slot w) = ACTIVE then 1 else 0) + (if sc_state c' = ACTIVE then 1 else 0)"
    and "st_suspendedClients (wk_stats w') = st_suspendedClients (wk_stats w)
        - (if sc_state (client slot w) = SUSPENDED then 1 else 0) + (if sc_state c' = SUSPENDED then 1 else 0)"
    and "wk_inbox w' = wk_inbox w" "wk_index w' = wk_index w" "wk_control w' = wk_control w"
  shows "ok_n a b n w'"
  using assms worker_ok_replace [of a b w slot w' c'] by (auto simp: ok_n_def)

interpretation ok: worker_turn "ok_n a b n" "{..<n}" for a b n
proof
  fix w s f
  assume w: "ok_n a b n w" and s: "s \<in> {..<n}"
  show "s < length (wk_clients w)" using w s by (simp add: ok_n_def)
  show "kept (client s w) (f (client s w)) \<Longrightarrow> ok_n a b n (on_client s f w)"
    using w s by (intro ok_n_client) (auto simp: kept_def intro: client_ok_kept dest: ok_n_client_ok)
  show "ok_n a b n (suspendClient REASSIGN s w)" using w s by (simp add: ok_n_suspend)
  show "ok_n a b n (suspendClient REFRESH s (on_client s (\<lambda>c. c\<lparr>sc_refreshRequested := True\<rparr>) w))"
    using w s by (simp add: ok_n_suspend ok_n_flag)
next
  fix w s v
  assume w: "ok_n a b n w" and s: "s \<in> {..<n}" and v: "v = on_client s (\<lambda>c. c\<lparr>sc_refreshRequested := True\<rparr>) w"
  have "ok_n a b n v" unfolding v using w s by (simp add: ok_n_flag)
  from ok_n_push [OF this, of "\<lparr>rq_workerIndex = wk_index w, rq_clientIndex = s, rq_kind = REFRESH,
      rq_creds = sc_creds (client s w)\<rparr>"] s
  show "ok_n a b n (v\<lparr>wk_control := queue_push \<lparr>rq_workerIndex = wk_index w, rq_clientIndex = s, rq_kind = REFRESH,
      rq_creds = sc_creds (client s w)\<rparr> (wk_control w)\<rparr>)" by (simp add: v)
next
  fix w s and fd :: int
  assume w: "ok_n a b n w" and s: "s \<in> {..<n}" and c: "sc_state (client s w) = WAITING" and fd: "0 \<le> fd"
  let ?c = "(client s w)\<lparr>sc_fd := fd, sc_state := ACTIVE\<rparr>"
  have "client_ok ?c" using ok_n_client_ok [OF w, of s] s fd by (simp add: client_ok_def)
  then show "ok_n a b n (on_stats (\<lambda>s. s\<lparr>st_activeClients := st_activeClients s + 1\<rparr>)
      (on_client s (\<lambda>c. c\<lparr>sc_fd := fd, sc_state := ACTIVE\<rparr>) w))"
    using s c by (intro ok_n_swap [OF w, of s ?c]) (simp_all add: wk_clients_on_client)
qed (auto simp: ok_n_def intro: worker_ok_on_stats)

text \<open>One update, as one replacement of the client.\<close>

definition updated :: "Config \<Rightarrow> ClientCredentials \<Rightarrow> SimClient \<Rightarrow> SimClient" where
  "updated cfg cr c =
     (let d = c\<lparr>sc_creds := cr, sc_refreshRequested := False\<rparr>;
          d = (if cr_gameTokenId cr \<noteq> cr_gameTokenId (sc_creds c) then rebuildTemplate cfg d else d)
      in if sc_state c = WAITING then d
         else (closeSocket d)\<lparr>sc_state := WAITING, sc_activateAt := cr_udpReadyAt cr\<rparr>)"

lemma rebuild_frame [simp]:
  "sc_state (rebuildTemplate cfg c) = sc_state c" "sc_fd (rebuildTemplate cfg c) = sc_fd c"
  "sc_creds (rebuildTemplate cfg c) = sc_creds c" "sc_uuid (rebuildTemplate cfg c) = sc_uuid c"
  "sc_refreshRequested (rebuildTemplate cfg c) = sc_refreshRequested c"
  by (simp_all add: rebuildTemplate_def)

lemma updated_state: "sc_state (updated cfg cr c) = WAITING"
  by (cases "sc_state c") (simp_all add: updated_def Let_def)

lemma updated_ok: "client_ok c \<Longrightarrow> client_ok (updated cfg cr c)"
  by (auto simp: client_ok_def updated_def Let_def closeSocket_def)

lemma apply_update_facts:
  fixes cfg
  assumes "client_ok (client slot w)" "slot < length (wk_clients w)" "slot = cu_clientIndex u" "\<not> cu_failed u"
  defines "w' \<equiv> apply_update cfg u w" and "c \<equiv> client slot w"
  shows "wk_clients w' = (wk_clients w)[slot := updated cfg (cu_creds u) c]"
    "st_activeClients (wk_stats w') = st_activeClients (wk_stats w) - (if sc_state c = ACTIVE then 1 else 0)"
    "st_suspendedClients (wk_stats w') = st_suspendedClients (wk_stats w) - (if sc_state c = SUSPENDED then 1 else 0)"
    "wk_inbox w' = wk_inbox w" "wk_index w' = wk_index w" "wk_control w' = wk_control w" "wk_pending w' = wk_pending w"
proof -
  have len: "slot < length (wk_clients w)" and slot: "cu_clientIndex u = slot" and f: "\<not> cu_failed u" using assms by simp_all
  have idle: "sc_state c = SUSPENDED \<Longrightarrow> sc_fd c < 0" using assms by (auto simp: client_ok_def)
  note unfolds = w'_def apply_update_def Let_def slot f
  show "st_activeClients (wk_stats w') = st_activeClients (wk_stats w) - (if sc_state c = ACTIVE then 1 else 0)"
    "st_suspendedClients (wk_stats w') = st_suspendedClients (wk_stats w) - (if sc_state c = SUSPENDED then 1 else 0)"
    using len by (simp_all add: unfolds c_def)
  show "wk_inbox w' = wk_inbox w" "wk_index w' = wk_index w" "wk_control w' = wk_control w" "wk_pending w' = wk_pending w"
    by (simp_all add: unfolds)
  show "wk_clients w' = (wk_clients w)[slot := updated cfg (cu_creds u) c]"
  proof (cases "sc_state c")
    case WAITING
    then show ?thesis using len by (simp add: unfolds c_def updated_def wk_clients_on_client)
  next
    case ACTIVE
    then show ?thesis using len by (simp add: unfolds c_def updated_def wk_clients_on_client)
  next
    case SUSPENDED
    then show ?thesis using len idle by (simp add: unfolds c_def updated_def wk_clients_on_client closeSocket_def)
  qed
qed

lemma ok_n_update:
  assumes ok: "ok_n a b n w" and slot: "cu_clientIndex u < n"
  shows "ok_n a b n (apply_update cfg u w)"
proof (cases "cu_failed u")
  case True
  then show ?thesis using ok by (simp add: apply_update_def)
next
  case False
  have len: "cu_clientIndex u < length (wk_clients w)" using ok slot by (simp add: ok_n_def)
  note c = ok_n_client_ok [OF ok slot]
  note facts = apply_update_facts [OF c len refl False, of cfg]
  show ?thesis using facts updated_ok [OF c] updated_state [of cfg "cu_creds u" "client (cu_clientIndex u) w"]
    by (intro ok_n_swap [OF ok slot, of "updated cfg (cu_creds u) (client (cu_clientIndex u) w)"]) simp_all
qed

lemma ok_n_updates:
  assumes ok: "ok_n a b n w"
  shows "ok_n a b n (applyPendingUpdates cfg w)"
proof -
  have "cu_clientIndex u < n" if "u \<in> set (wk_inbox w)" for u
    using ok that by (auto simp: ok_n_def worker_ok_def list_all_iff)
  moreover have "ok_n a b n (w\<lparr>wk_inbox := []\<rparr>)" using ok by (auto simp: ok_n_def worker_ok_def count_state_def)
  ultimately show ?thesis unfolding applyPendingUpdates_def
    by (intro fold_preserves [where P = "ok_n a b n"]) (auto intro: ok_n_update)
qed

lemma ok_n_new:
  assumes "ok_n a b n w"
  shows "ok_n a b (Suc n) (push_client p w)"
  using assms by (auto simp: ok_n_def worker_ok_def push_client_def Let_def count_state_def SimClient_init_def
      client_ok_def list_all_iff intro: less_SucI)

lemma ok_n_fold_new: "ok_n a b n w \<Longrightarrow> ok_n a b (n + length ps) (fold push_client ps w)"
proof (induction ps arbitrary: n w)
  case (Cons p ps)
  from Cons.IH [OF ok_n_new [OF Cons.prems, of p]] show ?case by simp
qed simp

lemma ok_n_pending:
  assumes "ok_n a b n w"
  shows "ok_n a b (n + length (wk_pending w)) (applyPendingClients w)"
proof -
  have "ok_n a b n (w\<lparr>wk_pending := []\<rparr>)" using assms by (auto simp: ok_n_def worker_ok_def count_state_def)
  then show ?thesis unfolding applyPendingClients_def by (rule ok_n_fold_new)
qed

lemma ok_n_tick:
  assumes ok: "ok_n a b n w" and events: "\<forall>(slot, rs) \<in> set (tk_events tk). slot < n + length (wk_pending w)"
    and t: "worker_tick hm at2 cfg tk w = Some w'"
  shows "ok_n a b (n + length (wk_pending w)) w'"
proof -
  have u: "ok_n a b (n + length (wk_pending w)) (applyPendingUpdates cfg (applyPendingClients w))"
    by (rule ok_n_updates [OF ok_n_pending [OF ok]])
  from t obtain v x where "activateDueClients cfg tk (applyPendingUpdates cfg (applyPendingClients w)) = Some v"
    "sendDueUpdates hm at2 cfg tk v = Some x" and w': "w' = fold (\<lambda>(slot, rs). drainSocket hm cfg slot rs) (tk_events tk) x"
    by (auto simp: worker_tick_def split: option.splits)
  from ok.turn [OF u this(1,2)] events show ?thesis by (simp add: w' case_prod_beta)
qed

lemma queue_pop_Popped: "queue_pop q = Popped r q' \<longleftrightarrow> cq_queue q = r # cq_queue q' \<and> cq_shutdown q' = cq_shutdown q"
  by (cases q; cases q'; auto simp: queue_pop_def split: list.splits)

lemma worker_step_ok:
  assumes "worker_step hm at2 cfg w w'" "worker_ok a b w"
  shows "worker_ok a b w'"
  using assms
proof cases
  case (tick tk)
  with assms(2) ok_n_tick [of a b "length (wk_clients w)" w tk hm at2 cfg w'] show ?thesis by (simp add: ok_n_def)
next
  case (pop req q)
  with assms(2) show ?thesis by (auto simp: worker_ok_def queue_pop_Popped count_state_def)
qed (auto simp: worker_ok_def addClient_def postUpdate_def count_state_def)

lemma worker_reachable_ok:
  assumes "(worker_step hm at2 cfg)\<^sup>*\<^sup>* w w'" "worker_ok a b w"
  shows "worker_ok a b w'"
  using assms by (induction rule: rtranclp_induct) (auto intro: worker_step_ok)

section \<open>What a datagram does to the control queue\<close>

text \<open>
  Nothing but an exhausted budget or a command suspends, and a suspended client asks once:
  from \<open>w\<close>, a worker whose client is untouched, or one request later and suspended.
\<close>

definition quiet_change :: "nat \<Rightarrow> Worker \<Rightarrow> Worker \<Rightarrow> bool" where
  "quiet_change slot w w' \<longleftrightarrow>
     sc_state (client slot w') = sc_state (client slot w) \<and> cq_queue (wk_control w') = cq_queue (wk_control w)"

definition asked_once :: "nat \<Rightarrow> Worker \<Rightarrow> Worker \<Rightarrow> bool" where
  "asked_once slot w w' \<longleftrightarrow> sc_state (client slot w') = SUSPENDED \<and>
     (\<exists>kind. cq_queue (wk_control w') = cq_queue (wk_control w) @
        [\<lparr>rq_workerIndex = wk_index w, rq_clientIndex = slot, rq_kind = kind, rq_creds = sc_creds (client slot w)\<rparr>])"

definition same_owner :: "nat \<Rightarrow> Worker \<Rightarrow> Worker \<Rightarrow> bool" where
  "same_owner slot w w' \<longleftrightarrow> slot < length (wk_clients w) \<and> wk_index w' = wk_index w \<and> length (wk_clients w') = length (wk_clients w) \<and>
     sc_creds (client slot w') = sc_creds (client slot w)"

definition one_request :: "nat \<Rightarrow> Worker \<Rightarrow> Worker \<Rightarrow> bool" where
  "one_request slot w w' \<longleftrightarrow> same_owner slot w w' \<and>
     (quiet_change slot w w' \<or> sc_state (client slot w) \<noteq> SUSPENDED \<and> asked_once slot w w')"

lemma one_request_refl: "slot < length (wk_clients w) \<Longrightarrow> one_request slot w w"
  by (simp add: one_request_def same_owner_def quiet_change_def)

lemma one_request_slot: "one_request slot u w \<Longrightarrow> slot < length (wk_clients w)"
  by (simp add: one_request_def same_owner_def)

lemma one_request_trans:
  assumes "one_request slot u v" "one_request slot v w"
  shows "one_request slot u w"
  using assms by (auto simp: one_request_def same_owner_def quiet_change_def asked_once_def)

lemma one_request_stats: "one_request slot u w \<Longrightarrow> one_request slot u (on_stats g w)"
  by (simp add: one_request_def same_owner_def quiet_change_def asked_once_def)

lemma one_request_kept:
  assumes "one_request slot u w" "sc_state (f (client slot w)) = sc_state (client slot w)"
    "sc_creds (f (client slot w)) = sc_creds (client slot w)"
  shows "one_request slot u (on_client slot f w)"
  using assms one_request_slot [OF assms(1)]
  by (simp add: one_request_def same_owner_def quiet_change_def asked_once_def)

lemma suspend_asks:
  assumes "slot < length (wk_clients w)" "sc_state (client slot w) \<noteq> SUSPENDED"
  shows "asked_once slot w (suspendClient kind slot w)" "same_owner slot w (suspendClient kind slot w)"
proof -
  note alt = suspendClient_alt [OF assms, of kind]
  show "asked_once slot w (suspendClient kind slot w)" "same_owner slot w (suspendClient kind slot w)"
    unfolding alt using assms
    by (simp_all add: asked_once_def same_owner_def queue_push_def client_def on_client_def on_stats_def)
qed

lemma one_request_suspend:
  assumes u: "one_request slot u w"
  shows "one_request slot u (suspendClient kind slot w)"
proof (cases "sc_state (client slot w) = SUSPENDED")
  case True
  then show ?thesis using u by (simp add: suspendClient_def)
next
  case False
  with suspend_asks [OF one_request_slot [OF u] False] have "one_request slot w (suspendClient kind slot w)"
    by (simp add: one_request_def)
  with u show ?thesis by (rule one_request_trans)
qed

lemma one_request_kept_client:
  "one_request slot u w \<Longrightarrow> kept (client slot w) (f (client slot w)) \<Longrightarrow> one_request slot u (on_client slot f w)"
  by (rule one_request_kept) (simp_all add: kept_def)

interpretation once: worker_receives "one_request slot u" "{slot}" for slot u
  by unfold_locales
     (auto intro: one_request_slot one_request_kept_client intro!: one_request_stats one_request_suspend one_request_kept [where f = "\<lambda>c. c\<lparr>sc_refreshRequested := True\<rparr>"])

lemma suspended_after [simp]:
  "slot < length (wk_clients w) \<Longrightarrow> sc_state (client slot (suspendClient kind slot w)) = SUSPENDED"
  using suspend_asks(1) [of slot w kind] by (cases "sc_state (client slot w) = SUSPENDED") (auto simp: asked_once_def suspendClient_def)

lemma reconnect_suspends:
  assumes "slot < length (wk_clients w)" "list_ex (\<lambda>(i, m). msg_type m = COMMAND_RECONNECT) ms"
  shows "sc_state (client slot (fold (handle_message hm cfg ck sb slot) ms w)) = SUSPENDED"
  using assms
proof (induction ms arbitrary: w)
  case (Cons im ms)
  let ?v = "handle_message hm cfg ck sb slot im w"
  have len: "slot < length (wk_clients ?v)"
    by (rule one_request_slot, rule once.message, rule one_request_refl [OF Cons.prems(1)]) simp
  show ?case
  proof (cases "msg_type (snd im) = COMMAND_RECONNECT")
    case True
    then have "sc_state (client slot ?v) = SUSPENDED" using Cons.prems(1)
      by (simp add: handle_message_def Let_def case_prod_beta wire_consts)
    then show ?thesis using once.messages [OF one_request_refl [OF len], of slot hm cfg ck sb ms]
      by (auto simp: one_request_def quiet_change_def asked_once_def)
  next
    case False
    then show ?thesis using Cons.prems(2) Cons.IH [OF len] by (auto simp: case_prod_beta)
  qed
qed simp

lemma list_ex_enumerate: "list_ex (\<lambda>(i, m). P m) (enumerate n ms) = list_ex P ms"
  by (induction ms arbitrary: n) simp_all

section \<open>Repeated refusals\<close>

lemma classify_frame:
  fixes cfg ck i code
  assumes "slot < length (wk_clients w)"
  defines "w' \<equiv> snd (classify_refusal cfg ck i code slot w)"
  shows "length (wk_clients w') = length (wk_clients w)" "wk_control w' = wk_control w" "wk_index w' = wk_index w"
    "sc_state (client slot w') = sc_state (client slot w)" "sc_creds (client slot w') = sc_creds (client slot w)"
    "sc_unauthorizedCount (client slot w') = sc_unauthorizedCount (client slot w)"
    "sc_refreshRequested (client slot w') = sc_refreshRequested (client slot w)"
  using assms(1) by (simp_all add: w'_def classify_refusal_def Let_def)

definition refusal :: "InboundView \<Rightarrow> bool" where
  "refusal m \<longleftrightarrow> length m \<ge> 3 \<and> m ! 2 = ERR_UNAUTHORIZED"

lemma refusal_step:
  fixes cfg ck i
  assumes "slot < length (wk_clients w)" "refusal m"
  defines "w' \<equiv> handle_error cfg ck i m slot w" and "k \<equiv> sc_unauthorizedCount (client slot w) + 1"
  shows "k < 5 * cf_updateHz cfg \<Longrightarrow> length (wk_clients w') = length (wk_clients w) \<and> wk_control w' = wk_control w \<and>
       wk_index w' = wk_index w \<and> sc_state (client slot w') = sc_state (client slot w) \<and>
       sc_creds (client slot w') = sc_creds (client slot w) \<and> sc_unauthorizedCount (client slot w') = k"
    and "k \<ge> 5 * cf_updateHz cfg \<Longrightarrow> sc_state (client slot w) \<noteq> SUSPENDED \<Longrightarrow> sc_unauthorizedCount (client slot w') = 0 \<and>
       sc_state (client slot w') = SUSPENDED \<and> cq_queue (wk_control w') = cq_queue (wk_control w) @
        [\<lparr>rq_workerIndex = wk_index w, rq_clientIndex = slot, rq_kind = REASSIGN, rq_creds = sc_creds (client slot w)\<rparr>]"
proof -
  define v where "v = on_stats (\<lambda>s. s\<lparr>st_errorCodes := (st_errorCodes s)[unat ERR_UNAUTHORIZED :=
      st_errorCodes s ! unat ERR_UNAUTHORIZED + 1]\<rparr>) (on_stats (\<lambda>s. s\<lparr>st_rxErrorMessages := st_rxErrorMessages s + 1\<rparr>) w)"
  have v: "slot < length (wk_clients v)" using assms(1) by (simp add: v_def)
  define x where "x = on_client slot (\<lambda>c. if \<not> sc_errorLogged c \<and> \<not> fst (classify_refusal cfg ck i ERR_UNAUTHORIZED slot v)
      then c\<lparr>sc_errorLogged := True\<rparr> else c) (snd (classify_refusal cfg ck i ERR_UNAUTHORIZED slot v))"
  have x: "slot < length (wk_clients x)" "length (wk_clients x) = length (wk_clients w)" "wk_control x = wk_control w"
    "wk_index x = wk_index w" "sc_state (client slot x) = sc_state (client slot w)"
    "sc_creds (client slot x) = sc_creds (client slot w)"
    "sc_unauthorizedCount (client slot x) = sc_unauthorizedCount (client slot w)"
    using classify_frame [OF v, of cfg ck i ERR_UNAUTHORIZED] v by (simp_all add: x_def v_def)
  have w': "w' = react_to_code cfg ERR_UNAUTHORIZED slot x"
    using assms(2) by (simp add: w'_def handle_error_def Let_def case_prod_beta refusal_def v_def x_def)
  let ?y = "on_client slot (\<lambda>c. c\<lparr>sc_unauthorizedCount := 0\<rparr>)
      (on_client slot (\<lambda>c. c\<lparr>sc_unauthorizedCount := sc_unauthorizedCount c + 1\<rparr>) x)"
  have y: "slot < length (wk_clients ?y)" "sc_state (client slot ?y) = sc_state (client slot w)" using x by simp_all
  show "k < 5 * cf_updateHz cfg \<Longrightarrow> length (wk_clients w') = length (wk_clients w) \<and> wk_control w' = wk_control w \<and>
       wk_index w' = wk_index w \<and> sc_state (client slot w') = sc_state (client slot w) \<and>
       sc_creds (client slot w') = sc_creds (client slot w) \<and> sc_unauthorizedCount (client slot w') = k"
    using x by (simp add: w' react_to_code_def wire_consts k_def Let_def)
  assume k: "k \<ge> 5 * cf_updateHz cfg" and s: "sc_state (client slot w) \<noteq> SUSPENDED"
  have "w' = suspendClient REASSIGN slot ?y" using k x by (simp add: w' react_to_code_def wire_consts k_def Let_def)
  then show "sc_unauthorizedCount (client slot w') = 0 \<and>
       sc_state (client slot w') = SUSPENDED \<and> cq_queue (wk_control w') = cq_queue (wk_control w) @
        [\<lparr>rq_workerIndex = wk_index w, rq_clientIndex = slot, rq_kind = REASSIGN, rq_creds = sc_creds (client slot w)\<rparr>]"
    using suspendClient_alt [OF y(1), of REASSIGN] y(2) s x
    by (simp add: client_def on_client_def on_stats_def queue_push_def closeSocket_def)
qed

definition refuse :: "Config \<Rightarrow> nat \<Rightarrow> (Clock \<times> nat \<times> InboundView) list \<Rightarrow> Worker \<Rightarrow> Worker" where
  "refuse cfg slot = fold (\<lambda>(ck, i, m). handle_error cfg ck i m slot)"

lemma refuse_below:
  fixes cfg
  assumes "slot < length (wk_clients w)" "list_all (\<lambda>(ck, i, m). refusal m) xs"
    and "sc_unauthorizedCount (client slot w) + int (length xs) < 5 * cf_updateHz cfg"
  defines "w' \<equiv> refuse cfg slot xs w"
  shows "length (wk_clients w') = length (wk_clients w) \<and> wk_control w' = wk_control w \<and> wk_index w' = wk_index w \<and>
     sc_state (client slot w') = sc_state (client slot w) \<and> sc_creds (client slot w') = sc_creds (client slot w) \<and>
     sc_unauthorizedCount (client slot w') = sc_unauthorizedCount (client slot w) + int (length xs)"
  using assms(1-3) unfolding w'_def
proof (induction xs arbitrary: w)
  case (Cons x xs)
  obtain ck i m where x: "x = (ck, i, m)" by (cases x) auto
  have m: "refusal m" using Cons.prems(2) by (simp add: x)
  note step = refusal_step(1) [OF Cons.prems(1) m, of cfg ck i]
  have "sc_unauthorizedCount (client slot w) + 1 < 5 * cf_updateHz cfg" using Cons.prems(3) by simp
  from step [OF this] Cons.IH [of "handle_error cfg ck i m slot w"] Cons.prems show ?case
    by (simp add: x refuse_def)
qed (simp add: refuse_def)

lemma refuse_snoc: "refuse cfg slot (xs @ [(ck, i, m)]) w = handle_error cfg ck i m slot (refuse cfg slot xs w)"
  by (simp add: refuse_def)

section \<open>The refresh latch\<close>

definition refreshes :: "int \<Rightarrow> nat \<Rightarrow> ControlRequest list \<Rightarrow> nat" where
  "refreshes index slot rs =
     length (filter (\<lambda>r. rq_kind r = REFRESH \<and> rq_workerIndex r = index \<and> rq_clientIndex r = slot) rs)"

definition latched :: "nat \<Rightarrow> Worker \<Rightarrow> nat" where
  "latched slot w = (if sc_refreshRequested (client slot w) then 1 else 0)"

definition latch :: "nat \<Rightarrow> Worker \<Rightarrow> Worker \<Rightarrow> bool" where
  "latch slot w w' \<longleftrightarrow> wk_index w' = wk_index w \<and> length (wk_clients w) \<le> length (wk_clients w') \<and>
     (\<exists>new. cq_queue (wk_control w') = cq_queue (wk_control w) @ new \<and>
        refreshes (wk_index w) slot new + latched slot w \<le> latched slot w')"

lemma refreshes_append [simp]: "refreshes i s (xs @ ys) = refreshes i s xs + refreshes i s ys"
  by (simp add: refreshes_def)

lemma update_unlatches:
  "slot < length (wk_clients w) \<Longrightarrow> cu_clientIndex u = slot \<Longrightarrow> \<not> cu_failed u \<Longrightarrow> \<not> sc_refreshRequested (client slot (apply_update cfg u w))"
  by (auto simp: apply_update_def on_client_def on_stats_def client_def closeSocket_def rebuildTemplate_def Let_def)

lemma latch_refl: "latch slot w w"
  by (simp add: latch_def refreshes_def)

lemma latch_trans:
  assumes "latch slot u v" "latch slot v w"
  shows "latch slot u w"
proof -
  from assms obtain n m where
    "cq_queue (wk_control v) = cq_queue (wk_control u) @ n" "refreshes (wk_index u) slot n + latched slot u \<le> latched slot v"
    "cq_queue (wk_control w) = cq_queue (wk_control v) @ m" "refreshes (wk_index v) slot m + latched slot v \<le> latched slot w"
    "wk_index v = wk_index u" by (auto simp: latch_def)
  then have "cq_queue (wk_control w) = cq_queue (wk_control u) @ (n @ m)"
    "refreshes (wk_index u) slot (n @ m) + latched slot u \<le> latched slot w" by simp_all
  with assms show ?thesis by (force simp: latch_def)
qed

lemma client_other: "s \<noteq> slot \<Longrightarrow> client slot (on_client s f w) = client slot w"
  by (simp add: client_def on_client_def)

lemma client_beyond: "\<not> slot < length (wk_clients w) \<Longrightarrow> on_client slot f w = w"
  by (simp add: on_client_def list_update_beyond)

lemma latched_on_client:
  "(\<And>c. sc_refreshRequested (f c) = sc_refreshRequested c) \<Longrightarrow> latched slot (on_client s f w) = latched slot w"
  by (cases "s = slot"; cases "slot < length (wk_clients w)")
     (simp_all add: latched_def client_other client_beyond)

lemma latch_frame:
  assumes "wk_index w' = wk_index w" "length (wk_clients w') = length (wk_clients w)" "wk_control w' = wk_control w"
    and "latched slot w' = latched slot w"
  shows "latch slot w w'"
  using assms by (simp add: latch_def refreshes_def)

lemma latch_stats: "latch slot u w \<Longrightarrow> latch slot u (on_stats g w)"
  by (erule latch_trans) (rule latch_frame, simp_all add: latched_def)

lemma latch_kept:
  "latch slot u w \<Longrightarrow> (\<And>c. sc_refreshRequested (f c) = sc_refreshRequested c) \<Longrightarrow> latch slot u (on_client s f w)"
  by (erule latch_trans) (rule latch_frame, simp_all add: latched_on_client)

lemma latch_push:
  assumes "latch slot u w" "rq_kind r = REASSIGN \<or> rq_clientIndex r \<noteq> slot" "q = wk_control w"
  shows "latch slot u (w\<lparr>wk_control := queue_push r q\<rparr>)"
proof (rule latch_trans [OF assms(1)])
  have "refreshes (wk_index w) slot [r] = 0" using assms(2) by (auto simp: refreshes_def)
  then show "latch slot w (w\<lparr>wk_control := queue_push r q\<rparr>)"
    by (force simp: assms(3) latch_def queue_push_def latched_def client_def)
qed

lemma sc_close [simp]: "sc_refreshRequested (closeSocket c) = sc_refreshRequested c"
  by (simp add: closeSocket_def)

text \<open>A suspension with anything but \<open>REFRESH\<close>, or of another slot.\<close>

lemma latch_suspend:
  assumes "latch slot u w" "kind = REASSIGN \<or> s \<noteq> slot"
  shows "latch slot u (suspendClient kind s w)"
  unfolding suspendClient_def Let_def using assms
  by (auto intro!: latch_push latch_stats latch_kept)

text \<open>Raising the flag pays for one request of the slot itself.\<close>

lemma latch_raise:
  assumes "slot < length (wk_clients w)" "\<not> sc_refreshRequested (client slot w)"
    and "w' = on_client slot (\<lambda>c. c\<lparr>sc_refreshRequested := True\<rparr>) w"
    and "latch slot w' v" "cq_queue (wk_control x) = cq_queue (wk_control v) @ [r]" "wk_index x = wk_index v"
    and "length (wk_clients x) = length (wk_clients v)" "latched slot x = latched slot v"
  shows "latch slot w x"
proof -
  from assms(4) obtain n where n: "cq_queue (wk_control v) = cq_queue (wk_control w') @ n"
    "refreshes (wk_index w') slot n + latched slot w' \<le> latched slot v" by (auto simp: latch_def)
  have 1: "latched slot w' = 1" "latched slot w = 0" "latched slot v \<le> 1" using assms(1-3) by (simp_all add: latched_def)
  with n have "refreshes (wk_index w') slot n = 0" "latched slot v = 1" by simp_all
  moreover have "refreshes (wk_index w) slot [r] \<le> 1" by (simp add: refreshes_def)
  ultimately have "refreshes (wk_index w) slot (n @ [r]) + latched slot w \<le> latched slot x"
    "cq_queue (wk_control x) = cq_queue (wk_control w) @ (n @ [r])"
    using assms 1 n by simp_all
  then show ?thesis using assms by (force simp: latch_def)
qed

lemma latch_flag_other:
  "s \<noteq> slot \<Longrightarrow> latch slot w (on_client s (\<lambda>c. c\<lparr>sc_refreshRequested := True\<rparr>) w)"
  by (rule latch_frame) (simp_all add: latched_def client_other)

lemma latch_ask:
  assumes "s < length (wk_clients w)" "\<not> sc_refreshRequested (client s w)" "rq_clientIndex r = s"
    and v: "v = on_client s (\<lambda>c. c\<lparr>sc_refreshRequested := True\<rparr>) w"
  shows "latch slot w (v\<lparr>wk_control := queue_push r (wk_control w)\<rparr>)"
proof (cases "s = slot")
  case False
  then show ?thesis using assms(3) unfolding v by (intro latch_push latch_flag_other) simp_all
next
  case True
  show ?thesis unfolding v
    by (rule latch_raise [OF _ _ refl latch_refl, of _ _ _ r])
       (use assms True in \<open>simp_all add: queue_push_def latched_def client_def\<close>)
qed

lemma latch_suspend_refresh:
  assumes len: "s < length (wk_clients w)" and f: "\<not> sc_refreshRequested (client s w)"
  shows "latch slot w (suspendClient REFRESH s (on_client s (\<lambda>c. c\<lparr>sc_refreshRequested := True\<rparr>) w))"
    (is "latch slot w (suspendClient REFRESH s ?v)")
proof (cases "s = slot")
  case False
  then show ?thesis by (simp add: latch_suspend latch_flag_other)
next
  case s: True
  show ?thesis
  proof (cases "sc_state (client slot w) = SUSPENDED")
    case True
    have "latch slot w ?v" using s len f by (auto simp: latch_def refreshes_def latched_def)
    then show ?thesis using True s len by (simp add: suspendClient_def)
  next
    case False
    have len': "slot < length (wk_clients ?v)" and st: "sc_state (client slot ?v) \<noteq> SUSPENDED" using s False len by simp_all
    show ?thesis unfolding s suspendClient_alt [OF len' st, of REFRESH, unfolded s]
      by (rule latch_raise [OF _ _ refl latch_refl])
         (use s len f in \<open>simp_all add: queue_push_def latched_def client_def on_client_def on_stats_def\<close>)
  qed
qed

lemma latch_kept_client:
  assumes "latch slot u w" "s < length (wk_clients w)" "sc_refreshRequested (f (client s w)) = sc_refreshRequested (client s w)"
  shows "latch slot u (on_client s f w)"
  by (rule latch_trans [OF assms(1)], rule latch_frame)
     (use assms(2,3) in \<open>cases "s = slot"; simp add: latched_def client_other\<close>)+

definition latch_n :: "nat \<Rightarrow> nat \<Rightarrow> Worker \<Rightarrow> Worker \<Rightarrow> bool" where
  "latch_n slot n u w \<longleftrightarrow> latch slot u w \<and> length (wk_clients w) = n"

interpretation latching: worker_turn "latch_n slot n u" "{..<n}" for slot n u
proof
  fix w s v
  assume w: "latch_n slot n u w" and s: "s \<in> {..<n}" and f: "\<not> sc_refreshRequested (client s w)"
  have u: "latch slot u w" and len: "s < length (wk_clients w)" using w s by (simp_all add: latch_n_def)
  show "latch_n slot n u (suspendClient REFRESH s (on_client s (\<lambda>c. c\<lparr>sc_refreshRequested := True\<rparr>) w))"
    using w latch_trans [OF u latch_suspend_refresh [OF len f]] by (simp add: latch_n_def)
  assume v: "v = on_client s (\<lambda>c. c\<lparr>sc_refreshRequested := True\<rparr>) w"
  show "latch_n slot n u (v\<lparr>wk_control := queue_push \<lparr>rq_workerIndex = wk_index w, rq_clientIndex = s,
      rq_kind = REFRESH, rq_creds = sc_creds (client s w)\<rparr> (wk_control w)\<rparr>)"
    using w latch_trans [OF u latch_ask [OF len f _ v]] by (simp add: latch_n_def v)
next
  fix w s and fd :: int
  assume "latch_n slot n u w"
  then show "latch_n slot n u (on_stats (\<lambda>s. s\<lparr>st_activeClients := st_activeClients s + 1\<rparr>)
      (on_client s (\<lambda>c. c\<lparr>sc_fd := fd, sc_state := ACTIVE\<rparr>) w))"
    unfolding latch_n_def by (intro conjI latch_stats latch_kept) simp_all
qed (auto simp: latch_n_def kept_def intro: latch_stats latch_suspend latch_kept_client)

lemma latch_failed_update:
  assumes l: "latch slot u w" and f: "cu_clientIndex x = slot \<Longrightarrow> cu_failed x"
  shows "latch slot u (apply_update cfg x w)"
proof (cases "cu_clientIndex x = slot \<or> cu_failed x")
  case True
  then show ?thesis using l f by (auto simp: apply_update_def)
next
  case False
  then show ?thesis
    by (intro latch_trans [OF l] latch_frame) (simp_all add: apply_update_def Let_def latched_def client_other)
qed

lemma pending_clients_frame:
  "wk_index (fold push_client ps w) = wk_index w \<and> wk_control (fold push_client ps w) = wk_control w \<and>
   wk_inbox (fold push_client ps w) = wk_inbox w \<and>
   (\<exists>cs. wk_clients (fold push_client ps w) = wk_clients w @ cs \<and> length cs = length ps)"
proof (induction ps arbitrary: w)
  case (Cons p ps)
  from Cons.IH [of "push_client p w"] show ?case by (auto simp: push_client_def Let_def)
qed simp

lemma latch_tick:
  assumes slot: "slot < length (wk_clients w)"
    and inbox: "list_all (\<lambda>x. cu_clientIndex x = slot \<longrightarrow> cu_failed x) (wk_inbox w)"
    and events: "list_all (\<lambda>(s, rs). s < length (wk_clients w) + length (wk_pending w)) (tk_events tk)"
    and t: "worker_tick hm at2 cfg tk w = Some w'"
  shows "latch slot w w'"
proof -
  define p where "p = applyPendingClients w"
  obtain cs where p: "wk_index p = wk_index w" "wk_control p = wk_control w" "wk_inbox p = wk_inbox w"
    "wk_clients p = wk_clients w @ cs" "length cs = length (wk_pending w)"
    using pending_clients_frame [of "wk_pending w" "w\<lparr>wk_pending := []\<rparr>"] by (auto simp: p_def applyPendingClients_def)
  have lp: "latch slot w p" using p slot by (auto simp: latch_def latched_def client_def nth_append refreshes_def)
  define q where "q = applyPendingUpdates cfg p"
  have "latch slot p (p\<lparr>wk_inbox := []\<rparr>)" by (rule latch_frame) (simp_all add: latched_def client_def)
  then have lq: "latch slot p q" unfolding q_def applyPendingUpdates_def p(3)
    by (rule fold_preserves [rotated]) (use inbox in \<open>auto simp: list_all_iff intro: latch_failed_update\<close>)
  from t obtain v x where v: "activateDueClients cfg tk q = Some v" and x: "sendDueUpdates hm at2 cfg tk v = Some x"
    and w': "w' = fold (\<lambda>(slot, rs). drainSocket hm cfg slot rs) (tk_events tk) x"
    by (auto simp: worker_tick_def q_def p_def split: option.splits)
  define n where "n = length (wk_clients q)"
  have "length (wk_clients w) + length (wk_pending w) \<le> n" using lq p by (simp add: latch_def n_def)
  then have "\<forall>(s, rs) \<in> set (tk_events tk). s \<in> {..<n}" using events by (auto simp: list_all_iff)
  moreover have "latch_n slot n w q" using latch_trans [OF lp lq] by (simp add: latch_n_def n_def)
  ultimately have "latch_n slot n w w'" using latching.turn [OF _ v x] by (simp add: w')
  then show ?thesis by (simp add: latch_n_def)
qed

section \<open>A work queue\<close>

text \<open>
  The contract of a first-in first-out queue, for any interleaving of producers and a consumer:
  what was taken, followed by what is left, is what was there followed by what was put.
\<close>

datatype 'r queue_op = Put 'r | Take | Close

fun puts :: "'r queue_op list \<Rightarrow> 'r list" where
  "puts [] = []"
| "puts (Put r # ops) = r # puts ops"
| "puts (Take # ops) = puts ops"
| "puts (Close # ops) = puts ops"

fun run_queue ::
  "('r \<Rightarrow> 'q \<Rightarrow> 'q) \<Rightarrow> ('q \<Rightarrow> ('r \<times> 'q) option) \<Rightarrow> ('q \<Rightarrow> 'q) \<Rightarrow> 'r queue_op list \<Rightarrow> 'q \<Rightarrow> 'r list \<times> 'q" where
  "run_queue enq deq shut [] q = ([], q)"
| "run_queue enq deq shut (Put r # ops) q = run_queue enq deq shut ops (enq r q)"
| "run_queue enq deq shut (Close # ops) q = run_queue enq deq shut ops (shut q)"
| "run_queue enq deq shut (Take # ops) q =
     (case deq q of
        None \<Rightarrow> run_queue enq deq shut ops q
      | Some (r, q') \<Rightarrow> let (rs, q'') = run_queue enq deq shut ops q' in (r # rs, q''))"

locale work_queue =
  fixes contents :: "'q \<Rightarrow> 'r list"
    and enq :: "'r \<Rightarrow> 'q \<Rightarrow> 'q"
    and deq :: "'q \<Rightarrow> ('r \<times> 'q) option"
    and shut :: "'q \<Rightarrow> 'q"
  assumes contents_put: "contents (enq r q) = contents q @ [r]"
    and contents_close: "contents (shut q) = contents q"
    and take_none: "deq q = None \<Longrightarrow> contents q = []"
    and take_some: "deq q = Some (r, q') \<Longrightarrow> contents q = r # contents q'"
begin

lemma fifo:
  assumes "run_queue enq deq shut ops q = (rs, q')"
  shows "rs @ contents q' = contents q @ puts ops"
  using assms
proof (induction ops arbitrary: q rs)
  case (Cons x ops)
  show ?case
  proof (cases x)
    case (Put r)
    with Cons.prems have "run_queue enq deq shut ops (enq r q) = (rs, q')" by simp
    from Cons.IH [OF this] show ?thesis by (simp add: Put contents_put)
  next
    case Close
    with Cons.prems have "run_queue enq deq shut ops (shut q) = (rs, q')" by simp
    from Cons.IH [OF this] show ?thesis by (simp add: Close contents_close)
  next
    case Take
    show ?thesis
    proof (cases "deq q")
      case None
      with Cons.prems Take have "run_queue enq deq shut ops q = (rs, q')" by simp
      from Cons.IH [OF this] show ?thesis by (simp add: Take)
    next
      case (Some p)
      then obtain r q1 where p: "deq q = Some (r, q1)" by (cases p) auto
      with Cons.prems Take obtain rs1 where rs: "run_queue enq deq shut ops q1 = (rs1, q')" "rs = r # rs1"
        by (auto simp: Let_def split: prod.splits)
      from Cons.IH [OF rs(1)] take_some [OF p] rs(2) show ?thesis by (simp add: Take)
    qed
  qed
qed simp

lemma emptied:
  assumes "length (contents q) \<le> n"
  shows "fst (run_queue enq deq shut (replicate n Take) q) = contents q"
  using assms
proof (induction n arbitrary: q)
  case (Suc n)
  show ?case
  proof (cases "deq q")
    case None
    then show ?thesis using Suc.IH [of q] take_none [OF None] by simp
  next
    case (Some p)
    then obtain r q1 where p: "deq q = Some (r, q1)" by (cases p) auto
    with Suc.IH [of q1] Suc.prems take_some [OF p] show ?thesis by (simp add: case_prod_beta)
  qed
qed simp

end

definition queue_take :: "ControlQueue \<Rightarrow> (ControlRequest \<times> ControlQueue) option" where
  "queue_take q = (case queue_pop q of Popped r q' \<Rightarrow> Some (r, q') | _ \<Rightarrow> None)"

interpretation ctl: work_queue cq_queue queue_push queue_take queue_shutdown
proof
  fix q r q'
  show "queue_take q = Some (r, q') \<Longrightarrow> cq_queue q = r # cq_queue q'"
    by (auto simp: queue_take_def queue_pop_def split: list.splits if_splits)
qed (auto simp: queue_push_def queue_shutdown_def queue_take_def queue_pop_def split: list.splits if_splits)

section \<open>A sample worker\<close>

definition sample_queue :: ControlQueue where "sample_queue = \<lparr>cq_queue = [], cq_shutdown = False\<rparr>"

definition sample_active :: SimClient where
  "sample_active = (SimClient_init sample_creds 0)\<lparr>sc_state := ACTIVE, sc_fd := 5, sc_lastSendTime := 10\<rparr>"

definition sample_worker :: "SimClient \<Rightarrow> Worker" where
  "sample_worker c = (new_worker 0 Stats_init sample_queue)\<lparr>wk_clients := [c], wk_clientCount := 1\<rparr>"

definition sample_tick :: Tick where
  "sample_tick = \<lparr>tk_now = 5, tk_nowSec = 0, tk_sysNs = 0,
     tk_open = (\<lambda>_. \<lparr>oa_socket = 5, oa_pton = True, oa_setsockopt = True, oa_connect = True, oa_epoll = True\<rparr>),
     tk_draws = (\<lambda>_. sample_draws), tk_walk = (\<lambda>_. sample_draws), tk_updateMs = (\<lambda>_. 0),
     tk_sendCaps = (\<lambda>_. 0), tk_send = (\<lambda>_. 0), tk_events = []\<rparr>"

definition sample_clock :: Clock where
  "sample_clock = \<lparr>ck_rxSec = 1, ck_epochMs = 0, ck_contact = (\<lambda>_. 0), ck_reload = (\<lambda>_. 0)\<rparr>"

lemma sample_waiting_tick:
  "worker_tick hm at2 cfg sample_tick (addClient sample_creds 10 (new_worker 0 Stats_init sample_queue)) =
     Some (push_client \<lparr>pa_creds = sample_creds, pa_activateAt = 10\<rparr> (new_worker 0 Stats_init sample_queue))"
  by (simp add: worker_tick_def sample_tick_def addClient_def new_worker_def applyPendingClients_def push_client_def
      applyPendingUpdates_def activateDueClients_def sendDueUpdates_def activate_client_def send_client_def client_def
      SimClient_init_def Let_def)

lemma idle_tick:
  assumes "wk_pending w = []" "wk_clients w = [c]" "wk_inbox w = [u]" "cu_failed u"
    and "sc_state c = ACTIVE" "\<not> silent cfg 0 c" "fsub 0 (sc_lastSendTime c) < fdiv 1 (int_to_f64 (cf_updateHz cfg))"
  shows "worker_tick hm at2 cfg sample_tick w = Some (w\<lparr>wk_inbox := []\<rparr>)"
  using assms
  by (simp add: worker_tick_def sample_tick_def applyPendingClients_def applyPendingUpdates_def apply_update_def
      activateDueClients_def sendDueUpdates_def activate_client_def send_client_def client_def Let_def)

definition sample_latched :: Worker where
  "sample_latched = (sample_worker (sample_active\<lparr>sc_refreshRequested := True\<rparr>))
     \<lparr>wk_inbox := [\<lparr>cu_clientIndex = 0, cu_failed = True, cu_creds = sample_creds\<rparr>]\<rparr>"

lemma sample_idle_tick:
  "worker_tick hm at2 sample_config sample_tick sample_latched = Some (sample_latched\<lparr>wk_inbox := []\<rparr>)"
proof -
  have "f64_round 0 \<le> f64_round (1 / int_to_f64 (cf_updateHz sample_config))"
    by (rule f64.rnd_mono) (simp add: int_to_f64_exact sample_config_def Config_init_def)
  then have "fsub 0 10 < fdiv 1 (int_to_f64 (cf_updateHz sample_config))"
    using f64_round_of_int [of "-10"] by (simp add: fsub_def fdiv_def round_unit)
  moreover have "\<not> silent sample_config 0 (sample_active\<lparr>sc_refreshRequested := True\<rparr>)"
    using int_to_f64_exact [of "cf_rxSilentReassignSec sample_config"]
    by (simp add: silent_def sample_active_def SimClient_init_def fsub_def round_unit sample_config_def Config_init_def)
  ultimately show ?thesis
    by (intro idle_tick [of _ "sample_active\<lparr>sc_refreshRequested := True\<rparr>"
          "\<lparr>cu_clientIndex = 0, cu_failed = True, cu_creds = sample_creds\<rparr>"])
       (simp_all add: sample_latched_def sample_worker_def sample_active_def new_worker_def)
qed

definition sample_request :: "Kind \<Rightarrow> ControlRequest" where
  "sample_request k = \<lparr>rq_workerIndex = 0, rq_clientIndex = 0, rq_kind = k, rq_creds = sample_creds\<rparr>"

section \<open>Properties\<close>

text \<open>
  C4. Whatever happens to a worker that starts without clients, a client holds a socket exactly
  while it is active, its buffers keep their lengths, and the two population gauges move by
  exactly the number of its active and of its suspended clients.
\<close>

theorem worker_invariant:
  assumes "(worker_step hm at2 cfg)\<^sup>*\<^sup>* (new_worker index stats control) w"
    and "list_all (\<lambda>r. rq_workerIndex r \<noteq> index) (cq_queue control)"
  shows "(\<forall>slot < length (wk_clients w).
       (sc_fd (client slot w) \<ge> 0 \<longleftrightarrow> sc_state (client slot w) = ACTIVE) \<and>
       length (sc_uuid (client slot w)) = 32 \<and> length (sc_message (client slot w)) = ACTOR_UPDATE_MAX_SIZE) \<and>
     st_activeClients (wk_stats w) = st_activeClients stats + count_state ACTIVE w \<and>
     st_suspendedClients (wk_stats w) = st_suspendedClients stats + count_state SUSPENDED w"
proof -
  have "worker_ok (st_activeClients stats) (st_suspendedClients stats) (new_worker index stats control)"
    using assms(2) by (auto simp: worker_ok_def new_worker_def count_state_def list_all_iff)
  from worker_reachable_ok [OF assms(1) this] show ?thesis
    by (simp add: worker_ok_def list_all_length client_ok_def client_def)
qed

theorem worker_invariant_witness:
  "let w = push_client \<lparr>pa_creds = sample_creds, pa_activateAt = 10\<rparr> (new_worker 0 Stats_init sample_queue) in
   length (wk_clients w) = 1 \<and> sc_fd (client 0 w) < 0 \<and> st_activeClients (wk_stats w) = 0"
proof -
  let ?w = "new_worker 0 Stats_init sample_queue" and ?hm = "\<lambda>k b. None" and ?at = "\<lambda>x y. 0"
  let ?v = "push_client \<lparr>pa_creds = sample_creds, pa_activateAt = 10\<rparr> ?w"
  have "worker_step ?hm ?at sample_config ?w (addClient sample_creds 10 ?w)" by (rule worker_step.add)
  moreover have "worker_step ?hm ?at sample_config (addClient sample_creds 10 ?w) ?v"
    by (rule worker_step.tick [OF _ sample_waiting_tick]) (simp add: sample_tick_def)
  ultimately have r: "(worker_step ?hm ?at sample_config)\<^sup>*\<^sup>* ?w ?v" by auto
  have e: "list_all (\<lambda>r. rq_workerIndex r \<noteq> 0) (cq_queue sample_queue)" by (simp add: sample_queue_def)
  have s: "length (wk_clients ?v) = 1" "sc_state (client 0 ?v) = WAITING" "count_state ACTIVE ?v = 0"
    by (simp_all add: push_client_def new_worker_def client_def SimClient_init_def count_state_def)
  have "(\<forall>slot < length (wk_clients ?v). (sc_fd (client slot ?v) \<ge> 0 \<longleftrightarrow> sc_state (client slot ?v) = ACTIVE) \<and>
      length (sc_uuid (client slot ?v)) = 32 \<and> length (sc_message (client slot ?v)) = ACTOR_UPDATE_MAX_SIZE) \<and>
      st_activeClients (wk_stats ?v) = st_activeClients Stats_init + count_state ACTIVE ?v \<and>
      st_suspendedClients (wk_stats ?v) = st_suspendedClients Stats_init + count_state SUSPENDED ?v"
    by (rule worker_invariant [OF r e])
  then show ?thesis using s by (auto simp: Let_def Stats_init_def)
qed

text \<open>
  C15. One datagram costs an active client at most one control request, however many messages it
  bundles: afterwards the client is active and nothing was asked, or it is suspended and exactly
  one request with its credentials is queued. A reconnect command in an accepted datagram always
  suspends.
\<close>

theorem datagram_asks_once:
  assumes "slot < length (wk_clients w)" "sc_state (client slot w) = ACTIVE"
    and "w' = handleDatagram hm cfg ck data slot w"
  shows "(sc_state (client slot w') = ACTIVE \<and> cq_queue (wk_control w') = cq_queue (wk_control w) \<or>
      sc_state (client slot w') = SUSPENDED \<and>
      (\<exists>kind. cq_queue (wk_control w') = cq_queue (wk_control w) @
        [\<lparr>rq_workerIndex = wk_index w, rq_clientIndex = slot, rq_kind = kind, rq_creds = sc_creds (client slot w)\<rparr>])) \<and>
     (list_ex (\<lambda>m. msg_type m = COMMAND_RECONNECT) (fst (forEachMessage data)) \<and>
      (data ! 0 = MESSAGE_BUNDLE_SIGNED \<longrightarrow>
         verifySignedBundle hm data (string_bytes (cr_appToken (sc_creds (client slot w))))) \<longrightarrow>
      sc_state (client slot w') = SUSPENDED)"
proof -
  define v where "v = on_client slot (\<lambda>c. c\<lparr>sc_lastRxTime := ck_rxSec ck\<rparr>)
     (on_stats (\<lambda>s. s\<lparr>st_rxDatagrams := st_rxDatagrams s + 1, st_rxBytes := st_rxBytes s + of_nat (length data)\<rparr>) w)"
  define x where "x = (if data ! 0 = MESSAGE_BUNDLE then on_stats (\<lambda>s. s\<lparr>st_rxBundles := st_rxBundles s + 1\<rparr>) v
      else if data ! 0 = MESSAGE_BUNDLE_SIGNED then on_stats (\<lambda>s. s\<lparr>st_rxSignedBundles := st_rxSignedBundles s + 1\<rparr>) v else v)"
  have v: "one_request slot w v" unfolding v_def by (auto simp: kept_def gauges_kept_def intro!: once.client_kept once.stats one_request_refl assms(1))
  then have x: "one_request slot w x" by (simp add: x_def once.stats gauges_kept_def)
  let ?bad = "data ! 0 = MESSAGE_BUNDLE_SIGNED \<and>
      \<not> verifySignedBundle hm data (string_bytes (cr_appToken (sc_creds (client slot w))))"
  let ?f = "fold (handle_message hm cfg ck (data ! 0 = MESSAGE_BUNDLE_SIGNED) slot) (enumerate 0 (fst (forEachMessage data))) x"
  have creds: "sc_creds (client slot x) = sc_creds (client slot w)" using x by (simp add: one_request_def same_owner_def)
  have w': "w' = (if length data = 0 then v else if ?bad then on_stats (\<lambda>s. s\<lparr>st_rxHmacFailures := st_rxHmacFailures s + 1\<rparr>) x
      else if \<not> snd (forEachMessage data) then on_stats (\<lambda>s. s\<lparr>st_rxMalformed := st_rxMalformed s + 1\<rparr>) ?f else ?f)"
    unfolding assms(3) handleDatagram_def Let_def v_def [symmetric] x_def [symmetric] creds by (simp add: case_prod_beta)
  have "one_request slot w w'" using v x by (simp add: w' once.stats once.messages gauges_kept_def)
  moreover have "sc_state (client slot w') = SUSPENDED"
    if "list_ex (\<lambda>m. msg_type m = COMMAND_RECONNECT) (fst (forEachMessage data))" "\<not> ?bad"
  proof -
    have "list_ex (\<lambda>(i, m). msg_type m = COMMAND_RECONNECT) (enumerate 0 (fst (forEachMessage data)))"
      using that(1) by (simp add: list_ex_enumerate)
    from reconnect_suspends [OF one_request_slot [OF x] this] show ?thesis
      using that by (auto simp: w' forEachMessage_def)
  qed
  ultimately show ?thesis using assms(2)
    by (auto simp: one_request_def quiet_change_def asked_once_def)
qed

theorem datagram_asks_once_witness:
  "sc_state (client 0 (handleDatagram (\<lambda>k b. None) sample_config sample_clock [COMMAND_RECONNECT] 0 (sample_worker sample_active))) =
     SUSPENDED \<and>
   length (cq_queue (wk_control (handleDatagram (\<lambda>k b. None) sample_config sample_clock [COMMAND_RECONNECT] 0
     (sample_worker sample_active)))) = 1"
proof -
  have "0 < length (wk_clients (sample_worker sample_active))" "sc_state (client 0 (sample_worker sample_active)) = ACTIVE"
    "cq_queue (wk_control (sample_worker sample_active)) = []"
    by (simp_all add: sample_worker_def client_def sample_active_def new_worker_def sample_queue_def)
  with datagram_asks_once [OF this(1,2) refl, of "\<lambda>k b. None" sample_config sample_clock "[COMMAND_RECONNECT]"]
  show ?thesis by (auto simp: forEachMessage_def msg_type_def wire_consts)
qed

text \<open>
  A signed bundle whose tag does not verify is only counted: no message of it is looked at,
  the client changes nothing but the time it last heard from its server, and nothing is asked.
\<close>

theorem forged_bundle_inert:
  assumes "slot < length (wk_clients w)" "data \<noteq> []" "data ! 0 = MESSAGE_BUNDLE_SIGNED"
    and "\<not> verifySignedBundle hm data (string_bytes (cr_appToken (sc_creds (client slot w))))"
    and "w' = handleDatagram hm cfg ck data slot w"
  shows "wk_clients w' = (wk_clients w)[slot := (client slot w)\<lparr>sc_lastRxTime := ck_rxSec ck\<rparr>] \<and>
     wk_control w' = wk_control w \<and> wk_inbox w' = wk_inbox w \<and>
     st_rxHmacFailures (wk_stats w') = st_rxHmacFailures (wk_stats w) + 1 \<and>
     st_rxSignedMembers (wk_stats w') = st_rxSignedMembers (wk_stats w) \<and>
     st_errorCodes (wk_stats w') = st_errorCodes (wk_stats w) \<and>
     st_activeClients (wk_stats w') = st_activeClients (wk_stats w)"
  using assms by (simp add: handleDatagram_def Let_def wire_consts wk_clients_on_client)

theorem forged_bundle_inert_witness:
  "wk_control (handleDatagram (\<lambda>k b. None) sample_config sample_clock [MESSAGE_BUNDLE_SIGNED] 0 (sample_worker sample_active)) =
   wk_control (sample_worker sample_active)"
proof -
  have "0 < length (wk_clients (sample_worker sample_active))" by (simp add: sample_worker_def)
  moreover have "\<not> verifySignedBundle (\<lambda>k b. None) [MESSAGE_BUNDLE_SIGNED] t" for t
    by (simp add: verifySignedBundle_def wire_consts)
  ultimately show ?thesis
    by (intro conjunct1 [OF conjunct2 [OF forged_bundle_inert [OF _ _ _ _ refl]]]) (simp_all only: nth_Cons_0 list.distinct not_False_eq_True)
qed

text \<open>
  C39. A client that is refused \<open>UNAUTHORIZED\<close> again and again keeps its session until five
  seconds' worth of refusals have arrived, whatever their classification, and asks for a new
  assignment with the last of them.
\<close>

theorem unauthorized_storm:
  assumes "slot < length (wk_clients w)" "sc_state (client slot w) = ACTIVE" "sc_unauthorizedCount (client slot w) = 0"
    and "list_all (\<lambda>(ck, i, m). refusal m) xs" "w' = refuse cfg slot xs w" "0 < cf_updateHz cfg"
  shows "(int (length xs) < 5 * cf_updateHz cfg \<longrightarrow>
       sc_state (client slot w') = ACTIVE \<and> wk_control w' = wk_control w \<and>
       sc_unauthorizedCount (client slot w') = int (length xs)) \<and>
     (int (length xs) = 5 * cf_updateHz cfg \<longrightarrow>
       sc_state (client slot w') = SUSPENDED \<and> sc_unauthorizedCount (client slot w') = 0 \<and>
       cq_queue (wk_control w') = cq_queue (wk_control w) @
         [\<lparr>rq_workerIndex = wk_index w, rq_clientIndex = slot, rq_kind = REASSIGN, rq_creds = sc_creds (client slot w)\<rparr>])"
proof (intro conjI impI)
  assume n: "int (length xs) = 5 * cf_updateHz cfg"
  then have "xs \<noteq> []" using assms(6) by auto
  then obtain ys x where "xs = ys @ [x]" by (cases xs rule: rev_cases) auto
  then obtain ck i m where xs: "xs = ys @ [(ck, i, m)]" by (cases x) auto
  let ?v = "refuse cfg slot ys w"
  have "list_all (\<lambda>(ck, i, m). refusal m) ys" and m: "refusal m" using assms(4) by (simp_all add: xs)
  then have v: "length (wk_clients ?v) = length (wk_clients w) \<and> wk_control ?v = wk_control w \<and> wk_index ?v = wk_index w \<and>
      sc_state (client slot ?v) = sc_state (client slot w) \<and> sc_creds (client slot ?v) = sc_creds (client slot w) \<and>
      sc_unauthorizedCount (client slot ?v) = int (length ys)"
    using refuse_below [OF assms(1), of ys cfg] assms(3) n by (simp add: xs)
  have len: "slot < length (wk_clients ?v)" using v assms(1) by simp
  have "w' = handle_error cfg ck i m slot ?v" by (simp add: assms(5) xs refuse_snoc)
  then show "sc_state (client slot w') = SUSPENDED" "sc_unauthorizedCount (client slot w') = 0"
    "cq_queue (wk_control w') = cq_queue (wk_control w) @
         [\<lparr>rq_workerIndex = wk_index w, rq_clientIndex = slot, rq_kind = REASSIGN, rq_creds = sc_creds (client slot w)\<rparr>]"
    using refusal_step(2) [OF len m, of cfg ck i] v n assms(2) by (simp_all add: xs)
qed (use refuse_below [OF assms(1,4), of cfg] assms in simp_all)

theorem unauthorized_storm_witness:
  "sc_state (client 0 (refuse sample_config 0 (replicate (nat (5 * cf_updateHz sample_config)) (sample_clock, 0, [2, 0, ERR_UNAUTHORIZED]))
     (sample_worker sample_active))) = SUSPENDED"
proof -
  let ?xs = "replicate (nat (5 * cf_updateHz sample_config)) (sample_clock, 0 :: nat, [2, 0, ERR_UNAUTHORIZED])"
  have hz: "0 < cf_updateHz sample_config" by (simp add: sample_config_def Config_init_def)
  have "0 < length (wk_clients (sample_worker sample_active))" "sc_state (client 0 (sample_worker sample_active)) = ACTIVE"
    "sc_unauthorizedCount (client 0 (sample_worker sample_active)) = 0"
    by (simp_all add: sample_worker_def client_def sample_active_def SimClient_init_def)
  moreover have "list_all (\<lambda>(ck, i, m). refusal m) ?xs" by (simp add: list_all_iff refusal_def)
  ultimately show ?thesis using unauthorized_storm [OF _ _ _ _ refl hz, of 0 "sample_worker sample_active" ?xs] hz by simp
qed

text \<open>
  C14. The refresh latch within a turn. In a turn of a worker's loop in which no successful update
  arrives for a client, at most one refresh request is queued for it, none at all if the flag was
  set before, and a queued request leaves the flag set; failed updates do not clear it. A
  successful update clears it, whatever request it answers: after the answer to a reassignment the
  client may ask again although an earlier refresh request is still in the queue.
\<close>

theorem refresh_latched:
  assumes "slot < length (wk_clients w)"
    and "list_all (\<lambda>u. cu_clientIndex u = slot \<longrightarrow> cu_failed u) (wk_inbox w)"
    and "list_all (\<lambda>(s, rs). s < length (wk_clients w) + length (wk_pending w)) (tk_events tk)"
    and "worker_tick hm at2 cfg tk w = Some w'"
  shows "(\<exists>new. cq_queue (wk_control w') = cq_queue (wk_control w) @ new \<and>
       refreshes (wk_index w) slot new + (if sc_refreshRequested (client slot w) then 1 else 0)
         \<le> (if sc_refreshRequested (client slot w') then 1 else 0)) \<and>
     (\<forall>u. cu_clientIndex u = slot \<and> \<not> cu_failed u \<longrightarrow> \<not> sc_refreshRequested (client slot (apply_update cfg u w)))"
proof
  show "\<exists>new. cq_queue (wk_control w') = cq_queue (wk_control w) @ new \<and>
       refreshes (wk_index w) slot new + (if sc_refreshRequested (client slot w) then 1 else 0)
         \<le> (if sc_refreshRequested (client slot w') then 1 else 0)"
    using latch_tick [OF assms] by (auto simp: latch_def latched_def)
  show "\<forall>u. cu_clientIndex u = slot \<and> \<not> cu_failed u \<longrightarrow> \<not> sc_refreshRequested (client slot (apply_update cfg u w))"
    using assms(1) update_unlatches by blast
qed

theorem refresh_latched_witness:
  "\<exists>w'. worker_tick (\<lambda>k b. None) (\<lambda>x y. 0) sample_config sample_tick sample_latched = Some w' \<and>
     sc_refreshRequested (client 0 w') \<and> sc_state (client 0 w') = ACTIVE"
proof -
  let ?w = "sample_latched\<lparr>wk_inbox := []\<rparr>"
  have c: "sc_refreshRequested (client 0 sample_latched)" "sc_state (client 0 ?w) = ACTIVE"
    by (simp_all add: sample_latched_def sample_worker_def client_def sample_active_def)
  have "\<exists>new. cq_queue (wk_control ?w) = cq_queue (wk_control sample_latched) @ new \<and>
     refreshes (wk_index sample_latched) 0 new + (if sc_refreshRequested (client 0 sample_latched) then 1 else 0)
       \<le> (if sc_refreshRequested (client 0 ?w) then 1 else 0)"
    by (rule refresh_latched [OF _ _ _ sample_idle_tick, THEN conjunct1]) (simp_all add: sample_latched_def sample_worker_def sample_tick_def)
  with c have "sc_refreshRequested (client 0 ?w)" by (auto split: if_splits)
  with c show ?thesis using sample_idle_tick by blast
qed

text \<open>
  C40. The control queue is first in, first out for every interleaving of pushes, pops and a
  shutdown: the requests popped, followed by those left, are those present followed by those
  pushed. A shutdown discards nothing: the remaining requests are popped before a pop fails.
\<close>

theorem control_queue_fifo:
  assumes "run_queue queue_push queue_take queue_shutdown ops q = (taken, q')"
  shows "taken @ cq_queue q' = cq_queue q @ puts ops \<and>
     fst (run_queue queue_push queue_take queue_shutdown (replicate (length (cq_queue q')) Take) (queue_shutdown q')) = cq_queue q' \<and>
     (queue_pop (queue_shutdown q') = ShutDown \<longleftrightarrow> cq_queue q' = [])"
proof -
  have "cq_queue (queue_shutdown q') = cq_queue q'" by (rule ctl.contents_close)
  with ctl.fifo [OF assms] ctl.emptied [of "queue_shutdown q'"] show ?thesis
    by (auto simp: queue_pop_def queue_shutdown_def split: list.splits)
qed

theorem control_queue_fifo_witness:
  "\<exists>q'. run_queue queue_push queue_take queue_shutdown
     [Put (sample_request REFRESH), Put (sample_request REASSIGN), Close, Take] sample_queue =
       ([sample_request REFRESH], q') \<and> cq_queue q' = [sample_request REASSIGN]"
proof -
  let ?ops = "[Put (sample_request REFRESH), Put (sample_request REASSIGN), Close, Take]"
  obtain q' where r: "run_queue queue_push queue_take queue_shutdown ?ops sample_queue = ([sample_request REFRESH], q')"
    by (simp add: queue_push_def queue_take_def queue_pop_def queue_shutdown_def sample_queue_def)
  with control_queue_fifo [OF r] show ?thesis by (simp add: sample_queue_def)
qed

end
