(* ===== verification/Population.thy ===== *)
theory Population
  imports Worker
begin

text \<open>
  Who a worker's clients are. A client keeps its global index for as long as it lives, whatever
  a turn of the loop does to it, and what a worker asks of the control thread names the worker,
  one of its slots, and the client in that slot.
\<close>

section \<open>Identities\<close>

definition ids :: "Worker \<Rightarrow> int list" where
  "ids w = map (\<lambda>c. cr_index (sc_creds c)) (wk_clients w)"

definition waiting_ids :: "Worker \<Rightarrow> int list" where
  "waiting_ids w = map (\<lambda>p. cr_index (pa_creds p)) (wk_pending w)"

definition names :: "int list \<Rightarrow> nat \<Rightarrow> int \<Rightarrow> bool" where
  "names xs slot index \<longleftrightarrow> slot < length xs \<and> xs ! slot = index"

lemma names_append: "names xs slot index \<Longrightarrow> names (xs @ ys) slot index"
  by (simp add: names_def nth_append)

definition update_names :: "int list \<Rightarrow> ClientUpdate \<Rightarrow> bool" where
  "update_names xs u \<longleftrightarrow> names xs (cu_clientIndex u) (cr_index (cu_creds u))"

definition request_names :: "int list \<Rightarrow> ControlRequest \<Rightarrow> bool" where
  "request_names xs r \<longleftrightarrow> names xs (rq_clientIndex r) (cr_index (rq_creds r))"

lemma length_ids [simp]: "length (ids w) = length (wk_clients w)"
  by (simp add: ids_def)

lemma ids_nth: "slot < length (wk_clients w) \<Longrightarrow> ids w ! slot = cr_index (sc_creds (client slot w))"
  by (simp add: ids_def client_def)

lemma ids_cong: "wk_clients w' = wk_clients w \<Longrightarrow> ids w' = ids w"
  by (simp add: ids_def)

lemma ids_on_stats [simp]: "ids (on_stats g w) = ids w"
  by (rule ids_cong) simp

lemma ids_on_client:
  "cr_index (sc_creds (f (client slot w))) = cr_index (sc_creds (client slot w)) \<Longrightarrow> ids (on_client slot f w) = ids w"
  by (cases "slot < length (wk_clients w)")
    (auto simp: ids_def wk_clients_on_client client_def nth_list_update list_eq_iff_nth_eq)

section \<open>One turn\<close>

text \<open>
  The state of a worker in the middle of a turn that started with queue \<open>q\<close>: the same clients,
  nothing pending, and only requests of its own added.
\<close>

definition own_request :: "int \<Rightarrow> int list \<Rightarrow> ControlRequest \<Rightarrow> bool" where
  "own_request i xs r \<longleftrightarrow> rq_workerIndex r = i \<and> request_names xs r"

definition own_requests :: "int \<Rightarrow> int list \<Rightarrow> ControlQueue \<Rightarrow> ControlQueue \<Rightarrow> bool" where
  "own_requests i xs q q' \<longleftrightarrow> cq_shutdown q' = cq_shutdown q \<and>
     (\<exists>new. cq_queue q' = cq_queue q @ new \<and> list_all (own_request i xs) new)"

definition tagged :: "int list \<Rightarrow> int \<Rightarrow> ControlQueue \<Rightarrow> Worker \<Rightarrow> bool" where
  "tagged xs i q w \<longleftrightarrow> ids w = xs \<and> wk_index w = i \<and> wk_pending w = [] \<and> wk_inbox w = [] \<and>
     own_requests i xs q (wk_control w)"

lemma own_requests_refl: "own_requests i xs q q"
  by (simp add: own_requests_def)

lemma own_requests_push: "own_requests i xs q q' \<Longrightarrow> own_request i xs r \<Longrightarrow> own_requests i xs q (queue_push r q')"
  by (auto simp: own_requests_def queue_push_def)

lemma tagged_frame:
  "tagged xs i q w \<Longrightarrow> ids w' = ids w \<Longrightarrow> wk_index w' = wk_index w \<Longrightarrow> wk_pending w' = wk_pending w \<Longrightarrow>
     wk_inbox w' = wk_inbox w \<Longrightarrow> wk_control w' = wk_control w \<Longrightarrow> tagged xs i q w'"
  by (simp add: tagged_def)

lemma tagged_on_client:
  "tagged xs i q w \<Longrightarrow> sc_creds (f (client s w)) = sc_creds (client s w) \<Longrightarrow> tagged xs i q (on_client s f w)"
  by (erule tagged_frame) (simp_all add: ids_on_client)

lemma tagged_push:
  assumes "tagged xs i q w" "s < length (wk_clients w)"
  shows "tagged xs i q (w\<lparr>wk_control := queue_push \<lparr>rq_workerIndex = wk_index w, rq_clientIndex = s, rq_kind = k,
      rq_creds = sc_creds (client s w)\<rparr> (wk_control w)\<rparr>)"
proof -
  have "own_request i xs \<lparr>rq_workerIndex = wk_index w, rq_clientIndex = s, rq_kind = k, rq_creds = sc_creds (client s w)\<rparr>"
    using assms ids_nth [of s w] by (auto simp: own_request_def request_names_def names_def tagged_def)
  then show ?thesis using assms by (simp add: tagged_def own_requests_push ids_def)
qed

lemma tagged_suspend:
  assumes "tagged xs i q w" "s < length (wk_clients w)"
  shows "tagged xs i q (suspendClient k s w)"
proof (cases "sc_state (client s w) = SUSPENDED")
  case True
  then show ?thesis using assms by (simp add: suspendClient_def)
next
  case False
  let ?w = "on_stats (\<lambda>s. s\<lparr>st_suspendedClients := st_suspendedClients s + 1\<rparr>)
     (on_client s (\<lambda>c. c\<lparr>sc_state := SUSPENDED\<rparr>)
       (if sc_state (client s (on_client s closeSocket w)) = ACTIVE
        then on_stats (\<lambda>s. s\<lparr>st_activeClients := st_activeClients s - 1\<rparr>) (on_client s closeSocket w)
        else on_client s closeSocket w))"
  have "tagged xs i q (on_client s closeSocket w)" using assms(1) by (rule tagged_on_client) simp
  then have "tagged xs i q ?w" by (auto elim!: tagged_frame simp: ids_on_client)
  from tagged_push [OF this, of s k] show ?thesis using False assms(2) by (simp add: suspendClient_def Let_def)
qed

interpretation naming: worker_turn "tagged xs i q" "{..<length xs}" for xs i q
proof
  fix w s f
  assume w: "tagged xs i q w" and "s \<in> {..<length xs}"
  then have s: "s < length (wk_clients w)" by (auto simp: tagged_def)
  then show "s < length (wk_clients w)" .
  show "kept (client s w) (f (client s w)) \<Longrightarrow> tagged xs i q (on_client s f w)"
    using w by (rule tagged_on_client) (simp add: kept_def)
  show "tagged xs i q (suspendClient REASSIGN s w)" using w s by (rule tagged_suspend)
  have "tagged xs i q (on_client s (\<lambda>c. c\<lparr>sc_refreshRequested := True\<rparr>) w)" using w by (rule tagged_on_client) simp
  then show "tagged xs i q (suspendClient REFRESH s (on_client s (\<lambda>c. c\<lparr>sc_refreshRequested := True\<rparr>) w))"
    using s by (intro tagged_suspend) simp_all
next
  fix w s v
  assume w: "tagged xs i q w" and "s \<in> {..<length xs}" and v: "v = on_client s (\<lambda>c. c\<lparr>sc_refreshRequested := True\<rparr>) w"
  then have s: "s < length (wk_clients w)" by (auto simp: tagged_def)
  have "tagged xs i q v" unfolding v using w by (rule tagged_on_client) simp
  from tagged_push [OF this, of s REFRESH] s
  show "tagged xs i q (v\<lparr>wk_control := queue_push \<lparr>rq_workerIndex = wk_index w, rq_clientIndex = s, rq_kind = REFRESH,
      rq_creds = sc_creds (client s w)\<rparr> (wk_control w)\<rparr>)" by (simp add: v)
next
  fix w
  assume "tagged xs i q w"
  then show "{..<length xs} = {..<length (wk_clients w)}" by (auto simp: tagged_def)
qed (auto elim!: tagged_frame simp: ids_on_client)

section \<open>The beginning of a turn\<close>

lemma ids_push_client: "ids (push_client p w) = ids w @ [cr_index (pa_creds p)]"
  by (simp add: ids_def push_client_def Let_def SimClient_init_def)

lemma pending_identities:
  "ids (applyPendingClients w) = ids w @ waiting_ids w \<and> wk_pending (applyPendingClients w) = [] \<and>
   wk_inbox (applyPendingClients w) = wk_inbox w \<and> wk_index (applyPendingClients w) = wk_index w \<and>
   wk_control (applyPendingClients w) = wk_control w"
proof -
  have "ids (fold push_client ps v) = ids v @ map (\<lambda>p. cr_index (pa_creds p)) ps \<and> wk_pending (fold push_client ps v) = wk_pending v \<and>
     wk_inbox (fold push_client ps v) = wk_inbox v \<and> wk_index (fold push_client ps v) = wk_index v \<and>
     wk_control (fold push_client ps v) = wk_control v" for ps v
    by (induction ps arbitrary: v) (simp_all add: ids_push_client, simp_all add: push_client_def Let_def)
  from this [of "wk_pending w" "w\<lparr>wk_pending := []\<rparr>"] show ?thesis
    by (simp add: applyPendingClients_def waiting_ids_def ids_def)
qed

lemma tagged_update:
  assumes w: "tagged xs i q w" and u: "update_names xs u"
  shows "tagged xs i q (apply_update cfg u w)"
proof -
  let ?s = "cu_clientIndex u"
  have s: "?s < length (wk_clients w)" and i: "cr_index (sc_creds (client ?s w)) = cr_index (cu_creds u)"
    using w u ids_nth [of ?s w] by (auto simp: tagged_def update_names_def names_def)
  let ?v = "on_client ?s (\<lambda>c. c\<lparr>sc_creds := cu_creds u, sc_refreshRequested := False\<rparr>) w"
  have "tagged xs i q ?v" using w by (rule tagged_frame) (simp_all add: ids_on_client i)
  then show ?thesis using s w
    by (auto simp: apply_update_def Let_def ids_on_client elim!: tagged_frame)
qed

lemma begun:
  assumes "list_all (update_names (ids w)) (wk_inbox w)"
  shows "tagged (ids w @ waiting_ids w) (wk_index w) (wk_control w) (applyPendingUpdates cfg (applyPendingClients w))"
proof -
  let ?w = "applyPendingClients w" and ?t = "tagged (ids w @ waiting_ids w) (wk_index w) (wk_control w)"
  have "?t (?w\<lparr>wk_inbox := []\<rparr>)" using pending_identities [of w] by (simp add: tagged_def own_requests_refl ids_def)
  moreover have "update_names (ids w @ waiting_ids w) u" if "u \<in> set (wk_inbox ?w)" for u
    using assms that pending_identities [of w] by (auto simp: list_all_iff update_names_def names_append)
  ultimately show ?thesis unfolding applyPendingUpdates_def
    by (intro fold_preserves [where P = ?t]) (auto intro: tagged_update)
qed

text \<open>What a turn does to identities, to the inbox and to the queue.\<close>

lemma tick_identities:
  assumes t: "worker_tick hm at2 cfg tk w = Some w'" and inbox: "list_all (update_names (ids w)) (wk_inbox w)"
    and events: "\<forall>(slot, rs) \<in> set (tk_events tk). slot < length (wk_clients w) + length (wk_pending w)"
  shows "tagged (ids w @ waiting_ids w) (wk_index w) (wk_control w) w'"
proof -
  from t obtain v x where "activateDueClients cfg tk (applyPendingUpdates cfg (applyPendingClients w)) = Some v"
    "sendDueUpdates hm at2 cfg tk v = Some x" and w': "w' = fold (\<lambda>(slot, rs). drainSocket hm cfg slot rs) (tk_events tk) x"
    by (auto simp: worker_tick_def split: option.splits)
  from naming.turn [OF begun [OF inbox] this(1,2)] events show ?thesis
    by (simp add: w' case_prod_beta waiting_ids_def)
qed

end
