(* ===== verification/GraphQL.thy ===== *)
theory GraphQL
  imports Json Config
begin

text \<open>
  The GraphQL client (\<^verbatim>\<open>src/GraphQLClient.hpp\<close>, \<^verbatim>\<open>src/GraphQLClient.cpp\<close>) and what surrounds its
  calls: exceptions as values, a state monad with exceptions, and the world outside. The world
  answers the \<open>n\<close>-th HTTP request of a run with the \<open>n\<close>-th answer of a script and keeps the
  requests it was sent; nothing is assumed of the script, so what holds for every script holds
  for every service. Transport (libcurl) and JSON text (nlohmann) are the library's: an answer is
  a failure, or a status code with the parsed body, \<open>None\<close> when the body is not JSON. A request always
  prints here; \<^verbatim>\<open>Transport\<close> has the case of one that holds ill-formed UTF-8 and raises.

  Messages the program composes are named by a constructor with the values they quote; the text
  of a message that comes from the service is kept, because the program searches it.
\<close>

section \<open>Exceptions\<close>

datatype hint = NoHint | FundWallet | NeedsManageApps

datatype message =
    ApiSays string
  | CurlFailed
  | NonJson int
  | HttpStatus int
  | MissingData
  | RosterUnreadable string
  | RosterNotJson string
  | RosterOrigin string string
  | RosterEmail int string string
  | SignInRejected string message
  | ReplaySignIn string message
  | ReplayAnswered bool
  | ReplayRefused bool message hint
  | MintForbidden string
  | NoGameApiUrl
  | NoRosterGameApiUrl
  | TokenLength nat

text \<open>
  \<open>Undefined\<close>: the program reads a missing key of a constant object, or converts a number that
  does not fit; the language gives no meaning to what follows.
\<close>

datatype Exn =
    GraphQLError (exn_what: message) (exn_code: string) (exn_transport: bool)
  | JsonError json_error
  | StdError config_error
  | Undefined

fun is_graphql :: "Exn \<Rightarrow> bool" where
  "is_graphql (GraphQLError m c t) = True"
| "is_graphql _ = False"

text \<open>\<^verbatim>\<open>e.isTransport()\<close> and \<^verbatim>\<open>e.code()\<close>, in handlers that catch only \<^verbatim>\<open>GraphQLError\<close>.\<close>

fun isTransport :: "Exn \<Rightarrow> bool" where
  "isTransport (GraphQLError m c t) = t"
| "isTransport _ = False"

fun code_of :: "Exn \<Rightarrow> string" where
  "code_of (GraphQLError m c t) = c"
| "code_of _ = []"

fun what_of :: "Exn \<Rightarrow> message" where
  "what_of (GraphQLError m c t) = m"
| "what_of _ = ApiSays []"

definition exn_of_json :: "json_error \<Rightarrow> Exn" where
  "exn_of_json e = (if e = NoMeaning then Undefined else JsonError e)"

definition jerr :: "json_error + 'a \<Rightarrow> Exn + 'a" where
  "jerr r = map_sum exn_of_json id r"

definition serr :: "config_error + 'a \<Rightarrow> Exn + 'a" where
  "serr r = map_sum StdError id r"

text \<open>\<^verbatim>\<open>j[key]\<close> on a modifiable value (a missing key reads null, null becomes an object) and on a constant one.\<close>

definition jindex :: "json \<Rightarrow> string \<Rightarrow> Exn + json" where
  "jindex j k =
     (case j of
        JObj kvs \<Rightarrow> Inr (case map_of kvs k of Some v \<Rightarrow> v | None \<Rightarrow> JNull)
      | JNull \<Rightarrow> Inr JNull
      | _ \<Rightarrow> Inl (JsonError (TypeError 305)))"

definition jat :: "json \<Rightarrow> string \<Rightarrow> Exn + json" where
  "jat j k =
     (case j of
        JObj kvs \<Rightarrow> (case map_of kvs k of Some v \<Rightarrow> Inr v | None \<Rightarrow> Inl Undefined)
      | _ \<Rightarrow> Inl (JsonError (TypeError 305)))"

fun is_string :: "json \<Rightarrow> bool" where
  "is_string (JStr s) = True"
| "is_string _ = False"

fun is_boolean :: "json \<Rightarrow> bool" where
  "is_boolean (JBool b) = True"
| "is_boolean _ = False"

section \<open>Operations that may raise\<close>

type_synonym ('s, 'a) io = "'s \<Rightarrow> (Exn + 'a) \<times> 's"

definition io_ok :: "'a \<Rightarrow> ('s, 'a) io" where
  "io_ok x s = (Inr x, s)"

definition io_of :: "Exn + 'a \<Rightarrow> ('s, 'a) io" where
  "io_of r s = (r, s)"

definition io_throw :: "Exn \<Rightarrow> ('s, 'a) io" where
  "io_throw e s = (Inl e, s)"

definition io_bind :: "('s, 'a) io \<Rightarrow> ('a \<Rightarrow> ('s, 'b) io) \<Rightarrow> ('s, 'b) io" where
  "io_bind m f s = (case m s of (Inl e, s') \<Rightarrow> (Inl e, s') | (Inr x, s') \<Rightarrow> f x s')"

text \<open>\<^verbatim>\<open>try { m } catch (const GraphQLError& e) { h(e) }\<close>; other exceptions pass.\<close>

definition io_catch :: "('s, 'a) io \<Rightarrow> (Exn \<Rightarrow> ('s, 'a) io) \<Rightarrow> ('s, 'a) io" where
  "io_catch m h s =
     (case m s of (Inl e, s') \<Rightarrow> if is_graphql e then h e s' else (Inl e, s') | (Inr x, s') \<Rightarrow> (Inr x, s'))"

section \<open>The world\<close>

datatype Query =
    LOGIN_MUTATION | REGISTER_MUTATION | MINT_MUTATION | CONSENTS_MUTATION | REFRESH_MUTATION
  | LEGACY_REFRESH_MUTATION | ASSIGN_QUERY | SET_REPLAY_LOGGING_MUTATION
  | READ_REPLAY_LOGGING_QUERY | BOOTSTRAP_QUERY

record Request =
  rs_url :: string
  rs_query :: Query
  rs_variables :: json
  rs_bearer :: string
  rs_headers :: "string list"

datatype Http = HFailed | HAnswer int "json option"

text \<open>Clock readings, in nanoseconds, are scripted like the answers: by the number of requests sent.\<close>

record World =
  wo_http :: "nat \<Rightarrow> Http"
  wo_steady :: "nat \<Rightarrow> int"
  wo_system :: "nat \<Rightarrow> int"
  wo_sent :: "Request list"

definition post :: "Request \<Rightarrow> World \<Rightarrow> Http \<times> World" where
  "post r w = (wo_http w (length (wo_sent w)), w\<lparr>wo_sent := wo_sent w @ [r]\<rparr>)"

definition steady_now :: "World \<Rightarrow> int" where "steady_now w = wo_steady w (length (wo_sent w))"
definition system_now :: "World \<Rightarrow> int" where "system_now w = wo_system w (length (wo_sent w))"

section \<open>The client\<close>

definition trimSlash :: "string \<Rightarrow> string" where
  "trimSlash s = rev (dropWhile (\<lambda>c. c = CHR ''/'') (rev s))"

definition graphqlEndpoint :: "string \<Rightarrow> string" where
  "graphqlEndpoint baseUrl =
     (let url = trimSlash baseUrl
      in if length url < 8 \<or> drop (length url - 8) url \<noteq> ''/graphql'' then url @ ''/graphql'' else url)"

text \<open>What the answer means: the first GraphQL error wins over the status, the status over the data.\<close>

definition first_error :: "json list \<Rightarrow> Exn" where
  "first_error errs =
     (let first = errs ! 0;
          r = ebind (jerr (jvalue get_string first ''message'' ''unknown GraphQL error'')) (\<lambda>message.
              ebind (case jlookup first ''extensions'' of
                       Some ext \<Rightarrow> if is_object ext then jerr (jvalue get_string ext ''code'' []) else Inr []
                     | None \<Rightarrow> Inr []) (\<lambda>code. Inr (GraphQLError (ApiSays message) code False)))
      in case r of Inl e \<Rightarrow> e | Inr e \<Rightarrow> e)"

definition interpret_answer :: "Http \<Rightarrow> Exn + json" where
  "interpret_answer answer =
     (case answer of
        HFailed \<Rightarrow> Inl (GraphQLError CurlFailed [] True)
      | HAnswer httpCode None \<Rightarrow> Inl (GraphQLError (NonJson httpCode) [] True)
      | HAnswer httpCode (Some parsed) \<Rightarrow>
          (case jlookup parsed ''errors'' of
             Some (JArr (e # es)) \<Rightarrow> Inl (first_error (e # es))
           | _ \<Rightarrow>
               if httpCode < 200 \<or> httpCode \<ge> 300 then Inl (GraphQLError (HttpStatus httpCode) [] True)
               else case jlookup parsed ''data'' of
                      None \<Rightarrow> Inl (GraphQLError MissingData [] True)
                    | Some JNull \<Rightarrow> Inl (GraphQLError MissingData [] True)
                    | Some d \<Rightarrow> Inr d))"

definition request :: "string \<Rightarrow> Query \<Rightarrow> json \<Rightarrow> string \<Rightarrow> string list \<Rightarrow> (World, json) io" where
  "request baseUrl query variables bearer extraHeaders w =
     (let auth = (if bearer \<noteq> [] then [''Authorization: Bearer '' @ bearer] else []);
          (answer, w) = post \<lparr>rs_url = graphqlEndpoint baseUrl, rs_query = query, rs_variables = variables,
             rs_bearer = bearer, rs_headers = [''Content-Type: application/json''] @ auth @ extraHeaders\<rparr> w
      in (interpret_answer answer, w))"

section \<open>Lemmas\<close>

lemma io_ok_iff [simp]: "io_ok x s = (r, s') \<longleftrightarrow> r = Inr x \<and> s' = s"
  by (auto simp: io_ok_def)

lemma io_of_iff [simp]: "io_of x s = (r, s') \<longleftrightarrow> r = x \<and> s' = s"
  by (auto simp: io_of_def)

lemma io_throw_iff [simp]: "io_throw e s = (r, s') \<longleftrightarrow> r = Inl e \<and> s' = s"
  by (auto simp: io_throw_def)

lemma io_bind_Inr_iff:
  "io_bind m f s = (Inr y, s') \<longleftrightarrow> (\<exists>x t. m s = (Inr x, t) \<and> f x t = (Inr y, s'))"
  by (auto simp: io_bind_def split: prod.splits sum.splits)

lemma io_bind_Inl_iff:
  "io_bind m f s = (Inl e, s') \<longleftrightarrow> m s = (Inl e, s') \<or> (\<exists>x t. m s = (Inr x, t) \<and> f x t = (Inl e, s'))"
  by (auto simp: io_bind_def split: prod.splits sum.splits)

lemma io_bind_eval: "m s = (Inr x, t) \<Longrightarrow> io_bind m f s = f x t" "m s = (Inl e, t) \<Longrightarrow> io_bind m f s = (Inl e, t)"
  by (simp_all add: io_bind_def)

lemma io_catch_Inr_iff:
  "io_catch m h s = (Inr y, s') \<longleftrightarrow>
     m s = (Inr y, s') \<or> (\<exists>e t. m s = (Inl e, t) \<and> is_graphql e \<and> h e t = (Inr y, s'))"
  by (auto simp: io_catch_def split: prod.splits sum.splits)

lemma io_catch_Inl_iff:
  "io_catch m h s = (Inl e, s') \<longleftrightarrow>
     m s = (Inl e, s') \<and> \<not> is_graphql e \<or> (\<exists>e' t. m s = (Inl e', t) \<and> is_graphql e' \<and> h e' t = (Inl e, s'))"
  by (auto simp: io_catch_def split: prod.splits sum.splits)

text \<open>
  A relation between the state before and after that holds of nothing happening and composes is
  kept by whole operations when it is kept by their parts, whether they return or raise.
\<close>

definition framed :: "('s \<Rightarrow> 's \<Rightarrow> bool) \<Rightarrow> ('s, 'a) io \<Rightarrow> bool" where
  "framed R m \<longleftrightarrow> (\<forall>s r s'. m s = (r, s') \<longrightarrow> R s s')"

lemma framedD: "framed R m \<Longrightarrow> m s = (r, s') \<Longrightarrow> R s s'"
  by (simp add: framed_def)

lemma framed_if: "framed R m \<Longrightarrow> framed R n \<Longrightarrow> framed R (if b then m else n)"
  by simp

locale frame_relation =
  fixes R :: "'s \<Rightarrow> 's \<Rightarrow> bool"
  assumes refl: "R s s"
    and trans: "R s t \<Longrightarrow> R t u \<Longrightarrow> R s u"
begin

lemma framed_pure: "framed R (io_ok x)" "framed R (io_of y)" "framed R (io_throw e)" "framed R (\<lambda>s. (f s, s))"
  by (auto simp: framed_def refl)

lemma framed_bind:
  assumes "framed R m" "\<And>x. framed R (f x)"
  shows "framed R (io_bind m f)"
  unfolding framed_def
proof (intro allI impI)
  fix s r s' assume "io_bind m f s = (r, s')"
  then consider e where "m s = (Inl e, s')" | x t where "m s = (Inr x, t)" "f x t = (r, s')"
    by (auto simp: io_bind_def split: prod.splits sum.splits)
  then show "R s s'"
    by cases (use assms in \<open>auto dest: framedD intro: trans\<close>)
qed

lemma framed_catch:
  assumes "framed R m" "\<And>e. framed R (h e)"
  shows "framed R (io_catch m h)"
  unfolding framed_def
proof (intro allI impI)
  fix s r s' assume "io_catch m h s = (r, s')"
  then consider "m s = (r, s')" | e t where "m s = (Inl e, t)" "h e t = (r, s')"
    by (auto simp: io_catch_def split: prod.splits sum.splits if_splits)
  then show "R s s'"
    by cases (use assms in \<open>auto dest: framedD intro: trans\<close>)
qed

end

lemma jerr_simps [simp]: "jerr (Inl e) = Inl (exn_of_json e)" "jerr (Inr x) = Inr x"
  by (simp_all add: jerr_def)

lemma exn_of_json_simps [simp]:
  "exn_of_json (TypeError n) = JsonError (TypeError n)" "exn_of_json NoMeaning = Undefined" "\<not> is_graphql (exn_of_json e)"
  by (simp_all add: exn_of_json_def)

lemma serr_simps [simp]: "serr (Inl e) = Inl (StdError e)" "serr (Inr x) = Inr x"
  by (simp_all add: serr_def)

lemma jerr_Inr_iff: "jerr r = Inr x \<longleftrightarrow> r = Inr x" by (cases r) simp_all
lemma serr_Inr_iff: "serr r = Inr x \<longleftrightarrow> r = Inr x" by (cases r) simp_all

lemma request_frame:
  "request u q v b h w = (r, w') \<Longrightarrow> wo_http w' = wo_http w \<and> wo_steady w' = wo_steady w \<and> wo_system w' = wo_system w \<and>
     (\<exists>x. wo_sent w' = wo_sent w @ [x] \<and> rs_query x = q \<and> rs_bearer x = b)"
  by (auto simp: request_def post_def Let_def)

lemma trimSlash_idem: "trimSlash (trimSlash s) = trimSlash s"
  by (simp add: trimSlash_def)

lemma trimSlash_graphql: "trimSlash (s @ ''/graphql'') = s @ ''/graphql''"
  by (simp add: trimSlash_def)

lemma endpoint_suffix: "\<exists>p. graphqlEndpoint u = p @ ''/graphql''"
proof (cases "length (trimSlash u) < 8 \<or> drop (length (trimSlash u) - 8) (trimSlash u) \<noteq> ''/graphql''")
  case False
  then show ?thesis
    using append_take_drop_id [of "length (trimSlash u) - 8" "trimSlash u"]
    by (auto simp: graphqlEndpoint_def Let_def)
       (metis append_take_drop_id)
qed (auto simp: graphqlEndpoint_def Let_def)

lemma endpoint_idem: "graphqlEndpoint (graphqlEndpoint u) = graphqlEndpoint u"
proof -
  obtain p where "graphqlEndpoint u = p @ ''/graphql''" using endpoint_suffix by blast
  moreover have "graphqlEndpoint (p @ ''/graphql'') = p @ ''/graphql''"
    by (simp add: graphqlEndpoint_def trimSlash_graphql)
  ultimately show ?thesis by simp
qed

lemma interpret_answer_data:
  "interpret_answer a = Inr d \<Longrightarrow> d \<noteq> JNull \<and> (\<exists>code parsed. a = HAnswer code (Some parsed) \<and> 200 \<le> code \<and> code < 300 \<and>
     jlookup parsed ''data'' = Some d)"
  by (auto simp: interpret_answer_def split: Http.splits option.splits json.splits list.splits if_splits)

end
