(* ===== verification/Timestamp.thy ===== *)
theory Timestamp
  imports GraphQL
begin

text \<open>
  Expiry times (\<^verbatim>\<open>parseIso8601Utc\<close> in \<^verbatim>\<open>src/Provisioner.cpp\<close>): \<^verbatim>\<open>sscanf\<close> with
  \<^verbatim>\<open>%d-%d-%dT%d:%d:%lf\<close>, \<^verbatim>\<open>timegm\<close>, and the conversion of the fraction to milliseconds. A number
  that does not fit an \<^verbatim>\<open>int\<close> has no defined conversion. Of \<^verbatim>\<open>%lf\<close> the plain decimal form is
  modelled; a hexadecimal, non-finite or exponent form is \<open>Undefined\<close> here. The system clock counts
  nanoseconds in 64 bits: an instant beyond them is \<open>Undefined\<close> too.
\<close>

section \<open>Scanning\<close>

definition int_fits :: "int \<Rightarrow> bool" where
  "int_fits i \<longleftrightarrow> - (2 ^ 31) \<le> i \<and> i < 2 ^ 31"

definition scan_sign :: "string \<Rightarrow> bool \<times> string" where
  "scan_sign s =
     (case s of [] \<Rightarrow> (False, [])
      | c # cs \<Rightarrow> if c = CHR ''-'' then (True, cs) else if c = CHR ''+'' then (False, cs) else (False, s))"

text \<open>\<open>scan_d\<close>: the number and the rest; \<open>None\<close> when nothing matches.\<close>

definition scan_d :: "string \<Rightarrow> Exn + (int \<times> string) option" where
  "scan_d s =
     (let (neg, u) = scan_sign (dropWhile is_space s);
          ds = takeWhile is_digit u;
          n = (if neg then - int (undec ds) else int (undec ds))
      in if ds = [] then Inr None
         else if \<not> int_fits n then Inl Undefined
         else Inr (Some (n, dropWhile is_digit u)))"

definition scan_lit :: "char \<Rightarrow> string \<Rightarrow> string option" where
  "scan_lit c s = (case s of [] \<Rightarrow> None | x # xs \<Rightarrow> if x = c then Some xs else None)"

definition starts_in :: "char set \<Rightarrow> string \<Rightarrow> bool" where
  "starts_in C s \<longleftrightarrow> (case s of [] \<Rightarrow> False | c # cs \<Rightarrow> c \<in> C)"

definition scan_lf :: "string \<Rightarrow> Exn + double option" where
  "scan_lf s =
     (let (neg, u) = scan_sign (dropWhile is_space s);
          ip = takeWhile is_digit u;
          r = dropWhile is_digit u;
          fp = (if starts_in {CHR ''.''} r then takeWhile is_digit (tl r) else []);
          r2 = (if starts_in {CHR ''.''} r then dropWhile is_digit (tl r) else r);
          v = f64_round (real (undec (ip @ fp)) / 10 ^ length fp)
      in if starts_in {CHR ''i'', CHR ''I'', CHR ''n'', CHR ''N''} u \<or>
            ip = ''0'' \<and> starts_in {CHR ''x'', CHR ''X''} r then Inl Undefined
         else if ip = [] \<and> fp = [] then Inr None
         else if starts_in {CHR ''e'', CHR ''E''} r2 then Inl Undefined
         else Inr (Some (if neg then - v else v)))"

record Fields =
  tm_year :: int
  tm_mon :: int
  tm_day :: int
  tm_hour :: int
  tm_min :: int
  tm_sec :: double

text \<open>One \<^verbatim>\<open>%d\<close> followed by a literal.\<close>

definition scan_field :: "char \<Rightarrow> string \<Rightarrow> Exn + (int \<times> string) option" where
  "scan_field c s =
     ebind (scan_d s) (\<lambda>r. Inr (case r of None \<Rightarrow> None
        | Some (n, rest) \<Rightarrow> (case scan_lit c rest of None \<Rightarrow> None | Some rest \<Rightarrow> Some (n, rest))))"

fun scan_fields :: "char list \<Rightarrow> string \<Rightarrow> Exn + (int list \<times> string) option" where
  "scan_fields [] s = Inr (Some ([], s))"
| "scan_fields (c # cs) s =
     ebind (scan_field c s) (\<lambda>r. case r of None \<Rightarrow> Inr None
       | Some (n, rest) \<Rightarrow> ebind (scan_fields cs rest) (\<lambda>q. Inr (case q of None \<Rightarrow> None
           | Some (ns, rest) \<Rightarrow> Some (n # ns, rest))))"

definition sscanf_iso :: "string \<Rightarrow> Exn + Fields option" where
  "sscanf_iso s =
     ebind (scan_fields [CHR ''-'', CHR ''-'', CHR ''T'', CHR '':'', CHR '':''] s) (\<lambda>r. case r of None \<Rightarrow> Inr None
       | Some (ns, rest) \<Rightarrow> ebind (scan_lf rest) (\<lambda>q. Inr (case q of None \<Rightarrow> None
           | Some sec \<Rightarrow> Some \<lparr>tm_year = ns ! 0, tm_mon = ns ! 1, tm_day = ns ! 2, tm_hour = ns ! 3,
                              tm_min = ns ! 4, tm_sec = sec\<rparr>)))"

section \<open>The calendar\<close>

definition leap :: "int \<Rightarrow> bool" where
  "leap y \<longleftrightarrow> y mod 4 = 0 \<and> (y mod 100 \<noteq> 0 \<or> y mod 400 = 0)"

definition month_days :: "int \<Rightarrow> int \<Rightarrow> int" where
  "month_days y m = (if m = 1 then (if leap y then 29 else 28) else if m \<in> {3, 5, 8, 10} then 30 else 31)"

text \<open>Days before the year, from 1 January 1970, and before a month (counted from 0) of the year.\<close>

definition year_start :: "int \<Rightarrow> int" where
  "year_start y = 365 * (y - 1970) + ((y - 1) div 4 - (y - 1) div 100 + (y - 1) div 400) - 477"

definition month_start :: "int \<Rightarrow> int \<Rightarrow> int" where
  "month_start y m =
     [0, 31, 59, 90, 120, 151, 181, 212, 243, 273, 304, 334] ! nat m + (if m \<ge> 2 \<and> leap y then 1 else 0)"

text \<open>\<^verbatim>\<open>timegm\<close> accepts any month, day, hour, minute and second and carries them over.\<close>

definition timegm :: "int \<Rightarrow> int \<Rightarrow> int \<Rightarrow> int \<Rightarrow> int \<Rightarrow> int \<Rightarrow> int" where
  "timegm year mon mday hour minute sec =
     (let y = year + mon div 12; m = mon mod 12
      in (((year_start y + month_start y m + mday - 1) * 24 + hour) * 60 + minute) * 60 + sec)"

section \<open>The parser\<close>

text \<open>
  A point of \<^verbatim>\<open>system_clock\<close> is a signed 64-bit number of nanoseconds. Arithmetic that leaves the
  range has no meaning: seconds from 2262-04-11T23:47:17Z on cannot be converted.
\<close>

definition time_point :: "int \<Rightarrow> Exn + int" where
  "time_point ns = (if - (2 ^ 63) \<le> ns \<and> ns < 2 ^ 63 then Inr ns else Inl Undefined)"

definition parseIso8601Utc :: "int \<Rightarrow> string \<Rightarrow> int \<Rightarrow> Exn + int" where
  "parseIso8601Utc now stamp fallbackSec =
     ebind (sscanf_iso stamp) (\<lambda>r.
       let fallback = time_point (now + fallbackSec * 1000000000) in
       case r of
         None \<Rightarrow> fallback
       | Some f \<Rightarrow>
           if \<not> (int_fits (tm_year f - 1900) \<and> int_fits (tm_mon f - 1) \<and> int_fits (trunc (tm_sec f))) then Inl Undefined
           else
             let t = timegm (tm_year f) (tm_mon f - 1) (tm_day f) (tm_hour f) (tm_min f) (trunc (tm_sec f));
                 ms = trunc (fmul (fsub (tm_sec f) (of_int (trunc (tm_sec f)))) 1000)
             in if t \<noteq> -1 then ebind (time_point (t * 1000000000)) (\<lambda>ns. time_point (ns + ms * 1000000)) else fallback)"

section \<open>The calendar is right\<close>

lemma div_step:
  fixes k y :: int
  assumes "0 < k"
  shows "y div k = (y - 1) div k + (if y mod k = 0 then 1 else 0)"
proof (cases "y mod k = 0")
  case True
  then obtain q where q: "y = k * q" by (auto simp: mod_eq_0_iff_dvd)
  have "y - 1 = k * (q - 1) + (k - 1)" by (simp add: q right_diff_distrib)
  then have "(y - 1) div k = q - 1" using assms by (intro int_div_pos_eq [of _ _ _ "k - 1"]) auto
  then show ?thesis using assms by (simp add: q)
next
  case False
  have "y - 1 = k * (y div k) + (y mod k - 1)" by simp
  moreover have "0 \<le> y mod k - 1" "y mod k - 1 < k" using False assms pos_mod_bound [of k y] pos_mod_sign [of k y] by linarith+
  ultimately have "(y - 1) div k = y div k" by (intro int_div_pos_eq) auto
  then show ?thesis using False by simp
qed

lemma leap_ifs:
  "(C \<longrightarrow> B) \<Longrightarrow> (B \<longrightarrow> A) \<Longrightarrow>
     365 + (if A then 1 else 0) - (if B then 1 else 0) + (if C then 1 else 0) = (if A \<and> (\<not> B \<or> C) then 366 else 365 :: int)"
  by (cases A; cases B; cases C) simp_all

lemma leap_step: "year_start (y + 1) = year_start y + (if leap y then 366 else 365)"
proof -
  have dvd: "(4::int) dvd 100" "(100::int) dvd 400" by simp_all
  have imp: "y mod 400 = 0 \<Longrightarrow> y mod 100 = 0" "y mod 100 = 0 \<Longrightarrow> y mod 4 = 0"
    unfolding mod_eq_0_iff_dvd by (erule dvd_trans [OF dvd(2)], erule dvd_trans [OF dvd(1)])
  have diff: "y div k - (y - 1) div k = (if y mod k = 0 then 1 else 0)" if "0 < k" for k
    using div_step [OF that, of y] by linarith
  have "year_start (y + 1) - year_start y =
      365 + (y div 4 - (y - 1) div 4) - (y div 100 - (y - 1) div 100) + (y div 400 - (y - 1) div 400)"
    unfolding year_start_def add_diff_cancel_right' by (simp only: ring_distribs)
  also have "\<dots> = (if leap y then 366 else 365)"
    unfolding diff [of 4, simplified] diff [of 100, simplified] diff [of 400, simplified] leap_def
    by (rule leap_ifs) (use imp in iprover)+
  finally show ?thesis by linarith
qed

lemma month_cases:
  assumes "0 \<le> m" "m < 12"
  obtains "m = 0" | "m = 1" | "m = 2" | "m = 3" | "m = 4" | "m = 5" | "m = 6" | "m = 7" | "m = 8" | "m = 9"
    | "m = 10" | "m = (11::int)"
proof -
  have "m = 0 \<or> m = 1 \<or> m = 2 \<or> m = 3 \<or> m = 4 \<or> m = 5 \<or> m = 6 \<or> m = 7 \<or> m = 8 \<or> m = 9 \<or> m = 10 \<or> m = 11"
    using assms by arith
  then show thesis using that by blast
qed

lemma month_step:
  assumes "0 \<le> m" "m < 12"
  shows "m < 11 \<Longrightarrow> month_start y (m + 1) = month_start y m + month_days y m"
    and "m = 11 \<Longrightarrow> month_start y m + month_days y m = (if leap y then 366 else 365)"
  by (rule month_cases [OF assms]; simp add: month_start_def month_days_def)+

text \<open>The successor of a date, counting months from 0 and days from 1.\<close>

definition next_day :: "int \<times> int \<times> int \<Rightarrow> int \<times> int \<times> int" where
  "next_day = (\<lambda>(y, m, d). if d < month_days y m then (y, m, d + 1) else if m < 11 then (y, m + 1, 1) else (y + 1, 0, 1))"

definition valid_date :: "int \<times> int \<times> int \<Rightarrow> bool" where
  "valid_date = (\<lambda>(y, m, d). 0 \<le> m \<and> m < 12 \<and> 1 \<le> d \<and> d \<le> month_days y m)"

definition day_number :: "int \<times> int \<times> int \<Rightarrow> int" where
  "day_number = (\<lambda>(y, m, d). year_start y + month_start y m + d - 1)"

lemma next_day_valid: "valid_date x \<Longrightarrow> valid_date (next_day x)"
  by (auto simp: valid_date_def next_day_def month_days_def split: if_splits)

lemma next_day_number:
  assumes "valid_date x"
  shows "day_number (next_day x) = day_number x + 1"
proof -
  obtain y m d where x: "x = (y, m, d)" by (cases x) auto
  have m: "0 \<le> m" "m < 12" "1 \<le> d" "d \<le> month_days y m" using assms by (simp_all add: x valid_date_def)
  consider "d < month_days y m" | "d = month_days y m" "m < 11" | "d = month_days y m" "m = 11" using m by linarith
  then show ?thesis
  proof cases
    case 2
    then show ?thesis using month_step(1) [OF m(1,2), of y] by (simp add: x next_day_def day_number_def)
  next
    case 3
    have "month_start (y + 1) 0 = 0" by (simp add: month_start_def)
    with 3 show ?thesis using month_step(2) [OF m(1,2), of y] leap_step [of y] by (simp add: x next_day_def day_number_def)
  qed (simp add: x next_day_def day_number_def)
qed

lemma epoch_day: "day_number (1970, 0, 1) = 0"
  by (simp add: day_number_def year_start_def month_start_def)

lemma days_after: "valid_date x \<Longrightarrow> valid_date ((next_day ^^ n) x) \<and> day_number ((next_day ^^ n) x) = day_number x + int n"
  by (induction n) (auto simp: next_day_valid next_day_number)

section \<open>Printed stamps are read back\<close>

definition pad :: "nat \<Rightarrow> nat \<Rightarrow> string" where
  "pad k n = replicate (k - length (dec n)) (CHR ''0'') @ dec n"

definition stamp :: "nat \<Rightarrow> nat \<Rightarrow> nat \<Rightarrow> nat \<Rightarrow> nat \<Rightarrow> nat \<Rightarrow> nat \<Rightarrow> string" where
  "stamp y m d h mi s zeros = pad 4 y @ ''-'' @ pad 2 m @ ''-'' @ pad 2 d @ ''T'' @ pad 2 h @ '':'' @ pad 2 mi @ '':'' @
     pad 2 s @ ''.'' @ replicate zeros (CHR ''0'') @ ''Z''"

lemma is_digit_digit: "d < 10 \<Longrightarrow> is_digit (digit d)"
  by (simp add: is_digit_def of_char_digit)

lemma pad_digits: "list_all is_digit (pad k n)" "pad k n \<noteq> []" "undec (pad k n) = n"
proof -
  have "is_digit c" if "c \<in> set (dec n)" for c using that set_dec [of n] is_digit_digit by blast
  then show "list_all is_digit (pad k n)" by (auto simp: pad_def list_all_iff is_digit_def)
qed (simp_all add: pad_def undec_zeros)

lemma digit_not_space: "is_digit c \<Longrightarrow> \<not> is_space c \<and> c \<noteq> CHR ''-'' \<and> c \<noteq> CHR ''+''"
  by (auto simp: is_digit_def is_space_def)

lemma scan_start:
  assumes "list_all is_digit ds" "ds \<noteq> []"
  shows "dropWhile is_space (ds @ s) = ds @ s" "scan_sign (ds @ s) = (False, ds @ s)"
  using assms digit_not_space by (cases ds; auto simp: scan_sign_def)+

lemma take_digits:
  assumes "list_all is_digit ds" "\<not> is_digit c"
  shows "takeWhile is_digit (ds @ c # s) = ds" "dropWhile is_digit (ds @ c # s) = c # s"
  using assms by (auto simp: list_all_iff takeWhile_append dropWhile_append)

lemma scan_field_pad:
  assumes "int_fits (int n)" "\<not> is_digit c"
  shows "scan_field c (pad k n @ c # s) = Inr (Some (int n, s))"
  using assms pad_digits [where k = k and n = n]
  by (simp add: scan_field_def scan_d_def scan_start take_digits scan_lit_def)

lemma undec_append_zeros: "undec (ds @ replicate k (CHR ''0'')) = undec ds * 10 ^ k"
proof -
  have "undec (replicate k (CHR ''0'')) = 0" using undec_zeros [of k "[]"] by simp
  then show ?thesis by (simp add: undec_append)
qed

lemma scan_lf_whole:
  assumes "n < 2 ^ 31"
  shows "scan_lf (pad k n @ ''.'' @ replicate z (CHR ''0'') @ ''Z'') = Inr (Some (real n))"
proof -
  let ?r = "CHR ''.'' # replicate z (CHR ''0'') @ ''Z''"
  note p = pad_digits [where k = k and n = n]
  have d: "takeWhile is_digit (pad k n @ ?r) = pad k n" "dropWhile is_digit (pad k n @ ?r) = ?r"
    using take_digits [OF p(1), of "CHR ''.''"] by (simp_all add: is_digit_def)
  have z: "takeWhile is_digit (replicate z (CHR ''0'') @ ''Z'') = replicate z (CHR ''0'')"
    "dropWhile is_digit (replicate z (CHR ''0'') @ ''Z'') = ''Z''"
    using take_digits [of "replicate z (CHR ''0'')" "CHR ''Z''"] by (simp_all add: is_digit_def list_all_iff)
  have s: "\<not> starts_in {CHR ''i'', CHR ''I'', CHR ''n'', CHR ''N''} (pad k n @ ?r)"
    using p by (cases "pad k n") (auto simp: starts_in_def is_digit_def)
  have "f64_round (real n) = real n" using f64_rep_of_nat [of n] assms by (intro f64.rnd_rep) simp
  moreover have "scan_lf (pad k n @ ?r) = Inr (Some (f64_round (real n)))" using p(2,3) s
    unfolding scan_lf_def scan_start [OF p(1,2)] Let_def prod.case d
    by (simp add: starts_in_def z undec_append_zeros)
  ultimately show ?thesis by simp
qed

lemma parse_stamp:
  assumes "y < 2 ^ 31" "m < 2 ^ 31" "d < 2 ^ 31" "h < 2 ^ 31" "mi < 2 ^ 31" "s < 2 ^ 31" "1 \<le> m" "m \<le> 12"
    and "timegm (int y) (int m - 1) (int d) (int h) (int mi) (int s) \<noteq> -1"
  shows "parseIso8601Utc now (stamp y m d h mi s z) fallbackSec =
     time_point (timegm (int y) (int m - 1) (int d) (int h) (int mi) (int s) * 1000000000)"
proof -
  have fits: "int_fits (int n)" if "n < 2 ^ 31" for n using that by (simp add: int_fits_def)
  have "scan_fields [CHR ''-'', CHR ''-'', CHR ''T'', CHR '':'', CHR '':''] (stamp y m d h mi s z) =
      Inr (Some ([int y, int m, int d, int h, int mi], pad 2 s @ ''.'' @ replicate z (CHR ''0'') @ ''Z''))"
    using assms by (simp add: stamp_def scan_field_pad fits is_digit_def)
  then have "sscanf_iso (stamp y m d h mi s z) = Inr (Some \<lparr>tm_year = int y, tm_mon = int m, tm_day = int d,
      tm_hour = int h, tm_min = int mi, tm_sec = real s\<rparr>)"
    unfolding sscanf_iso_def using scan_lf_whole [OF assms(6), of 2 z] by simp
  moreover have "trunc (real s) = int s" by (simp add: trunc_def)
  moreover have "ebind (time_point x) time_point = time_point x" for x by (simp add: time_point_def)
  moreover have "fmul (fsub (real s) (of_int (int s))) 1000 = 0" by (simp add: fsub_def fmul_def f64.rnd_zero)
  ultimately show ?thesis using assms by (simp add: parseIso8601Utc_def int_fits_def trunc_def)
qed

section \<open>Properties\<close>



end
