(* ===== verification/Provisioner.thy ===== *)
theory Provisioner
  imports Timestamp SimClient
begin

text \<open>
  Provisioning (\<^verbatim>\<open>src/Provisioner.hpp\<close>, \<^verbatim>\<open>src/Provisioner.cpp\<close>): the roster, sign-in, app tokens,
  refresh and placement against the GraphQL services, and the threads that provision a range of
  clients. The state of a provisioner includes the world its requests go to. Operations that
  change credentials return the new ones; where one raises, no caller reads what it had changed.
  What reads a missing key of a constant document is \<open>Undefined\<close>, which is caught by nobody: a thread
  that comes to it has no step.
  Log output is not modelled.
\<close>

section \<open>State\<close>

record RosterAppToken =
  ra_token :: string
  ra_gameTokenId :: int
  ra_expiresAt :: int

record Provisioner =
  pv_world :: World
  pv_roster :: "int \<rightharpoonup> string"
  pv_rosterEmails :: "int \<rightharpoonup> string"
  pv_rosterKindAppToken :: bool
  pv_rosterAppTokens :: "int \<rightharpoonup> RosterAppToken"
  pv_rosterGameApiUrl :: string
  pv_reused :: int
  pv_mintedProvisioning :: int
  pv_mintedMidRun :: int
  pv_runStarted :: bool
  pv_legacyRefresh :: bool

definition Provisioner_init :: "World \<Rightarrow> Provisioner" where
  "Provisioner_init w = \<lparr>pv_world = w, pv_roster = Map.empty, pv_rosterEmails = Map.empty,
     pv_rosterKindAppToken = False, pv_rosterAppTokens = Map.empty, pv_rosterGameApiUrl = [],
     pv_reused = 0, pv_mintedProvisioning = 0, pv_mintedMidRun = 0, pv_runStarted = False,
     pv_legacyRefresh = False\<rparr>"

definition markRunStarted :: "Provisioner \<Rightarrow> Provisioner" where
  "markRunStarted p = p\<lparr>pv_runStarted := True\<rparr>"

section \<open>Requests\<close>

text \<open>
  \<open>stop n\<close>: what the flag reads after the \<open>n\<close>-th failure; it never reads set where the caller
  passes no flag, as all do. The pauses between attempts are not modelled.
\<close>

function retry_loop :: "('s, 'a) io \<Rightarrow> (nat \<Rightarrow> bool) \<Rightarrow> nat \<Rightarrow> ('s, 'a) io" where
  "retry_loop m stop attempts s =
     (case m s of
        (Inr x, s') \<Rightarrow> (Inr x, s')
      | (Inl e, s') \<Rightarrow>
          if \<not> is_graphql e then (Inl e, s')
          else if \<not> isTransport e \<or> attempts + 1 \<ge> 3 \<or> stop (attempts + 1) then (Inl e, s')
          else retry_loop m stop (attempts + 1) s')"
  by pat_completeness auto
termination
  by (relation "measure (\<lambda>(m, stop, attempts, s). 3 - attempts)") auto

declare retry_loop.simps [simp del]

definition send :: "string \<Rightarrow> Query \<Rightarrow> json \<Rightarrow> string \<Rightarrow> string list \<Rightarrow> (Provisioner, json) io" where
  "send url query variables bearer headers p =
     (let (r, w) = request url query variables bearer headers (pv_world p) in (r, p\<lparr>pv_world := w\<rparr>))"

definition requestWithRetry ::
  "string \<Rightarrow> Query \<Rightarrow> json \<Rightarrow> string \<Rightarrow> (nat \<Rightarrow> bool) \<Rightarrow> string list \<Rightarrow> (Provisioner, json) io" where
  "requestWithRetry url query variables bearer stop headers =
     retry_loop (send url query variables bearer headers) stop 0"

abbreviation no_stop :: "nat \<Rightarrow> bool" where "no_stop \<equiv> \<lambda>_. False"

section \<open>The roster\<close>

datatype RosterFile = Unreadable | NotJson | RosterDoc json

text \<open>What a range-based loop over a JSON value visits.\<close>

fun elements :: "json \<Rightarrow> json list" where
  "elements (JArr xs) = xs"
| "elements (JObj kvs) = map snd kvs"
| "elements JNull = []"
| "elements j = [j]"

text \<open>A key present with a string value.\<close>

definition str_at :: "json \<Rightarrow> string \<Rightarrow> string option" where
  "str_at j k = (case jlookup j k of Some (JStr s) \<Rightarrow> Some s | _ \<Rightarrow> None)"

definition roster_app_token :: "json \<Rightarrow> string \<Rightarrow> Provisioner \<Rightarrow> Exn + RosterAppToken" where
  "roster_app_token entry token p =
     ebind (case str_at entry ''gameTokenId'' of None \<Rightarrow> Inr 0 | Some s \<Rightarrow> serr (stoll s)) (\<lambda>gid.
     ebind (case str_at entry ''expiresAt'' of None \<Rightarrow> Inr 0
            | Some s \<Rightarrow> parseIso8601Utc (system_now (pv_world p)) s (25 * 60)) (\<lambda>expires.
     Inr \<lparr>ra_token = token, ra_gameTokenId = gid, ra_expiresAt = expires\<rparr>))"

definition roster_entry :: "json \<Rightarrow> Provisioner \<Rightarrow> Exn + Provisioner" where
  "roster_entry entry p =
     (if \<not> contains entry ''index'' \<or> \<not> contains entry ''token'' then Inr p
      else
        ebind (ebind (jat entry ''index'') (\<lambda>j. jerr (get_int j))) (\<lambda>idx.
        ebind (ebind (jat entry ''token'') (\<lambda>j. jerr (get_string j))) (\<lambda>token.
        if token = [] then Inr p
        else
          let p = (case str_at entry ''email'' of None \<Rightarrow> p
                   | Some e \<Rightarrow> p\<lparr>pv_rosterEmails := (pv_rosterEmails p)(idx \<mapsto> e)\<rparr>)
          in if pv_rosterKindAppToken p then
               ebind (roster_app_token entry token p) (\<lambda>tok.
                 if length (ra_token tok) \<noteq> 64 \<or> ra_gameTokenId tok = 0 then Inr p
                 else Inr (p\<lparr>pv_rosterAppTokens := (pv_rosterAppTokens p)(idx \<mapsto> tok),
                             pv_roster := (pv_roster p)(idx \<mapsto> ''app-token'')\<rparr>))
             else Inr (p\<lparr>pv_roster := (pv_roster p)(idx \<mapsto> token)\<rparr>))))"

fun roster_entries :: "json list \<Rightarrow> Provisioner \<Rightarrow> Exn + Provisioner" where
  "roster_entries [] p = Inr p"
| "roster_entries (e # es) p = ebind (roster_entry e p) (roster_entries es)"

definition roster_origin :: "Config \<Rightarrow> json \<Rightarrow> Exn option" where
  "roster_origin cfg doc =
     (case str_at doc ''origin'' of
        None \<Rightarrow> None
      | Some origin \<Rightarrow>
          if trimSlash origin \<noteq> trimSlash (cf_managementApiUrl cfg)
          then Some (GraphQLError (RosterOrigin (trimSlash origin) (trimSlash (cf_managementApiUrl cfg))) [] False)
          else None)"

definition new_provisioner :: "Config \<Rightarrow> RosterFile \<Rightarrow> World \<Rightarrow> Exn + Provisioner" where
  "new_provisioner cfg file w =
     (if cf_rosterFile cfg = [] then Inr (Provisioner_init w)
      else case file of
        Unreadable \<Rightarrow> Inl (GraphQLError (RosterUnreadable (cf_rosterFile cfg)) [] False)
      | NotJson \<Rightarrow> Inl (GraphQLError (RosterNotJson (cf_rosterFile cfg)) [] False)
      | RosterDoc doc \<Rightarrow>
          (case roster_origin cfg doc of
             Some e \<Rightarrow> Inl e
           | None \<Rightarrow>
               ebind (jerr (jvalue get_string doc ''kind'' ''session'')) (\<lambda>kind.
               let app = (kind = ''app-token'');
                   url = (case str_at doc ''gameApiUrl'' of Some u \<Rightarrow> if app then trimSlash u else [] | None \<Rightarrow> []);
                   p = (Provisioner_init w)\<lparr>pv_rosterKindAppToken := app, pv_rosterGameApiUrl := url\<rparr>
               in ebind (jerr (jvalue Inr doc ''sessions'' (JArr []))) (\<lambda>sessions.
                    roster_entries (elements sessions) p))))"

text \<open>The check both lookups share: an entry for another address is a refusal.\<close>

definition roster_email :: "int \<Rightarrow> string \<Rightarrow> Provisioner \<Rightarrow> Exn option" where
  "roster_email index email p =
     (case pv_rosterEmails p index of
        None \<Rightarrow> None
      | Some e \<Rightarrow> if e \<noteq> email then Some (GraphQLError (RosterEmail index e email) [] False) else None)"

definition rosterAppToken :: "int \<Rightarrow> string \<Rightarrow> Provisioner \<Rightarrow> Exn + RosterAppToken option" where
  "rosterAppToken index email p =
     (case pv_rosterAppTokens p index of
        None \<Rightarrow> Inr None
      | Some tok \<Rightarrow> (case roster_email index email p of Some e \<Rightarrow> Inl e | None \<Rightarrow> Inr (Some tok)))"

definition rosterSession :: "int \<Rightarrow> string \<Rightarrow> Provisioner \<Rightarrow> Exn + string" where
  "rosterSession index email p =
     (case pv_roster p index of
        None \<Rightarrow> Inr []
      | Some token \<Rightarrow> (case roster_email index email p of Some e \<Rightarrow> Inl e | None \<Rightarrow> Inr token))"

definition rosterSize :: "Provisioner \<Rightarrow> int" where
  "rosterSize p = int (card (dom (pv_roster p)))"

section \<open>Signing in\<close>

definition creds_input :: "string \<Rightarrow> string \<Rightarrow> json" where
  "creds_input email password = JObj [(''input'', JObj [(''email'', JStr email), (''password'', JStr password)])]"

definition session_token :: "string \<Rightarrow> json \<Rightarrow> Exn + string" where
  "session_token op data = ebind (jindex data op) (\<lambda>l. ebind (jindex l ''token'') (\<lambda>t. jerr (get_string t)))"

definition login :: "Config \<Rightarrow> string \<Rightarrow> (Provisioner, string) io" where
  "login cfg email =
     io_bind (requestWithRetry (cf_managementApiUrl cfg) LOGIN_MUTATION (creds_input email (cf_password cfg)) [] no_stop [])
       (\<lambda>data. io_of (session_token ''login'' data))"

definition signIn :: "Config \<Rightarrow> string \<Rightarrow> (Provisioner, string) io" where
  "signIn cfg email =
     (let headers = (if cf_provisioningToken cfg \<noteq> [] then [''X-CK-Provisioning-Token: '' @ cf_provisioningToken cfg] else []);
          register = io_bind (requestWithRetry (cf_managementApiUrl cfg) REGISTER_MUTATION
                        (creds_input email (cf_password cfg)) [] no_stop headers)
                      (\<lambda>data. io_of (session_token ''register'' data))
      in io_catch (login cfg email) (\<lambda>e. if isTransport e then io_throw e
         else io_catch register (\<lambda>e. if isTransport e then io_throw e
         else io_catch (login cfg email) (\<lambda>e. if isTransport e then io_throw e
         else io_throw (GraphQLError (SignInRejected email (what_of e)) (code_of e) False)))))"

section \<open>Replay logging\<close>

definition app_vars :: "Config \<Rightarrow> (string \<times> json) list" where
  "app_vars cfg = [(''appId'', JStr (dec_int (cf_appId cfg)))]"

definition replay_hint :: "string \<Rightarrow> hint" where
  "replay_hint code =
     (if code = ''INPUT_LOG_FUNDS_NEEDED'' then FundWallet
      else if code = ''FORBIDDEN'' \<or> code = ''SCOPE_MISSING'' then NeedsManageApps else NoHint)"

definition setReplayLogging :: "Config \<Rightarrow> bool \<Rightarrow> (Provisioner, unit) io" where
  "setReplayLogging cfg on =
     io_bind
       (io_catch (login cfg (cf_email cfg)) (\<lambda>e. if isTransport e then io_throw e
          else io_throw (GraphQLError (ReplaySignIn (cf_email cfg) (what_of e)) (code_of e) False)))
       (\<lambda>session. io_catch
          (io_bind (requestWithRetry (cf_managementApiUrl cfg) SET_REPLAY_LOGGING_MUTATION
                      (JObj (app_vars cfg @ [(''on'', JBool on)])) session no_stop [])
             (\<lambda>data. io_bind (io_of (ebind (jindex data ''updateApp'') (\<lambda>a.
                          ebind (jindex a ''replayLoggingEnabled'') (\<lambda>b. jerr (get_bool b)))))
                (\<lambda>now. if now \<noteq> on then io_throw (GraphQLError (ReplayAnswered (\<not> on)) [] False) else io_ok ())))
          (\<lambda>e. if isTransport e then io_throw e
               else io_throw (GraphQLError (ReplayRefused on (what_of e) (replay_hint (code_of e))) (code_of e) False)))"

text \<open>\<^verbatim>\<open>readReplayLogging\<close> catches every exception and answers nothing.\<close>

definition read_app :: "json \<Rightarrow> Exn + bool option" where
  "read_app data =
     ebind (jindex data ''app'') (\<lambda>app.
       if is_object app then
         ebind (jat app ''replayLoggingEnabled'') (\<lambda>v. Inr (case v of JBool b \<Rightarrow> Some b | _ \<Rightarrow> None))
       else Inr None)"

definition readReplayLogging :: "Config \<Rightarrow> (Provisioner, bool option) io" where
  "readReplayLogging cfg p =
     (case io_bind (login cfg (cf_email cfg)) (\<lambda>session.
             io_bind (requestWithRetry (cf_managementApiUrl cfg) READ_REPLAY_LOGGING_QUERY (JObj (app_vars cfg)) session no_stop [])
               (\<lambda>data. io_of (read_app data))) p of
        (Inl Undefined, p) \<Rightarrow> (Inl Undefined, p)
      | (Inl e, p) \<Rightarrow> (Inr None, p)
      | (Inr r, p) \<Rightarrow> (Inr r, p))"

section \<open>Tokens and placement\<close>

definition str_field :: "json \<Rightarrow> string \<Rightarrow> Exn + string" where
  "str_field j k = ebind (jat j k) (\<lambda>v. jerr (get_string v))"

definition token_fields :: "json \<Rightarrow> Provisioner \<Rightarrow> ClientCredentials \<Rightarrow> Exn + ClientCredentials" where
  "token_fields fresh p c =
     ebind (str_field fresh ''token'') (\<lambda>token.
     ebind (ebind (str_field fresh ''gameTokenId'') (\<lambda>s. serr (stoll s))) (\<lambda>gid.
     ebind (ebind (str_field fresh ''expiresAt'') (\<lambda>s. parseIso8601Utc (system_now (pv_world p)) s (25 * 60))) (\<lambda>expires.
     Inr (c\<lparr>cr_appToken := token, cr_gameTokenId := word_of_int gid, cr_tokenExpiresAt := expires\<rparr>))))"

definition mint :: "Config \<Rightarrow> ClientCredentials \<Rightarrow> (Provisioner, json) io" where
  "mint cfg c =
     requestWithRetry (cf_managementApiUrl cfg) MINT_MUTATION (JObj [(''input'', JObj (app_vars cfg))]) (cr_sessionToken c) no_stop []"

definition mint_request :: "Config \<Rightarrow> ClientCredentials \<Rightarrow> (Provisioner, json) io" where
  "mint_request cfg c =
     io_catch
       (io_catch (mint cfg c)
          (\<lambda>e. if isTransport e \<or> code_of e \<noteq> ''LEGAL_ACCEPTANCE_REQUIRED'' then io_throw e
               else io_bind (requestWithRetry (cf_managementApiUrl cfg) CONSENTS_MUTATION (JObj []) (cr_sessionToken c) no_stop [])
                      (\<lambda>_. mint cfg c)))
       (\<lambda>e. if \<not> isTransport e \<and> code_of e = ''FORBIDDEN''
            then io_throw (GraphQLError (MintForbidden (cr_email c)) (code_of e) False) else io_throw e)"

definition mintAppToken :: "Config \<Rightarrow> ClientCredentials \<Rightarrow> (Provisioner, ClientCredentials) io" where
  "mintAppToken cfg c =
     io_bind (mint_request cfg c) (\<lambda>data.
     io_bind (io_of (jindex data ''mintAppToken'')) (\<lambda>m.
     io_bind (\<lambda>p. (token_fields m p c, p)) (\<lambda>c.
     let c = (if cf_gameApiUrl cfg \<noteq> [] then c\<lparr>cr_gameApiUrl := cf_gameApiUrl cfg\<rparr>
              else case str_at m ''gameApiUrl'' of Some u \<Rightarrow> c\<lparr>cr_gameApiUrl := u\<rparr> | None \<Rightarrow> c)
     in if cr_gameApiUrl c = [] then io_throw (GraphQLError NoGameApiUrl [] False)
        else if length (cr_appToken c) \<noteq> 64 then io_throw (GraphQLError (TokenLength (length (cr_appToken c))) [] False)
        else io_ok c)))"

definition bootstrapGameClient :: "Config \<Rightarrow> ClientCredentials \<Rightarrow> (Provisioner, unit) io" where
  "bootstrapGameClient cfg c =
     io_bind (requestWithRetry (cr_gameApiUrl c) BOOTSTRAP_QUERY (JObj (app_vars cfg)) (cr_appToken c) no_stop []) (\<lambda>_. io_ok ())"

text \<open>\<open>placed\<close>: address, port and settle time out of a server object.\<close>

definition placed :: "Config \<Rightarrow> json \<Rightarrow> ClientCredentials \<Rightarrow> (Provisioner, ClientCredentials) io" where
  "placed cfg server c p =
     (ebind (str_field server ''ip4'') (\<lambda>ip4.
      ebind (ebind (jat server ''clientPort'') (\<lambda>v. jerr (get_int v))) (\<lambda>port.
      Inr (c\<lparr>cr_serverIp4 := ip4, cr_serverPort := word_of_int port,
             cr_udpReadyAt := steady_now (pv_world p) + cf_sessionSettleMs cfg * 1000000\<rparr>))), p)"

definition assignServer :: "Config \<Rightarrow> ClientCredentials \<Rightarrow> (Provisioner, ClientCredentials) io" where
  "assignServer cfg c =
     io_bind (requestWithRetry (cr_gameApiUrl c) ASSIGN_QUERY (JObj []) (cr_appToken c) no_stop []) (\<lambda>data.
     io_bind (io_of (jindex data ''serverWithLeastClients'')) (\<lambda>server. placed cfg server c))"

fun mentions_currentServer :: "message \<Rightarrow> bool" where
  "mentions_currentServer (ApiSays s) = (\<exists>i \<le> length s. take 13 (drop i s) = ''currentServer'')"
| "mentions_currentServer _ = False"

definition refresh_vars :: "ClientCredentials \<Rightarrow> json" where
  "refresh_vars c = JObj [(''currentServer'', JObj [(''ip4'', JStr (cr_serverIp4 c)),
     (''clientPort'', JUInt (ucast (cr_serverPort c)))])]"

text \<open>The data of the refresh: named where possible, in the old shape for an API that rejects the argument.\<close>

definition refresh_data :: "string \<Rightarrow> ClientCredentials \<Rightarrow> (Provisioner, json) io" where
  "refresh_data url c p =
     (let legacy = requestWithRetry url LEGACY_REFRESH_MUTATION (JObj []) (cr_appToken c) no_stop []
      in if \<not> pv_legacyRefresh p \<and> cr_serverIp4 c \<noteq> [] then
           io_catch (requestWithRetry url REFRESH_MUTATION (refresh_vars c) (cr_appToken c) no_stop [])
             (\<lambda>e. if isTransport e \<or> \<not> mentions_currentServer (what_of e) then io_throw e
                  else (\<lambda>p. legacy (p\<lparr>pv_legacyRefresh := True\<rparr>))) p
         else legacy p)"

definition refreshToken :: "Config \<Rightarrow> string \<Rightarrow> ClientCredentials \<Rightarrow> (Provisioner, bool \<times> ClientCredentials) io" where
  "refreshToken cfg url c =
     io_bind (refresh_data url c) (\<lambda>data.
     io_bind (io_of (jindex data ''refreshAppToken'')) (\<lambda>fresh.
     io_bind (\<lambda>p. (token_fields fresh p c, p)) (\<lambda>c.
     case jlookup fresh ''authorizedServer'' of
       None \<Rightarrow> io_ok (False, c)
     | Some JNull \<Rightarrow> io_ok (False, c)
     | Some srv \<Rightarrow> io_bind (placed cfg srv c) (\<lambda>c. io_ok (True, c)))))"

section \<open>A range of clients\<close>

definition fresh_creds :: "Config \<Rightarrow> int \<Rightarrow> ClientCredentials" where
  "fresh_creds cfg global = \<lparr>cr_index = global, cr_email = derivedEmail cfg global, cr_sessionToken = [], cr_appToken = [],
     cr_gameTokenId = 0, cr_gameApiUrl = [], cr_tokenExpiresAt = 0, cr_serverIp4 = [], cr_serverPort = 0, cr_udpReadyAt = 0\<rparr>"

definition place_client :: "Config \<Rightarrow> ClientCredentials \<Rightarrow> (Provisioner, ClientCredentials) io" where
  "place_client cfg c = io_bind (bootstrapGameClient cfg c) (\<lambda>_. assignServer cfg c)"

definition from_app_token :: "Config \<Rightarrow> RosterAppToken \<Rightarrow> ClientCredentials \<Rightarrow> (Provisioner, ClientCredentials) io" where
  "from_app_token cfg pre c p =
     (let url = (if cf_gameApiUrl cfg \<noteq> [] then cf_gameApiUrl cfg else pv_rosterGameApiUrl p);
          c = c\<lparr>cr_appToken := ra_token pre, cr_gameTokenId := word_of_int (ra_gameTokenId pre),
                cr_tokenExpiresAt := ra_expiresAt pre, cr_gameApiUrl := url\<rparr>
      in if url = [] then (Inl (GraphQLError NoRosterGameApiUrl [] False), p)
         else place_client cfg c (p\<lparr>pv_reused := pv_reused p + 1\<rparr>))"

definition obtain_session :: "Config \<Rightarrow> int \<Rightarrow> string \<Rightarrow> (Provisioner, string) io" where
  "obtain_session cfg global email =
     io_bind (\<lambda>p. (rosterSession global email p, p)) (\<lambda>session.
       if session \<noteq> [] then (\<lambda>p. (Inr session, p\<lparr>pv_reused := pv_reused p + 1\<rparr>))
       else io_bind (signIn cfg email) (\<lambda>session p.
              (Inr session, if pv_runStarted p then p\<lparr>pv_mintedMidRun := pv_mintedMidRun p + 1\<rparr>
                            else p\<lparr>pv_mintedProvisioning := pv_mintedProvisioning p + 1\<rparr>)))"

definition provision_one :: "Config \<Rightarrow> int \<Rightarrow> (Provisioner, ClientCredentials) io" where
  "provision_one cfg global =
     (let c = fresh_creds cfg global in
      io_bind (\<lambda>p. (if pv_rosterKindAppToken p then rosterAppToken global (cr_email c) p else Inr None, p)) (\<lambda>pre.
        case pre of
          Some pre \<Rightarrow> from_app_token cfg pre c
        | None \<Rightarrow>
            io_bind (obtain_session cfg global (cr_email c)) (\<lambda>session.
            io_bind (mintAppToken cfg (c\<lparr>cr_sessionToken := session\<rparr>)) (place_client cfg))))"

text \<open>
  The threads of \<^verbatim>\<open>provisionRange\<close>, one atomic access to the shared variables per step. While a
  thread provisions its client the services answer it by a script of its own. A thread fails on an
  exception; where the language gives its calls no meaning, or the global index leaves \<^verbatim>\<open>int\<close>, it
  has no step.
\<close>

datatype Thread = Idle | Claimed int | Working int | Exited

record Range =
  rg_next :: int
  rg_out :: "ClientCredentials list"
  rg_completed :: int
  rg_failed :: bool
  rg_stop :: bool
  rg_threads :: "Thread list"
  rg_prov :: Provisioner

definition covered :: "int \<Rightarrow> int \<Rightarrow> Provisioner \<Rightarrow> int" where
  "covered globalStart count p = int (length (filter (\<lambda>i. pv_roster p (globalStart + i) \<noteq> None) [0..count - 1]))"

definition range_refused :: "Config \<Rightarrow> int \<Rightarrow> int \<Rightarrow> Provisioner \<Rightarrow> bool" where
  "range_refused cfg globalStart count p \<longleftrightarrow>
     count \<le> 0 \<or> cf_rosterFile cfg \<noteq> [] \<and> covered globalStart count p < count \<and> cf_rosterRequired cfg"

definition range_start :: "Config \<Rightarrow> int \<Rightarrow> bool \<Rightarrow> Provisioner \<Rightarrow> Range" where
  "range_start cfg count stop p = \<lparr>rg_next = 0, rg_out = replicate (nat count) (fresh_creds cfg 0\<lparr>cr_email := []\<rparr>),
     rg_completed = 0, rg_failed = False, rg_stop = stop,
     rg_threads = replicate (nat (min (cf_provisionConcurrency cfg) count)) Idle, rg_prov = p\<rparr>"

definition set_thread :: "nat \<Rightarrow> Thread \<Rightarrow> Range \<Rightarrow> Range" where
  "set_thread t x r = r\<lparr>rg_threads := (rg_threads r)[t := x]\<rparr>"

inductive range_step :: "Config \<Rightarrow> int \<Rightarrow> int \<Rightarrow> Range \<Rightarrow> Range \<Rightarrow> bool" for cfg globalStart count where
  claim: "t < length (rg_threads r) \<Longrightarrow> rg_threads r ! t = Idle \<Longrightarrow>
     range_step cfg globalStart count r (set_thread t (Claimed (rg_next r)) (r\<lparr>rg_next := rg_next r + 1\<rparr>))"
| leave: "t < length (rg_threads r) \<Longrightarrow> rg_threads r ! t = Claimed off \<Longrightarrow> off \<ge> count \<or> rg_failed r \<or> rg_stop r \<Longrightarrow>
     range_step cfg globalStart count r (set_thread t Exited r)"
| enter: "t < length (rg_threads r) \<Longrightarrow> rg_threads r ! t = Claimed off \<Longrightarrow> \<not> (off \<ge> count \<or> rg_failed r \<or> rg_stop r) \<Longrightarrow>
     is_int32 (globalStart + off) \<Longrightarrow> range_step cfg globalStart count r (set_thread t (Working off) r)"
| ready: "t < length (rg_threads r) \<Longrightarrow> rg_threads r ! t = Working off \<Longrightarrow>
     provision_one cfg (globalStart + off) ((rg_prov r)\<lparr>pv_world := w\<rparr>) = (Inr c, p) \<Longrightarrow>
     range_step cfg globalStart count r (set_thread t Idle
       (r\<lparr>rg_out := (rg_out r)[nat off := c], rg_completed := rg_completed r + 1, rg_prov := p\<rparr>))"
| fail: "t < length (rg_threads r) \<Longrightarrow> rg_threads r ! t = Working off \<Longrightarrow>
     provision_one cfg (globalStart + off) ((rg_prov r)\<lparr>pv_world := w\<rparr>) = (Inl e, p) \<Longrightarrow> e \<noteq> Undefined \<Longrightarrow>
     range_step cfg globalStart count r (set_thread t Exited (r\<lparr>rg_failed := True, rg_prov := p\<rparr>))"
| signal: "range_step cfg globalStart count r (r\<lparr>rg_stop := True\<rparr>)"

text \<open>What \<^verbatim>\<open>provisionRange\<close> returns once its threads have been joined.\<close>

definition range_result :: "Range \<Rightarrow> ClientCredentials list" where
  "range_result r = (if rg_stop r then [] else if rg_failed r then [] else rg_out r)"

definition joined :: "Range \<Rightarrow> bool" where
  "joined r \<longleftrightarrow> list_all (\<lambda>t. t = Exited) (rg_threads r)"

section \<open>What an operation leaves alone\<close>

text \<open>Everything but the world, the tallies and the memory of an old API.\<close>

named_theorems keeps_intros

definition roster_same :: "Provisioner \<Rightarrow> Provisioner \<Rightarrow> bool" where
  "roster_same p p' \<longleftrightarrow> pv_roster p' = pv_roster p \<and> pv_rosterEmails p' = pv_rosterEmails p \<and>
     pv_rosterKindAppToken p' = pv_rosterKindAppToken p \<and> pv_rosterAppTokens p' = pv_rosterAppTokens p \<and>
     pv_rosterGameApiUrl p' = pv_rosterGameApiUrl p \<and> pv_runStarted p' = pv_runStarted p"

abbreviation keeps_roster :: "(Provisioner, 'a) io \<Rightarrow> bool" where
  "keeps_roster \<equiv> framed roster_same"

lemma retry_alt:
  "retry_loop m stop n = io_catch m (\<lambda>e. if \<not> isTransport e \<or> n + 1 \<ge> 3 \<or> stop (n + 1) then io_throw e
     else retry_loop m stop (n + 1))"
  by (rule ext, subst retry_loop.simps) (auto simp: io_catch_def io_throw_def split: prod.split sum.split)

context frame_relation
begin

lemma framed_retry: "framed R m \<Longrightarrow> framed R (retry_loop m stop n)"
proof (induction "3 - n" arbitrary: n rule: less_induct)
  case less
  have "framed R (if \<not> isTransport e \<or> n + 1 \<ge> 3 \<or> stop (n + 1) then io_throw e else retry_loop m stop (n + 1))" for e
    using less by (auto intro!: framed_pure)
  with less.prems show ?case by (subst retry_alt) (rule framed_catch)
qed

end

interpretation roster: frame_relation roster_same
  by unfold_locales (simp_all add: roster_same_def)

lemmas [keeps_intros] = roster.framed_pure roster.framed_bind roster.framed_catch roster.framed_retry framed_if

lemma keeps_send [keeps_intros]: "keeps_roster (send url q v b h)"
  by (auto simp: framed_def send_def Let_def roster_same_def split: prod.splits)

lemma keeps_request [keeps_intros]: "keeps_roster (requestWithRetry url q v b stop h)"
  by (simp add: requestWithRetry_def keeps_intros)

lemma keeps_signIn [keeps_intros]: "keeps_roster (login cfg email)" "keeps_roster (signIn cfg email)"
  by (simp_all add: login_def signIn_def Let_def keeps_intros)

lemma keeps_mint [keeps_intros]: "keeps_roster (mint_request cfg c)" "keeps_roster (mintAppToken cfg c)"
  by (simp_all add: mint_request_def mintAppToken_def mint_def Let_def keeps_intros)

lemma keeps_placed [keeps_intros]: "keeps_roster (placed cfg s c)"
  by (auto simp: framed_def placed_def roster_same_def)

lemma keeps_place [keeps_intros]: "keeps_roster (assignServer cfg c)" "keeps_roster (place_client cfg c)"
  by (simp_all add: assignServer_def place_client_def bootstrapGameClient_def keeps_intros)

lemma keeps_from_app_token [keeps_intros]: "keeps_roster (from_app_token cfg pre c)"
proof -
  have "roster_same p p'" if "place_client cfg d (p\<lparr>pv_reused := x\<rparr>) = (r, p')" for d p x r p'
    using framedD [OF keeps_place(2) that] by (simp add: roster_same_def)
  then show ?thesis by (auto simp: framed_def from_app_token_def Let_def roster_same_def split: if_splits)
qed

lemma keeps_obtain_session [keeps_intros]: "keeps_roster (obtain_session cfg g email)"
proof -
  have "keeps_roster (\<lambda>p. (Inr x, p\<lparr>pv_reused := pv_reused p + 1\<rparr>))"
    "keeps_roster (\<lambda>p. (Inr x, if pv_runStarted p then p\<lparr>pv_mintedMidRun := pv_mintedMidRun p + 1\<rparr>
        else p\<lparr>pv_mintedProvisioning := pv_mintedProvisioning p + 1\<rparr>))" for x :: string
    by (auto simp: framed_def roster_same_def)
  then show ?thesis unfolding obtain_session_def by (auto intro!: keeps_intros)
qed

lemma keeps_provision_one: "keeps_roster (provision_one cfg g)"
  unfolding provision_one_def Let_def by (intro keeps_intros) (auto split: option.split intro!: keeps_intros)

section \<open>What is asked of the services\<close>

text \<open>\<open>asked Q\<close>: only queries of \<open>Q\<close> are sent, and no sign-in is tallied.\<close>

definition asked :: "Query set \<Rightarrow> Provisioner \<Rightarrow> Provisioner \<Rightarrow> bool" where
  "asked Q p p' \<longleftrightarrow> (\<exists>xs. wo_sent (pv_world p') = wo_sent (pv_world p) @ xs \<and> rs_query ` set xs \<subseteq> Q) \<and>
     pv_mintedProvisioning p' = pv_mintedProvisioning p \<and> pv_mintedMidRun p' = pv_mintedMidRun p"

interpretation asked: frame_relation "asked Q" for Q
proof
  show "asked Q s t \<Longrightarrow> asked Q t u \<Longrightarrow> asked Q s u" for s t u
    by (fastforce simp: asked_def)
qed (simp add: asked_def)

named_theorems asks_intros

lemmas [asks_intros] = asked.framed_pure asked.framed_bind asked.framed_catch asked.framed_retry framed_if

lemma asks_request [asks_intros]: "q \<in> Q \<Longrightarrow> framed (asked Q) (requestWithRetry url q v b stop h)"
proof -
  assume "q \<in> Q"
  then have "framed (asked Q) (send url q v b h)"
    by (auto simp: framed_def asked_def send_def request_def post_def Let_def)
  then show ?thesis unfolding requestWithRetry_def by (rule asked.framed_retry)
qed

lemma asks_placed [asks_intros]: "framed (asked Q) (placed cfg s c)"
  by (auto simp: framed_def placed_def asked_def)

lemma asks_place: "{BOOTSTRAP_QUERY, ASSIGN_QUERY} \<subseteq> Q \<Longrightarrow> framed (asked Q) (place_client cfg c)"
  by (simp add: assignServer_def place_client_def bootstrapGameClient_def asks_intros)

lemma asks_mint: "{MINT_MUTATION, CONSENTS_MUTATION} \<subseteq> Q \<Longrightarrow> framed (asked Q) (mintAppToken cfg c)"
  by (simp add: mint_request_def mintAppToken_def mint_def Let_def asks_intros)

lemma asks_covered:
  assumes tok: "pv_roster p g = Some tok" "tok \<noteq> []" and one: "provision_one cfg g p = (r, p')"
  shows "asked {MINT_MUTATION, CONSENTS_MUTATION, BOOTSTRAP_QUERY, ASSIGN_QUERY} p p'" (is "asked ?Q p p'")
proof -
  let ?c = "fresh_creds cfg g"
  have placed: "framed (asked ?Q) (place_client cfg c)" for c by (rule asks_place) simp
  have minted: "framed (asked ?Q) (mintAppToken cfg c)" for c by (rule asks_mint) simp
  have reused: "asked ?Q p q" if "asked ?Q (p\<lparr>pv_reused := x\<rparr>) q" for q x using that by (simp add: asked_def)
  have pre: "asked ?Q p q" if "from_app_token cfg pre ?c p = (x, q)" for pre x q
    using that framedD [OF placed] asked.refl by (auto simp: from_app_token_def Let_def split: if_splits intro!: reused)
  have session: "obtain_session cfg g (cr_email ?c) p =
      (case roster_email g (cr_email ?c) p of Some e \<Rightarrow> (Inl e, p) | None \<Rightarrow> (Inr tok, p\<lparr>pv_reused := pv_reused p + 1\<rparr>))"
    using tok by (simp add: obtain_session_def rosterSession_def io_bind_def split: option.split)
  have rest: "framed (asked ?Q) (io_bind (mintAppToken cfg d) (place_client cfg))" for d
    by (rule asked.framed_bind [OF minted placed])
  have plain: "asked ?Q p q" if "io_bind (obtain_session cfg g (cr_email ?c)) (\<lambda>session.
      io_bind (mintAppToken cfg (?c\<lparr>cr_sessionToken := session\<rparr>)) (place_client cfg)) p = (x, q)" for x q
    using that framedD [OF rest] asked.refl unfolding io_bind_def [of "obtain_session cfg g (cr_email ?c)"] session
    by (auto split: option.splits intro!: reused)
  show ?thesis using one pre plain asked.refl
    by (auto simp: provision_one_def Let_def io_bind_def [of "\<lambda>p. (X p, p)" for X] split: sum.splits option.splits if_splits)
qed

section \<open>What provisioning yields\<close>

definition roster_ok :: "Provisioner \<Rightarrow> bool" where
  "roster_ok p \<longleftrightarrow> (\<forall>i tok. pv_rosterAppTokens p i = Some tok \<longrightarrow> length (ra_token tok) = 64 \<and> ra_gameTokenId tok \<noteq> 0)"

lemma roster_ok_same: "roster_ok p \<Longrightarrow> roster_same p p' \<Longrightarrow> roster_ok p'"
  by (simp add: roster_ok_def roster_same_def)

lemma token_fields_frame:
  "token_fields j p c = Inr c' \<Longrightarrow> cr_index c' = cr_index c \<and> cr_email c' = cr_email c \<and> cr_gameApiUrl c' = cr_gameApiUrl c \<and>
     cr_serverIp4 c' = cr_serverIp4 c \<and> cr_serverPort c' = cr_serverPort c"
  by (auto simp: token_fields_def ebind_Inr_iff)

lemma placed_frame:
  "placed cfg s c p = (Inr c', p') \<Longrightarrow> p' = p \<and> (\<exists>ip port t. c' = c\<lparr>cr_serverIp4 := ip, cr_serverPort := port, cr_udpReadyAt := t\<rparr>)"
  by (auto simp: placed_def ebind_Inr_iff)

lemma assign_frame:
  "assignServer cfg c p = (Inr c', p') \<Longrightarrow> \<exists>ip port t. c' = c\<lparr>cr_serverIp4 := ip, cr_serverPort := port, cr_udpReadyAt := t\<rparr>"
  by (auto simp: assignServer_def io_bind_Inr_iff dest!: placed_frame)

lemma place_client_frame: "place_client cfg c p = (Inr c', p') \<Longrightarrow>
     \<exists>ip port t. c' = c\<lparr>cr_serverIp4 := ip, cr_serverPort := port, cr_udpReadyAt := t\<rparr>"
  by (auto simp: place_client_def io_bind_Inr_iff dest!: assign_frame)

definition usable :: "ClientCredentials \<Rightarrow> bool" where
  "usable c \<longleftrightarrow> length (cr_appToken c) = 64 \<and> cr_gameApiUrl c \<noteq> []"

lemma mint_result:
  assumes "mintAppToken cfg c p = (Inr c', p')"
  shows "usable c' \<and> cr_index c' = cr_index c \<and> cr_email c' = cr_email c"
proof -
  from assms obtain m q d where d: "token_fields m q c = Inr d"
    and c': "c' = (if cf_gameApiUrl cfg \<noteq> [] then d\<lparr>cr_gameApiUrl := cf_gameApiUrl cfg\<rparr>
              else case str_at m ''gameApiUrl'' of Some u \<Rightarrow> d\<lparr>cr_gameApiUrl := u\<rparr> | None \<Rightarrow> d)"
    and ok: "cr_gameApiUrl c' \<noteq> []" "length (cr_appToken c') = 64"
    by (auto simp: mintAppToken_def io_bind_Inr_iff Let_def split: if_splits)
  from ok c' token_fields_frame [OF d] show ?thesis by (auto simp: usable_def split: option.splits)
qed

lemma provision_one_result:
  assumes p: "provision_one cfg g p = (Inr c, p')" and ok: "roster_ok p"
  shows "usable c \<and> cr_index c = g \<and> cr_email c = derivedEmail cfg g"
proof -
  let ?c = "fresh_creds cfg g"
  from p obtain pre where pre: "(if pv_rosterKindAppToken p then rosterAppToken g (cr_email ?c) p else Inr None) = Inr pre"
    and rest: "(case pre of Some pre \<Rightarrow> from_app_token cfg pre ?c
        | None \<Rightarrow> io_bind (obtain_session cfg g (cr_email ?c)) (\<lambda>session.
            io_bind (mintAppToken cfg (?c\<lparr>cr_sessionToken := session\<rparr>)) (place_client cfg))) p = (Inr c, p')"
    by (auto simp: provision_one_def Let_def io_bind_Inr_iff)
  show ?thesis
  proof (cases pre)
    case (Some tok)
    with pre have "length (ra_token tok) = 64" using ok
      by (auto simp: rosterAppToken_def roster_ok_def split: if_splits option.splits)
    with rest Some show ?thesis
      by (auto simp: from_app_token_def Let_def usable_def fresh_creds_def split: if_splits dest!: place_client_frame)
  next
    case None
    with rest obtain session q d q' where m: "mintAppToken cfg (?c\<lparr>cr_sessionToken := session\<rparr>) q = (Inr d, q')"
      and pl: "place_client cfg d q' = (Inr c, p')" by (auto simp: io_bind_Inr_iff)
    from mint_result [OF m] place_client_frame [OF pl] show ?thesis by (auto simp: usable_def fresh_creds_def)
  qed
qed

lemma roster_entry_ok: "roster_entry e p = Inr p' \<Longrightarrow> roster_ok p \<Longrightarrow> roster_ok p'"
  by (auto simp: roster_entry_def roster_ok_def ebind_Inr_iff Let_def split: if_splits option.splits)

lemma roster_entries_ok: "roster_entries es p = Inr p' \<Longrightarrow> roster_ok p \<Longrightarrow> roster_ok p'"
  by (induction es arbitrary: p) (auto simp: ebind_Inr_iff intro: roster_entry_ok)

lemma new_provisioner_ok:
  assumes "new_provisioner cfg fl w = Inr p"
  shows "roster_ok p"
proof (cases "cf_rosterFile cfg = []")
  case True
  then show ?thesis using assms by (auto simp: new_provisioner_def roster_ok_def Provisioner_init_def)
next
  case False
  with assms obtain doc where doc: "fl = RosterDoc doc" by (cases fl) (auto simp: new_provisioner_def)
  with assms False obtain es app url where
    es: "roster_entries es ((Provisioner_init w)\<lparr>pv_rosterKindAppToken := app, pv_rosterGameApiUrl := url\<rparr>) = Inr p"
    by (auto simp: new_provisioner_def ebind_Inr_iff Let_def split: option.splits)
  show ?thesis by (rule roster_entries_ok [OF es]) (simp add: roster_ok_def Provisioner_init_def)
qed

section \<open>The threads\<close>

definition filled :: "Config \<Rightarrow> int \<Rightarrow> int \<Rightarrow> Range \<Rightarrow> bool" where
  "filled cfg globalStart off r \<longleftrightarrow>
     usable (rg_out r ! nat off) \<and> cr_index (rg_out r ! nat off) = globalStart + off \<and>
     cr_email (rg_out r ! nat off) = derivedEmail cfg (globalStart + off)"

definition held :: "int \<Rightarrow> Thread \<Rightarrow> bool" where
  "held off t \<longleftrightarrow> t = Claimed off \<or> t = Working off"

definition halted :: "Range \<Rightarrow> bool" where
  "halted r \<longleftrightarrow> rg_failed r \<or> rg_stop r"

text \<open>
  While nothing went wrong, every offset handed out is held by a thread or filled in, and a
  thread only leaves after the last offset was handed out.
\<close>

definition range_ok :: "Config \<Rightarrow> int \<Rightarrow> int \<Rightarrow> Range \<Rightarrow> bool" where
  "range_ok cfg globalStart count r \<longleftrightarrow>
     length (rg_out r) = nat count \<and> roster_ok (rg_prov r) \<and>
     (\<forall>off. Working off \<in> set (rg_threads r) \<longrightarrow> 0 \<le> off \<and> off < count) \<and>
     (\<forall>off. Claimed off \<in> set (rg_threads r) \<longrightarrow> 0 \<le> off \<and> off < rg_next r) \<and> 0 \<le> rg_next r \<and>
     (halted r \<or> (\<forall>off. 0 \<le> off \<and> off < rg_next r \<and> off < count \<longrightarrow>
        filled cfg globalStart off r \<or> list_ex (held off) (rg_threads r))) \<and>
     (halted r \<or> (Exited \<in> set (rg_threads r) \<longrightarrow> count \<le> rg_next r))"

inductive_cases range_stepE: "range_step cfg globalStart count r r'"

lemma set_update_cases: "x \<in> set (ts[t := y]) \<Longrightarrow> x = y \<or> x \<in> set ts"
  using set_update_subset_insert by fastforce

lemma held_update:
  assumes "list_ex (held off) ts" "t < length ts" "\<not> held off (ts ! t) \<or> held off y"
  shows "list_ex (held off) (ts[t := y])"
proof -
  from assms(1) obtain i where i: "i < length ts" "held off (ts ! i)" by (auto simp: list_ex_length)
  show ?thesis
  proof (cases "i = t")
    case True
    then show ?thesis using i assms by (auto simp: list_ex_length intro!: exI [of _ t])
  next
    case False
    then show ?thesis using i by (auto simp: list_ex_length intro!: exI [of _ i])
  qed
qed

lemma set_thread_simps [simp]:
  "rg_out (set_thread t x r) = rg_out r" "rg_next (set_thread t x r) = rg_next r" "rg_failed (set_thread t x r) = rg_failed r"
  "rg_stop (set_thread t x r) = rg_stop r" "rg_prov (set_thread t x r) = rg_prov r" "rg_completed (set_thread t x r) = rg_completed r"
  "rg_threads (set_thread t x r) = (rg_threads r)[t := x]" "halted (set_thread t x r) = halted r"
  "filled cfg g off (set_thread t x r) = filled cfg g off r"
  by (simp_all add: set_thread_def halted_def filled_def)

lemma roster_ok_world: "roster_ok (p\<lparr>pv_world := w\<rparr>) = roster_ok p"
  by (simp add: roster_ok_def)

lemma range_claim_ok:
  assumes ok: "range_ok cfg g count r" and t: "t < length (rg_threads r)" "rg_threads r ! t = Idle"
  shows "range_ok cfg g count (set_thread t (Claimed (rg_next r)) (r\<lparr>rg_next := rg_next r + 1\<rparr>))"
proof -
  have h: "list_ex (held off) ((rg_threads r)[t := Claimed (rg_next r)])" if "list_ex (held off) (rg_threads r)" for off
    using that t by (intro held_update) (simp_all add: held_def)
  have n: "list_ex (held (rg_next r)) ((rg_threads r)[t := Claimed (rg_next r)])"
    using t by (auto simp: list_ex_length held_def intro!: exI [of _ t])
  have "filled cfg g off (r\<lparr>rg_next := x\<rparr>) = filled cfg g off r" for off x by (simp add: filled_def)
  moreover have "off < rg_next r \<or> off = rg_next r" if "off < rg_next r + 1" for off using that by linarith
  ultimately show ?thesis using ok h n
    by (fastforce simp: range_ok_def halted_def dest!: set_update_cases)
qed

lemma range_leave_ok:
  assumes ok: "range_ok cfg g count r" and t: "t < length (rg_threads r)" "rg_threads r ! t = Claimed off"
    and l: "off \<ge> count \<or> halted r"
  shows "range_ok cfg g count (set_thread t Exited r)"
proof -
  have "Claimed off \<in> set (rg_threads r)" using t by (metis nth_mem)
  then have off: "0 \<le> off" "off < rg_next r" using ok by (auto simp: range_ok_def)
  have "list_ex (held o') ((rg_threads r)[t := Exited])" if "list_ex (held o') (rg_threads r)" "o' \<noteq> off" for o'
    using that t by (intro held_update) (auto simp: held_def)
  then show ?thesis using ok l off
    by (fastforce simp: range_ok_def dest!: set_update_cases)
qed

lemma range_enter_ok:
  assumes ok: "range_ok cfg g count r" and t: "t < length (rg_threads r)" "rg_threads r ! t = Claimed off"
    and l: "off < count"
  shows "range_ok cfg g count (set_thread t (Working off) r)"
proof -
  have "Claimed off \<in> set (rg_threads r)" using t by (metis nth_mem)
  then have off: "0 \<le> off" "off < rg_next r" using ok by (auto simp: range_ok_def)
  have "list_ex (held o') ((rg_threads r)[t := Working off])" if "list_ex (held o') (rg_threads r)" for o'
    using that t by (intro held_update) (auto simp: held_def)
  then show ?thesis using ok l off
    by (fastforce simp: range_ok_def dest!: set_update_cases)
qed

lemma range_ready_ok:
  assumes ok: "range_ok cfg g count r" and t: "t < length (rg_threads r)" "rg_threads r ! t = Working off"
    and one: "provision_one cfg (g + off) ((rg_prov r)\<lparr>pv_world := w\<rparr>) = (Inr c, p)"
  shows "range_ok cfg g count (set_thread t Idle
       (r\<lparr>rg_out := (rg_out r)[nat off := c], rg_completed := rg_completed r + 1, rg_prov := p\<rparr>))"
    (is "range_ok cfg g count (set_thread t Idle ?r)")
proof -
  have "Working off \<in> set (rg_threads r)" using t by (metis nth_mem)
  then have off: "0 \<le> off" "off < count" using ok by (auto simp: range_ok_def)
  have prov: "roster_ok ((rg_prov r)\<lparr>pv_world := w\<rparr>)" using ok by (simp add: range_ok_def roster_ok_world)
  have p: "roster_ok p" by (rule roster_ok_same [OF prov framedD [OF keeps_provision_one one]])
  have len: "length (rg_out r) = nat count" using ok by (simp add: range_ok_def)
  have here: "filled cfg g off ?r"
    using provision_one_result [OF one prov] off len by (simp add: filled_def)
  have there: "filled cfg g o' ?r" if "filled cfg g o' r" "0 \<le> o'" "o' \<noteq> off" for o'
    using that off by (simp add: filled_def nat_eq_iff)
  have "list_ex (held o') ((rg_threads r)[t := Idle])" if "list_ex (held o') (rg_threads r)" "o' \<noteq> off" for o'
    using that t by (intro held_update) (auto simp: held_def)
  then show ?thesis using ok p here there len
    by (fastforce simp: range_ok_def halted_def dest!: set_update_cases)
qed

lemma range_fail_ok:
  assumes ok: "range_ok cfg g count r" and t: "t < length (rg_threads r)" "rg_threads r ! t = Working off"
    and one: "provision_one cfg (g + off) ((rg_prov r)\<lparr>pv_world := w\<rparr>) = (Inl e, p)"
  shows "range_ok cfg g count (set_thread t Exited (r\<lparr>rg_failed := True, rg_prov := p\<rparr>))"
proof -
  have prov: "roster_ok ((rg_prov r)\<lparr>pv_world := w\<rparr>)" using ok by (simp add: range_ok_def roster_ok_world)
  have p: "roster_ok p" by (rule roster_ok_same [OF prov framedD [OF keeps_provision_one one]])
  then show ?thesis using ok by (fastforce simp: range_ok_def halted_def dest!: set_update_cases)
qed

lemma range_step_ok:
  assumes "range_step cfg g count r r'" "range_ok cfg g count r"
  shows "range_ok cfg g count r'"
  using assms
proof cases
  case (leave t off)
  then show ?thesis using assms(2) range_leave_ok by (auto simp: halted_def)
next
  case signal
  then show ?thesis using assms(2) by (auto simp: range_ok_def halted_def filled_def)
qed (use assms(2) in \<open>auto intro: range_claim_ok range_enter_ok range_ready_ok range_fail_ok\<close>)

lemma range_start_ok: "roster_ok p \<Longrightarrow> range_ok cfg g count (range_start cfg count stop p)"
  by (auto simp: range_ok_def range_start_def)

lemma range_reachable_ok:
  assumes "(range_step cfg g count)\<^sup>*\<^sup>* (range_start cfg count stop p) r" "roster_ok p"
  shows "range_ok cfg g count r"
  using assms by (induction rule: rtranclp_induct) (auto intro: range_step_ok range_start_ok)

text \<open>Once the threads are joined the result is the whole range, in order, or nothing.\<close>

lemma range_result_filled:
  assumes ok: "range_ok cfg g n r" and some: "rg_threads r \<noteq> []" and j: "joined r" and res: "range_result r \<noteq> []"
  shows "length (range_result r) = nat n \<and>
     (\<forall>i < nat n. cr_index (range_result r ! i) = g + int i \<and> cr_email (range_result r ! i) = derivedEmail cfg (g + int i) \<and>
        length (cr_appToken (range_result r ! i)) = 64 \<and> cr_gameApiUrl (range_result r ! i) \<noteq> [])"
proof -
  have live: "\<not> halted r" and eq: "range_result r = rg_out r"
    using res by (auto simp: range_result_def halted_def split: if_splits)
  have ex: "Exited \<in> set (rg_threads r)" using j some by (cases "rg_threads r") (auto simp: joined_def)
  have none: "\<not> list_ex (held off) (rg_threads r)" for off
    using j by (auto simp: joined_def list_ex_iff list_all_iff held_def)
  have "filled cfg g (int i) r" if "i < nat n" for i
  proof -
    have n: "n \<le> rg_next r" and f: "\<forall>off. 0 \<le> off \<and> off < rg_next r \<and> off < n \<longrightarrow> filled cfg g off r"
      using ok live ex none by (auto simp: range_ok_def)
    have "0 \<le> int i" "int i < n" using that by linarith+
    with n show ?thesis by (intro f [rule_format]) simp
  qed
  then show ?thesis using ok by (auto simp: eq range_ok_def filled_def usable_def)
qed

lemma range_threads_length:
  assumes "(range_step cfg g count)\<^sup>*\<^sup>* (range_start cfg count stop p) r"
  shows "length (rg_threads r) = nat (min (cf_provisionConcurrency cfg) count)"
  using assms
proof (induction rule: rtranclp_induct)
  case (step r r')
  from step.hyps(2) step.IH show ?case by cases simp_all
qed (simp add: range_start_def)

section \<open>The threads finish\<close>

fun thread_effort :: "int \<Rightarrow> Thread \<Rightarrow> nat" where
  "thread_effort count Idle = 3"
| "thread_effort count (Claimed off) = (if off < count then 6 else 2)"
| "thread_effort count (Working off) = 5"
| "thread_effort count Exited = 0"

definition effort :: "int \<Rightarrow> Range \<Rightarrow> nat" where
  "effort count r = 4 * nat (count - rg_next r) + sum_list (map (thread_effort count) (rg_threads r))"

lemma sum_list_replace:
  fixes f :: "'a \<Rightarrow> 'b::comm_monoid_add"
  assumes "t < length xs"
  shows "sum_list (map f (xs[t := y])) + f (xs ! t) = sum_list (map f xs) + f y"
proof -
  have "xs = take t xs @ xs ! t # drop (Suc t) xs" by (rule id_take_nth_drop [OF assms])
  then have "sum_list (map f xs) = sum_list (map f (take t xs)) + f (xs ! t) + sum_list (map f (drop (Suc t) xs))"
    by (metis (no_types, lifting) map_append sum_list_append list.simps(9) sum_list.Cons add.assoc)
  moreover have "sum_list (map f (xs[t := y])) = sum_list (map f (take t xs)) + f y + sum_list (map f (drop (Suc t) xs))"
    by (simp add: upd_conv_take_nth_drop [OF assms] add.assoc)
  ultimately show ?thesis by (simp add: ac_simps)
qed

lemma effort_thread:
  "t < length (rg_threads r) \<Longrightarrow> effort count (set_thread t y r) + thread_effort count (rg_threads r ! t) =
     effort count r + thread_effort count y"
  using sum_list_replace [of t "rg_threads r" "thread_effort count" y] by (simp add: effort_def)

lemma range_step_effort:
  assumes "range_step cfg g count r r'"
  shows "r' = r\<lparr>rg_stop := True\<rparr> \<or> effort count r' < effort count r"
  using assms
proof cases
  case (claim t)
  let ?n = "r\<lparr>rg_next := rg_next r + 1\<rparr>"
  have "effort count ?n + (if rg_next r < count then 4 else 0) = effort count r" by (auto simp: effort_def)
  moreover have "effort count r' + 3 = effort count ?n + (if rg_next r < count then 6 else 2)"
    using effort_thread [of t ?n count "Claimed (rg_next r)"] claim by simp
  ultimately show ?thesis by (auto split: if_splits)
next
  case (leave t off)
  then show ?thesis using effort_thread [of t r count Exited] by (auto split: if_splits)
next
  case (enter t off)
  then show ?thesis using effort_thread [of t r count "Working off"] by (auto split: if_splits)
next
  case (ready t off w c p)
  let ?n = "r\<lparr>rg_out := (rg_out r)[nat off := c], rg_completed := rg_completed r + 1, rg_prov := p\<rparr>"
  have "effort count ?n = effort count r" by (simp add: effort_def)
  then show ?thesis using effort_thread [of t ?n count Idle] ready by simp
next
  case (fail t off w e p)
  let ?n = "r\<lparr>rg_failed := True, rg_prov := p\<rparr>"
  have "effort count ?n = effort count r" by (simp add: effort_def)
  then show ?thesis using effort_thread [of t ?n count Exited] fail by simp
qed simp

lemma thread_moved:
  assumes "t < length (rg_threads r)" "rg_threads q = rg_threads r" "rg_threads r ! t \<noteq> x"
  shows "set_thread t x q \<noteq> r\<lparr>rg_stop := True\<rparr>"
proof
  assume "set_thread t x q = r\<lparr>rg_stop := True\<rparr>"
  then have "rg_threads (set_thread t x q) ! t = rg_threads (r\<lparr>rg_stop := True\<rparr>) ! t" by simp
  with assms show False by simp
qed

text \<open>
  \<open>moves r t\<close>: thread \<open>t\<close> has a step of its own. The offsets threads hold are never negative.
\<close>

definition moves :: "Config \<Rightarrow> int \<Rightarrow> int \<Rightarrow> Range \<Rightarrow> nat \<Rightarrow> bool" where
  "moves cfg globalStart count r t \<longleftrightarrow>
     (\<exists>r'. range_step cfg globalStart count r r' \<and> rg_stop r' = rg_stop r \<and> rg_threads r' ! t \<noteq> rg_threads r ! t \<and>
        effort count r' < effort count r)"

lemma range_moves:
  assumes "range_step cfg g count r (set_thread t x q)" "t < length (rg_threads r)" "rg_threads q = rg_threads r"
    "rg_threads r ! t \<noteq> x" "rg_stop q = rg_stop r"
  shows "moves cfg g count r t"
  using assms range_step_effort [OF assms(1)] thread_moved [OF assms(2-4)]
  unfolding moves_def by (intro exI [of _ "set_thread t x q"]) simp

definition offsets_ok :: "Range \<Rightarrow> bool" where
  "offsets_ok r \<longleftrightarrow> 0 \<le> rg_next r \<and> (\<forall>off. list_ex (held off) (rg_threads r) \<longrightarrow> 0 \<le> off)"

lemma offsets_update:
  assumes "offsets_ok r" "\<And>off. held off x \<Longrightarrow> 0 \<le> off" "rg_threads q = rg_threads r" "0 \<le> rg_next q"
  shows "offsets_ok (set_thread t x q)"
  using assms by (auto simp: offsets_ok_def list_ex_iff dest!: set_update_cases)

lemma offsets_step:
  assumes "range_step cfg g count r r'" "offsets_ok r"
  shows "offsets_ok r'"
  using assms
proof cases
  case (enter t off)
  then have "list_ex (held off) (rg_threads r)" by (auto simp: list_ex_length held_def)
  then have "0 \<le> off" using assms(2) by (simp add: offsets_ok_def)
  then show ?thesis unfolding enter(1)
    by (intro offsets_update [OF assms(2)]) (use assms(2) in \<open>auto simp: held_def offsets_ok_def\<close>)
next
  case (claim t)
  show ?thesis unfolding claim(1)
    by (intro offsets_update [OF assms(2)]) (use assms(2) in \<open>auto simp: held_def offsets_ok_def\<close>)
next
  case (leave t off)
  show ?thesis unfolding leave(1)
    by (intro offsets_update [OF assms(2)]) (use assms(2) in \<open>auto simp: held_def offsets_ok_def\<close>)
next
  case (ready t off w c p)
  show ?thesis unfolding ready(1)
    by (intro offsets_update [OF assms(2)]) (use assms(2) in \<open>auto simp: held_def offsets_ok_def\<close>)
next
  case (fail t off w e p)
  show ?thesis unfolding fail(1)
    by (intro offsets_update [OF assms(2)]) (use assms(2) in \<open>auto simp: held_def offsets_ok_def\<close>)
next
  case signal
  then show ?thesis using assms(2) by (simp add: offsets_ok_def)
qed

lemma offsets_reachable:
  assumes "(range_step cfg g count)\<^sup>*\<^sup>* (range_start cfg count stop p) r"
  shows "offsets_ok r"
  using assms
proof (induction rule: rtranclp_induct)
  case base
  show ?case by (auto simp: offsets_ok_def range_start_def list_ex_iff held_def)
qed (auto intro: offsets_step)

lemma thread_moves:
  assumes t: "t < length (rg_threads r)" "rg_threads r ! t \<noteq> Exited" and ok: "offsets_ok r"
    and g: "is_int32 g" "is_int32 (g + count)"
  shows "moves cfg g count r t \<or>
     (\<exists>off p. rg_threads r ! t = Working off \<and> provision_one cfg (g + off) ((rg_prov r)\<lparr>pv_world := w\<rparr>) = (Inl Undefined, p))"
proof (cases "rg_threads r ! t")
  case Idle
  show ?thesis by (rule disjI1, rule range_moves [OF range_step.claim [OF t(1) Idle] t(1)]) (simp_all add: Idle)
next
  case (Claimed off)
  show ?thesis
  proof (cases "off \<ge> count \<or> rg_failed r \<or> rg_stop r")
    case True
    show ?thesis by (rule disjI1, rule range_moves [OF range_step.leave [OF t(1) Claimed True] t(1)]) (simp_all add: Claimed)
  next
    case False
    have "list_ex (held off) (rg_threads r)" using t Claimed by (auto simp: list_ex_length held_def)
    then have "0 \<le> off" using ok by (simp add: offsets_ok_def)
    then have fits: "is_int32 (g + off)" using False g by (auto simp: is_int32_def)
    show ?thesis by (rule disjI1, rule range_moves [OF range_step.enter [OF t(1) Claimed False fits] t(1)]) (simp_all add: Claimed)
  qed
next
  case (Working off)
  obtain x p where x: "provision_one cfg (g + off) ((rg_prov r)\<lparr>pv_world := w\<rparr>) = (x, p)"
    by fastforce
  show ?thesis
  proof (cases x)
    case (Inl e)
    show ?thesis
    proof (cases "e = Undefined")
      case False
      show ?thesis
        by (rule disjI1, rule range_moves [OF range_step.fail [OF t(1) Working x [unfolded Inl] False] t(1)]) (simp_all add: Working)
    qed (use x Inl Working in blast)
  next
    case (Inr c)
    show ?thesis
      by (rule disjI1, rule range_moves [OF range_step.ready [OF t(1) Working x [unfolded Inr]] t(1)]) (simp_all add: Working)
  qed
qed (use t in simp)

section \<open>Retries\<close>

text \<open>
  The answer of a retried request: the first of at most three answers that is not a transport
  failure, or the last. \<open>attempts w n\<close> counts the requests it takes.
\<close>

lemma send_alt:
  "send url q v b h p = (interpret_answer (wo_http (pv_world p) (length (wo_sent (pv_world p)))),
     p\<lparr>pv_world := (pv_world p)\<lparr>wo_sent := wo_sent (pv_world p) @ [\<lparr>rs_url = graphqlEndpoint url, rs_query = q,
        rs_variables = v, rs_bearer = b, rs_headers = [''Content-Type: application/json''] @
          (if b \<noteq> [] then [''Authorization: Bearer '' @ b] else []) @ h\<rparr>]\<rparr>\<rparr>)"
  by (simp add: send_def request_def post_def Let_def)

definition tries :: "(nat \<Rightarrow> Http) \<Rightarrow> nat \<Rightarrow> nat" where
  "tries answers n =
     (let failed = (\<lambda>i. case interpret_answer (answers (n + i)) of Inl e \<Rightarrow> isTransport e | Inr _ \<Rightarrow> False)
      in if \<not> failed 0 then 1 else if \<not> failed 1 then 2 else 3)"

lemma transport_graphql: "isTransport e \<Longrightarrow> is_graphql e"
  by (cases e) simp_all

lemma retry_answer:
  fixes p :: Provisioner
  defines "n \<equiv> length (wo_sent (pv_world p))" and "k \<equiv> tries (wo_http (pv_world p)) (length (wo_sent (pv_world p)))"
  assumes "requestWithRetry url q v b no_stop h p = (r, p')"
  shows "r = interpret_answer (wo_http (pv_world p) (n + k - 1))" "1 \<le> k" "k \<le> 3"
    "length (wo_sent (pv_world p')) = n + k"
proof -
  show "1 \<le> k" "k \<le> 3" by (auto simp: k_def tries_def Let_def)
  let ?a = "\<lambda>i. interpret_answer (wo_http (pv_world p) (n + i))"
  have "r = ?a (k - 1) \<and> length (wo_sent (pv_world p')) = n + k"
    using assms(3) unfolding requestWithRetry_def
    by (subst (asm) retry_loop.simps, subst (asm) retry_loop.simps, subst (asm) retry_loop.simps)
       (auto simp: send_alt k_def tries_def n_def transport_graphql split: sum.splits if_splits)
  then show "r = interpret_answer (wo_http (pv_world p) (n + k - 1))" "length (wo_sent (pv_world p')) = n + k"
    using \<open>1 \<le> k\<close> by simp_all
qed

text \<open>Services that never answer: every request fails, so provisioning ends in an exception.\<close>

definition services_down :: "Provisioner \<Rightarrow> bool" where
  "services_down p \<longleftrightarrow> wo_http (pv_world p) = (\<lambda>_. HFailed)"

abbreviation "unanswered \<equiv> GraphQLError CurlFailed [] True"

lemma down_request:
  assumes "services_down p"
  obtains p' where "requestWithRetry url q v b no_stop h p = (Inl unanswered, p')"
proof -
  obtain r p' where r: "requestWithRetry url q v b no_stop h p = (r, p')" by fastforce
  from retry_answer(1) [OF r] assms have "r = Inl unanswered" by (simp add: services_down_def interpret_answer_def)
  with r that show ?thesis by blast
qed

lemma down_sign_in:
  assumes "services_down p"
  obtains p' where "signIn cfg email p = (Inl unanswered, p')"
proof -
  obtain p' where "requestWithRetry (cf_managementApiUrl cfg) LOGIN_MUTATION (creds_input email (cf_password cfg)) [] no_stop [] p = (Inl unanswered, p')"
    by (rule down_request [OF assms])
  then have "signIn cfg email p = (Inl unanswered, p')"
    by (simp add: signIn_def login_def io_bind_def io_catch_def io_throw_def Let_def)
  with that show ?thesis by blast
qed

lemma down_mint:
  assumes "services_down p"
  obtains p' where "mintAppToken cfg c p = (Inl unanswered, p')"
proof -
  obtain p' where "mint cfg c p = (Inl unanswered, p')"
    unfolding mint_def by (rule down_request [OF assms])
  then have "mintAppToken cfg c p = (Inl unanswered, p')"
    by (simp add: mintAppToken_def mint_request_def io_bind_def io_catch_def io_throw_def)
  with that show ?thesis by blast
qed

lemma down_place:
  assumes "services_down p"
  obtains p' where "place_client cfg c p = (Inl unanswered, p')"
proof -
  obtain p' where "requestWithRetry (cr_gameApiUrl c) BOOTSTRAP_QUERY (JObj (app_vars cfg)) (cr_appToken c) no_stop [] p = (Inl unanswered, p')"
    by (rule down_request [OF assms])
  then have "place_client cfg c p = (Inl unanswered, p')"
    by (simp add: place_client_def bootstrapGameClient_def io_bind_def)
  with that show ?thesis by blast
qed

lemma down_obtain:
  assumes "services_down p"
  shows "\<exists>r p'. obtain_session cfg g email p = (r, p') \<and> r \<noteq> Inl Undefined \<and> ((\<exists>s. r = Inr s) \<longrightarrow> services_down p')"
proof -
  obtain q where "signIn cfg email p = (Inl unanswered, q)" by (rule down_sign_in [OF assms])
  then show ?thesis using assms
    by (auto simp: obtain_session_def rosterSession_def roster_email_def io_bind_def services_down_def split: option.split)
qed

lemma down_provision:
  assumes "services_down p"
  obtains e p' where "provision_one cfg g p = (Inl e, p')" "e \<noteq> Undefined"
proof -
  let ?c = "fresh_creds cfg g"
  have "\<exists>e p'. from_app_token cfg pre ?c p = (Inl e, p') \<and> e \<noteq> Undefined" for pre
  proof (cases "(if cf_gameApiUrl cfg \<noteq> [] then cf_gameApiUrl cfg else pv_rosterGameApiUrl p) = []")
    case False
    have "services_down (p\<lparr>pv_reused := pv_reused p + 1\<rparr>)" using assms by (simp add: services_down_def)
    then show ?thesis using False down_place unfolding from_app_token_def Let_def by (metis Exn.distinct(5))
  qed (simp add: from_app_token_def Let_def)
  moreover have "\<exists>e p'. io_bind (obtain_session cfg g (cr_email ?c)) (\<lambda>session.
      io_bind (mintAppToken cfg (?c\<lparr>cr_sessionToken := session\<rparr>)) (place_client cfg)) p = (Inl e, p') \<and> e \<noteq> Undefined"
  proof -
    obtain r q where r: "obtain_session cfg g (cr_email ?c) p = (r, q)" "r \<noteq> Inl Undefined" "\<And>s. r = Inr s \<Longrightarrow> services_down q"
      using down_obtain [OF assms] by blast
    show ?thesis
    proof (cases r)
      case (Inr s)
      obtain p' where "mintAppToken cfg (?c\<lparr>cr_sessionToken := s\<rparr>) q = (Inl unanswered, p')" by (rule down_mint [OF r(3) [OF Inr]])
      then show ?thesis using r(1) Inr by (auto simp: io_bind_def)
    qed (use r in \<open>auto simp: io_bind_def\<close>)
  qed
  moreover have "rosterAppToken g (cr_email ?c) p \<noteq> Inl Undefined" by (auto simp: rosterAppToken_def roster_email_def split: option.split)
  ultimately have "\<exists>e p'. provision_one cfg g p = (Inl e, p') \<and> e \<noteq> Undefined"
    by (cases "rosterAppToken g (cr_email ?c) p")
       (auto simp: provision_one_def Let_def io_bind_def [of "\<lambda>p. (X p, p)" for X] split: sum.split option.split)
  with that show ?thesis by blast
qed

section \<open>A sample service\<close>

definition answer :: "(string \<times> json) list \<Rightarrow> Http" where
  "answer kvs = HAnswer 200 (Some (JObj [(''data'', JObj kvs)]))"

definition sample_server :: json where
  "sample_server = JObj [(''ip4'', JStr ''10.0.0.7''), (''clientPort'', JUInt 7777)]"

definition sample_world :: "Http list \<Rightarrow> World" where
  "sample_world as = \<lparr>wo_http = (\<lambda>i. if i < length as then as ! i else HFailed), wo_steady = (\<lambda>_. 0),
     wo_system = (\<lambda>_. 0), wo_sent = []\<rparr>"

definition sample_token :: RosterAppToken where
  "sample_token = \<lparr>ra_token = replicate 64 (CHR ''k''), ra_gameTokenId = 9, ra_expiresAt = 0\<rparr>"

definition sample_provisioner :: "Http list \<Rightarrow> Provisioner" where
  "sample_provisioner as = (Provisioner_init (sample_world as))\<lparr>pv_rosterKindAppToken := True,
     pv_rosterAppTokens := [0 \<mapsto> sample_token], pv_roster := [0 \<mapsto> ''app-token''], pv_rosterGameApiUrl := ''https://game''\<rparr>"

definition roster_config :: Config where
  "roster_config = sample_config\<lparr>cf_rosterFile := ''roster.json'', cf_rosterRequired := True, cf_clients := 1\<rparr>"

definition sample_doc :: json where
  "sample_doc = JObj [(''kind'', JStr ''app-token''), (''gameApiUrl'', JStr ''https://game''),
     (''sessions'', JArr [JObj [(''index'', JUInt 0), (''token'', JStr (replicate 64 (CHR ''k''))), (''gameTokenId'', JStr ''9'')]])]"

lemma sample_roster_load:
  "new_provisioner roster_config (RosterDoc sample_doc) (sample_world as) = Inr (sample_provisioner as)"
proof -
  have "trimSlash ''https://game'' = ''https://game''" by (simp add: trimSlash_def)
  moreover have "stoll ''9'' = Inr 9" by (simp add: stoll_def parse_integer_def is_space_def is_digit_def)
  ultimately show ?thesis
    by (simp add: new_provisioner_def roster_config_def roster_origin_def sample_doc_def str_at_def roster_entry_def
        contains_def jat_def roster_app_token_def to_int32_def Let_def sample_provisioner_def sample_token_def Provisioner_init_def)
qed

definition sample_place :: "Http list" where
  "sample_place = [answer [], answer [(''serverWithLeastClients'', sample_server)]]"

lemma interpret_sample: "interpret_answer (answer kvs) = Inr (JObj kvs)"
  by (simp add: interpret_answer_def answer_def)

lemma retry_first:
  assumes "m s = (Inr x, s')"
  shows "retry_loop m stop n s = (Inr x, s')"
  using assms by (subst retry_loop.simps) simp

lemma sample_cfg: "cf_gameApiUrl roster_config = []"
  by (simp add: roster_config_def sample_config_def Config_init_def)

lemma sample_provision:
  "\<exists>c p. provision_one roster_config 0 (sample_provisioner sample_place) = (Inr c, p)"
  by (simp add: provision_one_def sample_provisioner_def Provisioner_init_def rosterAppToken_def roster_email_def
      from_app_token_def sample_cfg place_client_def bootstrapGameClient_def assignServer_def requestWithRetry_def
      send_alt sample_world_def sample_place_def interpret_sample retry_first io_bind_def io_ok_def io_of_def jindex_def
      placed_def sample_server_def str_field_def jat_def Let_def)

lemma sample_roster_ok: "roster_ok (sample_provisioner as)"
  by (auto simp: roster_ok_def sample_provisioner_def Provisioner_init_def sample_token_def)

text \<open>A range of one client, from any provisioner with the sample roster.\<close>

lemma roster_run:
  assumes p: "p\<lparr>pv_world := sample_world sample_place\<rparr> = sample_provisioner sample_place"
  shows "\<exists>r. (range_step roster_config 0 1)\<^sup>*\<^sup>* (range_start roster_config 1 False p) r \<and> joined r \<and> range_result r \<noteq> [] \<and>
     roster_same p (rg_prov r)"
proof -
  let ?w = "sample_world sample_place" and ?step = "range_step roster_config 0 1"
  obtain c q where one: "provision_one roster_config 0 (p\<lparr>pv_world := ?w\<rparr>) = (Inr c, q)" unfolding p using sample_provision by blast
  define r0 where "r0 = range_start roster_config 1 False p"
  have c4: "cf_provisionConcurrency roster_config = 4" by (simp add: roster_config_def sample_config_def Config_init_def)
  have r0: "rg_threads r0 = [Idle]" "rg_next r0 = 0" "\<not> rg_failed r0" "\<not> rg_stop r0" "rg_prov r0 = p" "length (rg_out r0) = 1"
    by (simp_all add: r0_def range_start_def c4)
  define r1 where "r1 = set_thread 0 (Claimed 0) (r0\<lparr>rg_next := 1\<rparr>)"
  have s1: "?step r0 r1" using range_step.claim [of 0 r0 roster_config 0 1] r0 by (simp add: r1_def)
  define r2 where "r2 = set_thread 0 (Working 0) r1"
  have s2: "?step r1 r2" unfolding r2_def by (rule range_step.enter) (simp_all add: r1_def r0 is_int32_def)
  define r3 where "r3 = set_thread 0 Idle (r2\<lparr>rg_out := (rg_out r2)[nat 0 := c], rg_completed := rg_completed r2 + 1, rg_prov := q\<rparr>)"
  have s3: "?step r2 r3" unfolding r3_def
    by (rule range_step.ready [where w = ?w]) (simp_all add: r2_def r1_def r0 one)
  define r4 where "r4 = set_thread 0 (Claimed 1) (r3\<lparr>rg_next := 2\<rparr>)"
  have s4: "?step r3 r4" using range_step.claim [of 0 r3 roster_config 0 1] r0 by (simp add: r4_def r3_def r2_def r1_def)
  define r5 where "r5 = set_thread 0 Exited r4"
  have s5: "?step r4 r5" unfolding r5_def by (rule range_step.leave [where off = 1]) (simp_all add: r4_def r3_def r2_def r1_def r0)
  have "?step\<^sup>*\<^sup>* r0 r5" using s1 s2 s3 s4 s5 by (meson r_into_rtranclp rtranclp_trans)
  moreover have "joined r5" "range_result r5 \<noteq> []"
    by (auto simp: joined_def range_result_def r5_def r4_def r3_def r2_def r1_def r0 list_update_nonempty)
      (use r0 in force)+
  moreover have "roster_same p (rg_prov r5)"
    using framedD [OF keeps_provision_one one] by (simp add: roster_same_def r5_def r4_def r3_def)
  ultimately show ?thesis unfolding r0_def by blast
qed

lemma sample_run:
  "\<exists>r. (range_step roster_config 0 1)\<^sup>*\<^sup>* (range_start roster_config 1 False (sample_provisioner sample_place)) r \<and>
     joined r \<and> range_result r \<noteq> []"
  using roster_run [of "sample_provisioner sample_place"] by (auto simp: sample_provisioner_def Provisioner_init_def)

section \<open>Properties\<close>

text \<open>
  C3. Provisioning a range is all or nothing, under every interleaving of its threads and every
  behaviour of the services: once the threads are joined, the result is empty or holds exactly one
  entry per requested client, in order of the global index, each with its derived address, a
  64-character app token and a game API address.
\<close>

theorem provision_all_or_nothing:
  assumes "(range_step cfg globalStart count)\<^sup>*\<^sup>* (range_start cfg count stop p) r"
    and "new_provisioner cfg fl w = Inr p0" "roster_same p0 p" "1 \<le> cf_provisionConcurrency cfg" "1 \<le> count"
    and "joined r" "range_result r \<noteq> []"
  shows "length (range_result r) = nat count \<and>
     (\<forall>i < nat count. cr_index (range_result r ! i) = globalStart + int i \<and>
        cr_email (range_result r ! i) = derivedEmail cfg (globalStart + int i) \<and>
        length (cr_appToken (range_result r ! i)) = 64 \<and> cr_gameApiUrl (range_result r ! i) \<noteq> [])"
proof -
  have "roster_ok p" by (rule roster_ok_same [OF new_provisioner_ok [OF assms(2)] assms(3)])
  then have ok: "range_ok cfg globalStart count r" by (rule range_reachable_ok [OF assms(1)])
  have "rg_threads r \<noteq> []" using range_threads_length [OF assms(1)] assms(4,5) by auto
  with ok assms(6,7) show ?thesis by (intro range_result_filled)
qed

theorem provision_all_or_nothing_witness:
  "\<exists>r. (range_step roster_config 0 1)\<^sup>*\<^sup>* (range_start roster_config 1 False (sample_provisioner sample_place)) r \<and>
     joined r \<and> cr_index (range_result r ! 0) = 0 \<and> length (cr_appToken (range_result r ! 0)) = 64"
proof -
  obtain r where r: "(range_step roster_config 0 1)\<^sup>*\<^sup>* (range_start roster_config 1 False (sample_provisioner sample_place)) r"
    "joined r" "range_result r \<noteq> []" using sample_run by blast
  have "1 \<le> cf_provisionConcurrency roster_config" by (simp add: roster_config_def sample_config_def Config_init_def)
  with provision_all_or_nothing [OF r(1) sample_roster_load roster.refl this _ r(2,3)] r show ?thesis by auto
qed

text \<open>
  C16. Provisioning a range ends, for ranges whose indices are \<^verbatim>\<open>int\<close>s, under every interleaving.
  Every thread that has not left can move, whatever the services answer it, unless those answers
  make its own provisioning undefined (a missing key of a constant object, a port or a time stamp
  that does not fit); so while a thread runs some step other than a stop signal is always possible,
  the services failing to answer if nothing else. Every such step uses up effort, of which there
  is at most four per client and three per thread.
\<close>

theorem provision_terminates:
  assumes "(range_step cfg globalStart count)\<^sup>*\<^sup>* (range_start cfg count stop p) r"
    and "is_int32 globalStart" "is_int32 (globalStart + count)"
  shows "(\<forall>t w. t < length (rg_threads r) \<and> rg_threads r ! t \<noteq> Exited \<longrightarrow> moves cfg globalStart count r t \<or>
       (\<exists>off q. rg_threads r ! t = Working off \<and>
          provision_one cfg (globalStart + off) ((rg_prov r)\<lparr>pv_world := w\<rparr>) = (Inl Undefined, q))) \<and>
     (\<not> joined r \<longrightarrow> (\<exists>t. t < length (rg_threads r) \<and> moves cfg globalStart count r t)) \<and>
     (\<forall>r'. range_step cfg globalStart count r r' \<longrightarrow> r' = r\<lparr>rg_stop := True\<rparr> \<or> effort count r' < effort count r) \<and>
     effort count (range_start cfg count stop p) \<le> 4 * nat count + 3 * nat (min (cf_provisionConcurrency cfg) count)"
proof -
  have m: "moves cfg globalStart count r t \<or> (\<exists>off q. rg_threads r ! t = Working off \<and>
      provision_one cfg (globalStart + off) ((rg_prov r)\<lparr>pv_world := w\<rparr>) = (Inl Undefined, q))"
    if "t < length (rg_threads r)" "rg_threads r ! t \<noteq> Exited" for t w
    by (rule thread_moves [OF that offsets_reachable [OF assms(1)] assms(2,3)])
  let ?w = "\<lparr>wo_http = \<lambda>_. HFailed, wo_steady = \<lambda>_. 0, wo_system = \<lambda>_. 0, wo_sent = []\<rparr>"
  have "services_down ((rg_prov r)\<lparr>pv_world := ?w\<rparr>)" by (simp add: services_down_def)
  then have "provision_one cfg g ((rg_prov r)\<lparr>pv_world := ?w\<rparr>) \<noteq> (Inl Undefined, q)" for g q
    using down_provision by (metis fst_conv sum.inject(1))
  with m [of _ ?w] have "\<exists>t. t < length (rg_threads r) \<and> moves cfg globalStart count r t" if "\<not> joined r"
    using that unfolding joined_def list_all_length by blast
  moreover have "effort count (range_start cfg count stop p) \<le> 4 * nat count + 3 * nat (min (cf_provisionConcurrency cfg) count)"
    by (simp add: effort_def range_start_def sum_list_replicate)
  ultimately show ?thesis using m range_step_effort by blast
qed

theorem provision_terminates_witness:
  "\<exists>t. moves roster_config 0 1 (range_start roster_config 1 False (sample_provisioner sample_place)) t"
proof -
  have "\<not> joined (range_start roster_config 1 False (sample_provisioner sample_place))"
    by (simp add: joined_def range_start_def roster_config_def sample_config_def Config_init_def)
  then show ?thesis
    using provision_terminates [of roster_config 0 1 False "sample_provisioner sample_place", OF rtranclp.rtrancl_refl]
    by (auto simp: is_int32_def)
qed

text \<open>
  A request is sent until an answer is not a transport failure, at most three times, and what
  the caller sees is that last answer; an error of the service itself is never retried.
\<close>

theorem retry_exact:
  assumes "requestWithRetry url q v b no_stop h p = (r, p')" "n = length (wo_sent (pv_world p))"
    "k = tries (wo_http (pv_world p)) n"
  shows "1 \<le> k \<and> k \<le> 3 \<and> length (wo_sent (pv_world p')) = n + k \<and>
     r = interpret_answer (wo_http (pv_world p) (n + k - 1)) \<and>
     (\<forall>i < k - 1. \<exists>e. interpret_answer (wo_http (pv_world p) (n + i)) = Inl e \<and> isTransport e) \<and>
     (k < 3 \<longrightarrow> (\<forall>e. r = Inl e \<longrightarrow> \<not> isTransport e))"
proof -
  note a = retry_answer [OF assms(1), folded assms(2), folded assms(3)]
  have "\<exists>e. interpret_answer (wo_http (pv_world p) (n + i)) = Inl e \<and> isTransport e" if "i < k - 1" for i
    using that by (cases i) (auto simp: assms(3) tries_def Let_def less_Suc_eq split: if_splits sum.splits)
  moreover have "\<not> isTransport e" if "k < 3" "r = Inl e" for e
    using that a(1) by (auto simp: assms(3) tries_def Let_def split: if_splits sum.splits)
  ultimately show ?thesis using a by blast
qed

theorem retry_exact_witness:
  "fst (requestWithRetry ''u'' LOGIN_MUTATION (JObj []) [] no_stop [] (sample_provisioner [HFailed, answer []])) = Inr (JObj [])"
proof -
  let ?p = "sample_provisioner [HFailed, answer []]"
  obtain r p' where r: "requestWithRetry ''u'' LOGIN_MUTATION (JObj []) [] no_stop [] ?p = (r, p')" by fastforce
  have k: "tries (wo_http (pv_world ?p)) 0 = 2"
    by (simp add: tries_def Let_def sample_provisioner_def Provisioner_init_def sample_world_def interpret_answer_def answer_def)
  have "r = interpret_answer (wo_http (pv_world ?p) (0 + 2 - 1))"
    using retry_exact [OF r refl refl] k by (simp add: sample_provisioner_def Provisioner_init_def sample_world_def)
  then show ?thesis using r
    by (simp add: sample_provisioner_def Provisioner_init_def sample_world_def interpret_sample)
qed

text \<open>
  C33. A client the roster covers never signs in: whatever the services answer, no login or
  registration is sent for it and no sign-in is tallied; and when the roster names another address
  for the index, nothing at all is sent and provisioning fails.
\<close>

theorem roster_avoids_sign_in:
  assumes "pv_roster p g = Some tok" "tok \<noteq> []" "provision_one cfg g p = (r, p')"
  shows "(\<exists>xs. wo_sent (pv_world p') = wo_sent (pv_world p) @ xs \<and>
        LOGIN_MUTATION \<notin> rs_query ` set xs \<and> REGISTER_MUTATION \<notin> rs_query ` set xs) \<and>
     pv_mintedProvisioning p' = pv_mintedProvisioning p \<and> pv_mintedMidRun p' = pv_mintedMidRun p \<and>
     (\<forall>e. pv_rosterEmails p g = Some e \<and> e \<noteq> derivedEmail cfg g \<longrightarrow>
        r = Inl (GraphQLError (RosterEmail g e (derivedEmail cfg g)) [] False) \<and> p' = p)"
proof -
  have "r = Inl (GraphQLError (RosterEmail g e (derivedEmail cfg g)) [] False) \<and> p' = p"
    if "pv_rosterEmails p g = Some e" "e \<noteq> derivedEmail cfg g" for e
    using assms that
    by (auto simp: provision_one_def fresh_creds_def rosterAppToken_def roster_email_def obtain_session_def rosterSession_def
        io_bind_def Let_def split: if_splits option.splits)
  with asks_covered [OF assms] show ?thesis by (fastforce simp: asked_def)
qed

theorem roster_avoids_sign_in_witness:
  "\<exists>c p'. provision_one roster_config 0 (sample_provisioner sample_place) = (Inr c, p') \<and>
     LOGIN_MUTATION \<notin> rs_query ` set (wo_sent (pv_world p'))"
proof -
  obtain c p' where one: "provision_one roster_config 0 (sample_provisioner sample_place) = (Inr c, p')"
    using sample_provision by blast
  have "pv_roster (sample_provisioner sample_place) 0 = Some ''app-token''" "wo_sent (pv_world (sample_provisioner sample_place)) = []"
    by (simp_all add: sample_provisioner_def Provisioner_init_def sample_world_def)
  with roster_avoids_sign_in [OF this(1) _ one] one show ?thesis by auto
qed

text \<open>
  A refresh installs whatever token text the service answers, of any length: unlike minting and
  the roster, it does not check for the 64 characters every signature reads.
\<close>

theorem refresh_accepts_any_token:
  "\<exists>p c' p'. refreshToken cfg url c p = (Inr (False, c'), p') \<and> cr_appToken c' = t \<and> cr_index c' = cr_index c"
proof -
  define fresh where "fresh = JObj [(''token'', JStr t), (''gameTokenId'', JStr ''9''), (''expiresAt'', JStr [])]"
  define p where "p = sample_provisioner [answer [(''refreshAppToken'', fresh)]]"
  have stoll: "stoll ''9'' = Inr 9" by (simp add: stoll_def parse_integer_def is_space_def is_digit_def)
  have iso: "parseIso8601Utc 0 [] (25 * 60) = Inr 1500000000000"
    by (simp add: parseIso8601Utc_def sscanf_iso_def scan_field_def scan_d_def scan_sign_def time_point_def)
  have data: "\<exists>q. refresh_data url c p = (Inr (JObj [(''refreshAppToken'', fresh)]), q) \<and> system_now (pv_world q) = 0"
    by (simp add: refresh_data_def p_def requestWithRetry_def send_alt sample_provisioner_def Provisioner_init_def
        sample_world_def interpret_sample retry_first io_catch_def system_now_def Let_def)
  then obtain q where "refresh_data url c p = (Inr (JObj [(''refreshAppToken'', fresh)]), q)" "system_now (pv_world q) = 0" by blast
  then show ?thesis
    by (intro exI [of _ p])
       (simp add: refreshToken_def io_bind_def jindex_def token_fields_def str_field_def jat_def fresh_def stoll iso [simplified] io_of_def io_ok_def)
qed

end
