(* ===== verification/Fleet.thy ===== *)
theory Fleet
  imports Stats
begin

text \<open>
  Merging the status documents of several hosts (\<^verbatim>\<open>mergeFleetStats\<close> in \<^verbatim>\<open>src/Stats.cpp\<close>).
  A host's document is any JSON value: an accessor that the JSON library refuses raises, and
  the merge ends with that error. Budgets, gauges and sign-in tallies are summed in \<^verbatim>\<open>int\<close>: a sum
  that does not fit has no meaning.
\<close>

section \<open>The merge\<close>

record Merge =
  mg_life :: CounterSnap
  mg_win :: CounterSnap
  mg_iv :: IntervalRates
  mg_meta :: SnapshotMeta
  mg_first :: bool
  mg_disagree :: string

definition Merge_init :: Merge where
  "Merge_init = \<lparr>mg_life = CounterSnap_init, mg_win = CounterSnap_init, mg_iv = IntervalRates_init,
     mg_meta = SnapshotMeta_init, mg_first = True, mg_disagree = []\<rparr>"

text \<open>\<^verbatim>\<open>std::max\<close> on doubles.\<close>

definition fmax :: "double \<Rightarrow> double \<Rightarrow> double" where
  "fmax a b = (if a < b then b else a)"

definition merge_open :: "u64 \<Rightarrow> u64 \<Rightarrow> u64" where
  "merge_open acc openSec = (if openSec \<noteq> 0 \<and> (acc = 0 \<or> openSec < acc) then openSec else acc)"

definition merge_window :: "json \<Rightarrow> Merge \<Rightarrow> json_error + CounterSnap \<times> Merge" where
  "merge_window h acc =
     (case jlookup h ''window'' of
        Some (JObj kvs) \<Rightarrow>
          ebind (jvalue Inr (JObj kvs) ''counters'' (JObj [])) (\<lambda>counters.
          ebind (read_snap counters) (\<lambda>W.
          ebind (jvalue get_string h ''rung_id'' []) (\<lambda>rung.
          ebind (jvalue get_string (JObj kvs) ''id'' rung) (\<lambda>rid.
          ebind (jvalue get_double (JObj kvs) ''duration_sec'' 0) (\<lambda>dur.
          ebind (jvalue get_u64 (JObj kvs) ''open_epoch_sec'' 0) (\<lambda>openSec.
            let meta = mg_meta acc;
                disagree = (if \<not> mg_first acc \<and> rid \<noteq> sm_rungId meta then ''rung_id'' else mg_disagree acc);
                meta = (if mg_first acc then meta\<lparr>sm_rungId := rid\<rparr> else meta);
                meta = meta\<lparr>sm_windowDurationSec := fmax (sm_windowDurationSec meta) dur,
                            sm_windowOpenEpochSec := merge_open (sm_windowOpenEpochSec meta) openSec\<rparr>
            in Inr (W, acc\<lparr>mg_meta := meta, mg_disagree := disagree\<rparr>)))))))
      | _ \<Rightarrow> Inr (CounterSnap_init, acc))"

definition merge_counters :: "CounterSnap \<Rightarrow> CounterSnap \<Rightarrow> Merge \<Rightarrow> json_error + Merge" where
  "merge_counters L W acc =
     (if mg_first acc then Inr (acc\<lparr>mg_life := L, mg_win := W\<rparr>)
      else ebind (snap_plus (mg_life acc) L) (\<lambda>life. ebind (snap_plus (mg_win acc) W) (\<lambda>win.
           Inr (acc\<lparr>mg_life := life, mg_win := win\<rparr>))))"

definition merge_usage :: "json \<Rightarrow> Merge \<Rightarrow> json_error + Merge" where
  "merge_usage h acc =
     (let meta = mg_meta acc in
      ebind (jvalue get_int h ''used'' 0) (\<lambda>used.
      ebind (add_int (sm_used meta) used) (\<lambda>used.
      ebind (jvalue get_int h ''limit'' 0) (\<lambda>limit.
      ebind (add_int (sm_limit meta) limit) (\<lambda>limit.
      Inr (acc\<lparr>mg_meta := meta\<lparr>sm_used := used, sm_limit := limit\<rparr>\<rparr>))))))"

definition merge_gauges :: "json \<Rightarrow> Merge \<Rightarrow> json_error + Merge" where
  "merge_gauges h acc =
     (case jlookup h ''gauges'' of
        Some g \<Rightarrow>
          let meta = mg_meta acc in
          ebind (jvalue get_int g ''active'' 0) (\<lambda>active.
          ebind (add_int (sm_activeClients meta) active) (\<lambda>active.
          ebind (jvalue get_int g ''suspended'' 0) (\<lambda>suspended.
          ebind (add_int (sm_suspendedClients meta) suspended) (\<lambda>suspended.
          Inr (acc\<lparr>mg_meta := meta\<lparr>sm_activeClients := active, sm_suspendedClients := suspended\<rparr>\<rparr>)))))
      | None \<Rightarrow> Inr acc)"

definition merge_interval :: "json \<Rightarrow> Merge \<Rightarrow> json_error + Merge" where
  "merge_interval h acc =
     (case jlookup h ''interval'' of
        Some (JObj kvs) \<Rightarrow>
          ebind (jvalue get_double (JObj kvs) ''dt_sec'' 0) (\<lambda>dt.
          ebind (jvalue get_double (JObj kvs) ''tx_pps'' 0) (\<lambda>txPps.
          ebind (jvalue get_double (JObj kvs) ''tx_bps'' 0) (\<lambda>txBps.
          ebind (jvalue get_double (JObj kvs) ''rx_dps'' 0) (\<lambda>rxDps.
          ebind (jvalue get_double (JObj kvs) ''rx_bps'' 0) (\<lambda>rxBps.
          ebind (jvalue get_double (JObj kvs) ''rx_notif_ps'' 0) (\<lambda>rxNotifPs.
          let iv = mg_iv acc
          in Inr (acc\<lparr>mg_iv := iv\<lparr>iv_dtSec := fmax (iv_dtSec iv) dt,
                iv_txPps := fadd (iv_txPps iv) txPps, iv_txBps := fadd (iv_txBps iv) txBps,
                iv_rxDps := fadd (iv_rxDps iv) rxDps, iv_rxBps := fadd (iv_rxBps iv) rxBps,
                iv_rxNotifPs := fadd (iv_rxNotifPs iv) rxNotifPs\<rparr>\<rparr>)))))))
      | _ \<Rightarrow> Inr acc)"

definition agree :: "bool \<Rightarrow> string \<Rightarrow> string \<Rightarrow> string" where
  "agree first field value = (if first then value else if value \<noteq> field then ''mixed'' else field)"

definition merge_flags :: "json \<Rightarrow> Merge \<Rightarrow> json_error + Merge" where
  "merge_flags h acc =
     ebind (jvalue get_bool h ''busy'' False) (\<lambda>busy.
     ebind (jvalue get_string h ''replay_logging'' []) (\<lambda>replay.
     ebind (jvalue get_string h ''replay_logging_requested'' []) (\<lambda>requested.
     ebind (jvalue get_string h ''replay_logging_at_end'' []) (\<lambda>atEnd.
     let meta = mg_meta acc; first = mg_first acc
     in Inr (acc\<lparr>mg_meta := meta\<lparr>sm_busy := (if busy then True else sm_busy meta),
           sm_replayLogging := agree first (sm_replayLogging meta) replay,
           sm_replayLoggingRequested := agree first (sm_replayLoggingRequested meta) requested,
           sm_replayLoggingAtEnd := agree first (sm_replayLoggingAtEnd meta) atEnd\<rparr>,
         mg_first := False\<rparr>)))))"

text \<open>The body of the loop over hosts.\<close>

definition merge_host :: "Merge \<Rightarrow> json \<Rightarrow> json_error + Merge" where
  "merge_host acc h =
     ebind (jvalue Inr h ''lifetime'' (JObj [])) (\<lambda>life.
     ebind (read_snap life) (\<lambda>L.
     ebind (merge_window h acc) (\<lambda>(W, acc).
     ebind (merge_counters L W acc) (\<lambda>acc.
     ebind (merge_usage h acc) (\<lambda>acc.
     ebind (merge_gauges h acc) (\<lambda>acc.
     ebind (merge_interval h acc) (\<lambda>acc.
     merge_flags h acc)))))))"

fun merge_hosts :: "Merge \<Rightarrow> json list \<Rightarrow> json_error + Merge" where
  "merge_hosts acc [] = Inr acc"
| "merge_hosts acc (h # hs) = ebind (merge_host acc h) (\<lambda>acc. merge_hosts acc hs)"

definition mergeFleetStats :: "int \<Rightarrow> json list \<Rightarrow> json_error + json" where
  "mergeFleetStats sysNs hosts =
     ebind (merge_hosts Merge_init hosts) (\<lambda>acc.
     let meta = (mg_meta acc)\<lparr>sm_instanceId := ''fleet''\<rparr>;
         iv = (mg_iv acc)\<lparr>iv_epochSec := epoch_sec sysNs\<rparr>;
         out = buildStatsJson meta (mg_life acc) (mg_win acc) iv;
         out = jset ''hosts'' (JUInt (of_nat (length hosts))) out
     in Inr (if mg_disagree acc \<noteq> [] then jset ''warning'' (JStr (''hosts disagree on '' @ mg_disagree acc)) out
             else out))"

section \<open>Specification vocabulary\<close>

text \<open>
  A host as it is before its document is built, what makes it printable (array shapes and
  \<^verbatim>\<open>int\<close> ranges), and the fleet's figures as sums, extremes and quantifiers over the hosts.
\<close>

record Host =
  h_meta :: SnapshotMeta
  h_life :: CounterSnap
  h_win :: CounterSnap
  h_iv :: IntervalRates

definition host_json :: "Host \<Rightarrow> json" where
  "host_json h = buildStatsJson (h_meta h) (h_life h) (h_win h) (h_iv h)"

definition host_ok :: "Host \<Rightarrow> bool" where
  "host_ok h \<longleftrightarrow> snap_wf (h_life h) \<and> sign_in_int32 (h_life h) \<and> snap_wf (h_win h) \<and> sign_in_int32 (h_win h) \<and>
     is_int32 (sm_used (h_meta h)) \<and> is_int32 (sm_limit (h_meta h)) \<and>
     is_int32 (sm_activeClients (h_meta h)) \<and> is_int32 (sm_suspendedClients (h_meta h))"

definition merge_built :: "Merge \<Rightarrow> Host \<Rightarrow> Merge" where
  "merge_built acc h =
     (let m = h_meta h; a = mg_meta acc; i = h_iv h; v = mg_iv acc; first = mg_first acc in
      \<lparr>mg_life = (if first then h_life h else snap_sum (mg_life acc) (h_life h)),
       mg_win = (if first then h_win h else snap_sum (mg_win acc) (h_win h)),
       mg_iv = v\<lparr>iv_dtSec := fmax (iv_dtSec v) (iv_dtSec i),
                 iv_txPps := fadd (iv_txPps v) (iv_txPps i), iv_txBps := fadd (iv_txBps v) (iv_txBps i),
                 iv_rxDps := fadd (iv_rxDps v) (iv_rxDps i), iv_rxBps := fadd (iv_rxBps v) (iv_rxBps i),
                 iv_rxNotifPs := fadd (iv_rxNotifPs v) (iv_rxNotifPs i)\<rparr>,
       mg_meta = a\<lparr>sm_used := sm_used a + sm_used m, sm_limit := sm_limit a + sm_limit m,
                   sm_busy := (sm_busy m \<or> sm_busy a),
                   sm_rungId := (if first then sm_rungId m else sm_rungId a),
                   sm_windowOpenEpochSec := merge_open (sm_windowOpenEpochSec a) (sm_windowOpenEpochSec m),
                   sm_windowDurationSec := fmax (sm_windowDurationSec a) (sm_windowDurationSec m),
                   sm_activeClients := sm_activeClients a + sm_activeClients m,
                   sm_suspendedClients := sm_suspendedClients a + sm_suspendedClients m,
                   sm_replayLogging := agree first (sm_replayLogging a) (sm_replayLogging m),
                   sm_replayLoggingRequested :=
                     agree first (sm_replayLoggingRequested a) (sm_replayLoggingRequested m),
                   sm_replayLoggingAtEnd := agree first (sm_replayLoggingAtEnd a) (sm_replayLoggingAtEnd m)\<rparr>,
       mg_first = False,
       mg_disagree = (if \<not> first \<and> sm_rungId m \<noteq> sm_rungId a then ''rung_id'' else mg_disagree acc)\<rparr>)"

definition earliest_open :: "u64 list \<Rightarrow> u64" where
  "earliest_open opens =
     (let set_opens = filter (\<lambda>x. x \<noteq> 0) opens in if set_opens = [] then 0 else Min (set set_opens))"

definition longest :: "double list \<Rightarrow> double" where
  "longest ds = Max (set (0 # ds))"

definition fleet_window :: "Host list \<Rightarrow> json" where
  "fleet_window hs = JObj
     [(''id'', JStr (if hs = [] then [] else sm_rungId (h_meta (hd hs)))),
      (''open_epoch_sec'', JUInt (earliest_open (map (\<lambda>h. sm_windowOpenEpochSec (h_meta h)) hs))),
      (''duration_sec'', JFloat (longest (map (\<lambda>h. sm_windowDurationSec (h_meta h)) hs))),
      (''counters'', countersJson (foldl snap_sum CounterSnap_init (map h_win hs)))]"

text \<open>The figures summed in \<^verbatim>\<open>int\<close>, and that their running sums stay in it; where none is negative the totals decide.\<close>

definition int_figures :: "(Host \<Rightarrow> int) list" where
  "int_figures =
     [\<lambda>h. sm_used (h_meta h), \<lambda>h. sm_limit (h_meta h), \<lambda>h. sm_activeClients (h_meta h), \<lambda>h. sm_suspendedClients (h_meta h),
      \<lambda>h. cs_signInReused (h_life h), \<lambda>h. cs_signInMintedBefore (h_life h), \<lambda>h. cs_signInMintedDuring (h_life h),
      \<lambda>h. cs_signInReused (h_win h), \<lambda>h. cs_signInMintedBefore (h_win h), \<lambda>h. cs_signInMintedDuring (h_win h)]"

definition sums_fit :: "Host list \<Rightarrow> bool" where
  "sums_fit hs \<longleftrightarrow> list_all (\<lambda>f. is_int32 (sum_list (map f hs))) int_figures"

definition fleet_fits :: "Host list \<Rightarrow> bool" where
  "fleet_fits hs \<longleftrightarrow> (\<forall>k \<le> length hs. sums_fit (take k hs))"

definition no_negatives :: "Host list \<Rightarrow> bool" where
  "no_negatives hs \<longleftrightarrow> list_all (\<lambda>f. list_all (\<lambda>h. 0 \<le> f h) hs) int_figures"

definition fleet_entry :: "Host list \<Rightarrow> string \<Rightarrow> json option" where
  "fleet_entry hs k =
     (if k = ''hosts'' then Some (JUInt (of_nat (length hs)))
      else if k = ''lifetime'' then Some (countersJson (foldl snap_sum CounterSnap_init (map h_life hs)))
      else if k = ''used'' then Some (jint (sum_list (map (\<lambda>h. sm_used (h_meta h)) hs)))
      else if k = ''limit'' then Some (jint (sum_list (map (\<lambda>h. sm_limit (h_meta h)) hs)))
      else if k = ''gauges'' then Some (JObj
        [(''active'', jint (sum_list (map (\<lambda>h. sm_activeClients (h_meta h)) hs))),
         (''suspended'', jint (sum_list (map (\<lambda>h. sm_suspendedClients (h_meta h)) hs)))])
      else if k = ''busy'' then Some (JBool (list_ex (\<lambda>h. sm_busy (h_meta h)) hs))
      else None)"

section \<open>Documents that the program built\<close>

lemma jvalue_is: "map_of kvs k = Some v \<Longrightarrow> jvalue get (JObj kvs) k d = get v"
  by simp

lemma merge_window_built:
  assumes "host_ok h"
  shows "merge_window (host_json h) acc =
    Inr (h_win h, acc\<lparr>mg_meta := (mg_meta acc)\<lparr>
           sm_rungId := (if mg_first acc then sm_rungId (h_meta h) else sm_rungId (mg_meta acc)),
           sm_windowDurationSec := fmax (sm_windowDurationSec (mg_meta acc)) (sm_windowDurationSec (h_meta h)),
           sm_windowOpenEpochSec := merge_open (sm_windowOpenEpochSec (mg_meta acc)) (sm_windowOpenEpochSec (h_meta h))\<rparr>,
         mg_disagree := (if \<not> mg_first acc \<and> sm_rungId (h_meta h) \<noteq> sm_rungId (mg_meta acc)
                         then ''rung_id'' else mg_disagree acc)\<rparr>)"
  using assms read_snap_countersJson [of "h_win h"]
  by (simp add: merge_window_def host_json_def buildStatsJson_def host_ok_def Let_def)

lemma get_int_jint_ok: "is_int32 i \<Longrightarrow> get_int (jint i) = Inr i"
  by (simp add: is_int32_def get_int_jint)

lemma merge_usage_built:
  assumes "host_ok h"
  shows "merge_usage (host_json h) acc =
    ebind (add_int (sm_used (mg_meta acc)) (sm_used (h_meta h))) (\<lambda>used.
    ebind (add_int (sm_limit (mg_meta acc)) (sm_limit (h_meta h))) (\<lambda>limit.
    Inr (acc\<lparr>mg_meta := (mg_meta acc)\<lparr>sm_used := used, sm_limit := limit\<rparr>\<rparr>)))"
  using assms by (simp add: merge_usage_def host_json_def buildStatsJson_def host_ok_def get_int_jint_ok Let_def)

lemma merge_gauges_built:
  assumes "host_ok h"
  shows "merge_gauges (host_json h) acc =
    ebind (add_int (sm_activeClients (mg_meta acc)) (sm_activeClients (h_meta h))) (\<lambda>active.
    ebind (add_int (sm_suspendedClients (mg_meta acc)) (sm_suspendedClients (h_meta h))) (\<lambda>suspended.
    Inr (acc\<lparr>mg_meta := (mg_meta acc)\<lparr>sm_activeClients := active, sm_suspendedClients := suspended\<rparr>\<rparr>)))"
  using assms by (simp add: merge_gauges_def host_json_def buildStatsJson_def host_ok_def get_int_jint_ok Let_def)

text \<open>The sums of one host that fit.\<close>

definition tallies_fit :: "CounterSnap \<Rightarrow> CounterSnap \<Rightarrow> bool" where
  "tallies_fit a b \<longleftrightarrow> is_int32 (cs_signInReused a + cs_signInReused b) \<and>
     is_int32 (cs_signInMintedBefore a + cs_signInMintedBefore b) \<and> is_int32 (cs_signInMintedDuring a + cs_signInMintedDuring b)"

definition host_fits :: "Merge \<Rightarrow> Host \<Rightarrow> bool" where
  "host_fits acc h \<longleftrightarrow> (mg_first acc \<or> tallies_fit (mg_life acc) (h_life h) \<and> tallies_fit (mg_win acc) (h_win h)) \<and>
     is_int32 (sm_used (mg_meta acc) + sm_used (h_meta h)) \<and> is_int32 (sm_limit (mg_meta acc) + sm_limit (h_meta h)) \<and>
     is_int32 (sm_activeClients (mg_meta acc) + sm_activeClients (h_meta h)) \<and>
     is_int32 (sm_suspendedClients (mg_meta acc) + sm_suspendedClients (h_meta h))"

lemma snap_plus_tallies: "snap_plus a b = (if tallies_fit a b then Inr (snap_sum a b) else Inl NoMeaning)"
  by (simp add: snap_plus_fits tallies_fit_def)

lemma merge_host_built:
  assumes "host_ok h"
  shows "merge_host acc (host_json h) = (if host_fits acc h then Inr (merge_built acc h) else Inl NoMeaning)"
proof -
  have life: "jvalue Inr (host_json h) ''lifetime'' (JObj []) = (Inr (countersJson (h_life h)) :: json_error + json)"
    by (simp add: host_json_def buildStatsJson_def)
  have readback: "read_snap (countersJson (h_life h)) = Inr (h_life h)"
    using assms by (intro read_snap_countersJson) (simp_all add: host_ok_def)
  have iv: "merge_interval (host_json h) acc = Inr (acc\<lparr>mg_iv := (mg_iv acc)\<lparr>
        iv_dtSec := fmax (iv_dtSec (mg_iv acc)) (iv_dtSec (h_iv h)),
        iv_txPps := fadd (iv_txPps (mg_iv acc)) (iv_txPps (h_iv h)), iv_txBps := fadd (iv_txBps (mg_iv acc)) (iv_txBps (h_iv h)),
        iv_rxDps := fadd (iv_rxDps (mg_iv acc)) (iv_rxDps (h_iv h)), iv_rxBps := fadd (iv_rxBps (mg_iv acc)) (iv_rxBps (h_iv h)),
        iv_rxNotifPs := fadd (iv_rxNotifPs (mg_iv acc)) (iv_rxNotifPs (h_iv h))\<rparr>\<rparr>)" for acc
    by (simp add: merge_interval_def host_json_def buildStatsJson_def Let_def)
  have flags: "merge_flags (host_json h) acc = Inr (acc\<lparr>mg_meta := (mg_meta acc)\<lparr>
        sm_busy := (if sm_busy (h_meta h) then True else sm_busy (mg_meta acc)),
        sm_replayLogging := agree (mg_first acc) (sm_replayLogging (mg_meta acc)) (sm_replayLogging (h_meta h)),
        sm_replayLoggingRequested := agree (mg_first acc) (sm_replayLoggingRequested (mg_meta acc)) (sm_replayLoggingRequested (h_meta h)),
        sm_replayLoggingAtEnd := agree (mg_first acc) (sm_replayLoggingAtEnd (mg_meta acc)) (sm_replayLoggingAtEnd (h_meta h))\<rparr>,
        mg_first := False\<rparr>)" for acc
    by (simp add: merge_flags_def host_json_def buildStatsJson_def Let_def)
  show ?thesis
    unfolding merge_host_def life ebind.simps readback merge_window_built [OF assms] prod.case
      merge_usage_built [OF assms] merge_gauges_built [OF assms]
    by (cases "mg_first acc"; simp add: merge_counters_def snap_plus_tallies; simp add: add_int_def host_fits_def; simp add: iv flags merge_built_def Let_def)
qed

lemma merge_hosts_append:
  "merge_hosts acc (xs @ ys) = ebind (merge_hosts acc xs) (\<lambda>acc. merge_hosts acc ys)"
proof (induction xs arbitrary: acc)
  case (Cons x xs)
  then show ?case by (cases "merge_host acc x") simp_all
qed simp

section \<open>Fleet figures\<close>

lemma merge_open_min: "m \<noteq> 0 \<Longrightarrow> x \<noteq> 0 \<Longrightarrow> merge_open m x = min x m"
  by (auto simp: merge_open_def min_def)

lemma fmax_max: "fmax a x = max x a"
  by (auto simp: fmax_def max_def)

lemma earliest_open_snoc: "earliest_open (opens @ [x]) = merge_open (earliest_open opens) x"
proof -
  let ?s = "filter (\<lambda>x. x \<noteq> 0) opens"
  consider "x = 0" | "x \<noteq> 0" "?s = []" | "x \<noteq> 0" "?s \<noteq> []" by blast
  then show ?thesis
  proof cases
    case 1
    then show ?thesis by (simp add: earliest_open_def merge_open_def)
  next
    case 2
    then show ?thesis by (simp add: earliest_open_def merge_open_def del: set_filter)
  next
    case 3
    have "Min (set ?s) \<in> set ?s" using 3 by (intro Min_in) (simp_all del: set_filter)
    then have "Min (set ?s) \<noteq> 0" by simp
    moreover have "Min (insert x (set ?s)) = min x (Min (set ?s))"
      using 3 by (intro Min_insert) (simp_all del: set_filter)
    moreover have "earliest_open (opens @ [x]) = Min (insert x (set ?s))" "earliest_open opens = Min (set ?s)"
      using 3 by (simp_all add: earliest_open_def del: set_filter)
    ultimately show ?thesis using 3 by (simp only: merge_open_min simp_thms)
  qed
qed

lemma longest_snoc: "longest (ds @ [x]) = fmax (longest ds) x"
proof -
  have "Max (insert x (set (0 # ds))) = max x (Max (set (0 # ds)))"
    by (intro Max_insert) simp_all
  moreover have "longest (ds @ [x]) = Max (insert x (set (0 # ds)))"
    by (simp add: longest_def insert_commute)
  ultimately show ?thesis by (simp only: fmax_max longest_def)
qed

lemma merged_fields:
  assumes "list_all host_ok hs"
  shows "let acc = foldl merge_built Merge_init hs; sum = (\<lambda>f. sum_list (map (\<lambda>h. f (h_meta h)) hs)) in
     mg_life acc = foldl snap_sum CounterSnap_init (map h_life hs) \<and>
     mg_win acc = foldl snap_sum CounterSnap_init (map h_win hs) \<and>
     sm_used (mg_meta acc) = sum sm_used \<and> sm_limit (mg_meta acc) = sum sm_limit \<and>
     sm_activeClients (mg_meta acc) = sum sm_activeClients \<and>
     sm_suspendedClients (mg_meta acc) = sum sm_suspendedClients \<and>
     sm_busy (mg_meta acc) = list_ex (\<lambda>h. sm_busy (h_meta h)) hs \<and>
     sm_windowOpenEpochSec (mg_meta acc) = earliest_open (map (\<lambda>h. sm_windowOpenEpochSec (h_meta h)) hs) \<and>
     sm_windowDurationSec (mg_meta acc) = longest (map (\<lambda>h. sm_windowDurationSec (h_meta h)) hs) \<and>
     mg_first acc = (hs = []) \<and>
     sm_rungId (mg_meta acc) = (if hs = [] then [] else sm_rungId (h_meta (hd hs))) \<and>
     mg_disagree acc = (if list_ex (\<lambda>h. sm_rungId (h_meta h) \<noteq> sm_rungId (h_meta (hd hs))) hs then ''rung_id'' else [])"
  using assms
proof (induction hs rule: rev_induct)
  case Nil
  show ?case by (simp add: Merge_init_def SnapshotMeta_init_def earliest_open_def longest_def Let_def)
next
  case (snoc h hs)
  have wf: "snap_sum CounterSnap_init (h_life h) = h_life h" "snap_sum CounterSnap_init (h_win h) = h_win h"
    using snoc.prems by (simp_all add: host_ok_def snap_sum_init)
  show ?case
  proof (cases "hs = []")
    case True
    then show ?thesis using wf
      by (simp add: merge_built_def Let_def Merge_init_def SnapshotMeta_init_def merge_open_def earliest_open_def
          longest_def fmax_def max_def)
  next
    case False
    define acc where "acc = foldl merge_built Merge_init hs"
    have "list_all host_ok hs" using snoc.prems by simp
    note IH' = snoc.IH [OF this, unfolded Let_def, folded acc_def]
    have step: "foldl merge_built Merge_init (hs @ [h]) = merge_built acc h" by (simp add: acc_def)
    have first: "\<not> mg_first acc" and hd: "hd (hs @ [h]) = hd hs" using IH' False by simp_all
    show ?thesis unfolding step Let_def hd using IH' first False
      by (intro conjI) (simp_all add: merge_built_def Let_def earliest_open_snoc longest_snoc disj_commute)
  qed
qed

lemma sign_in_sums:
  "cs_signInReused (foldl snap_sum a xs) = cs_signInReused a + sum_list (map cs_signInReused xs)"
  "cs_signInMintedBefore (foldl snap_sum a xs) = cs_signInMintedBefore a + sum_list (map cs_signInMintedBefore xs)"
  "cs_signInMintedDuring (foldl snap_sum a xs) = cs_signInMintedDuring a + sum_list (map cs_signInMintedDuring xs)"
  by (induction xs arbitrary: a) (simp_all add: snap_sum_def)

lemma fleet_fits_snoc: "fleet_fits (hs @ [h]) \<longleftrightarrow> fleet_fits hs \<and> sums_fit (hs @ [h])"
  by (auto simp: fleet_fits_def le_Suc_eq)

lemma host_fits_sums:
  assumes "list_all host_ok (hs @ [h])"
  shows "host_fits (foldl merge_built Merge_init hs) h \<longleftrightarrow> sums_fit (hs @ [h])"
proof -
  have "list_all host_ok hs" using assms by simp
  note f = merged_fields [OF this, unfolded Let_def]
  have zero: "cs_signInReused CounterSnap_init = 0" "cs_signInMintedBefore CounterSnap_init = 0" "cs_signInMintedDuring CounterSnap_init = 0"
    by (simp_all add: CounterSnap_init_def)
  show ?thesis
  proof (cases "hs = []")
    case True
    then show ?thesis using assms f
      by (auto simp: host_fits_def sums_fit_def int_figures_def host_ok_def sign_in_int32_def Merge_init_def)
  next
    case False
    then show ?thesis using f
      by (simp add: host_fits_def sums_fit_def int_figures_def tallies_fit_def sign_in_sums zero o_def conj_commute conj_left_commute)
  qed
qed

lemma merge_hosts_built:
  assumes "list_all host_ok hs"
  shows "merge_hosts Merge_init (map host_json hs) =
    (if fleet_fits hs then Inr (foldl merge_built Merge_init hs) else Inl NoMeaning)"
  using assms
proof (induction hs rule: rev_induct)
  case Nil
  show ?case by (simp add: fleet_fits_def sums_fit_def int_figures_def is_int32_def)
next
  case (snoc h hs)
  then have IH: "merge_hosts Merge_init (map host_json hs) =
      (if fleet_fits hs then Inr (foldl merge_built Merge_init hs) else Inl NoMeaning)" and h: "host_ok h" by simp_all
  show ?case
    by (simp add: merge_hosts_append IH fleet_fits_snoc merge_host_built [OF h] host_fits_sums [OF snoc.prems])
qed

lemma running_sum_le:
  assumes "list_all (\<lambda>h. 0 \<le> f h) hs"
  shows "0 \<le> sum_list (map f (take k hs))" "sum_list (map f (take k hs)) \<le> sum_list (map f hs :: int list)"
proof -
  have p: "0 \<le> sum_list (map f xs)" if "set xs \<subseteq> set hs" for xs
    using assms that by (intro sum_list_nonneg) (auto simp: list_all_iff)
  have "map f hs = map f (take k hs) @ map f (drop k hs)" by (metis append_take_drop_id map_append)
  then have "sum_list (map f hs) = sum_list (map f (take k hs)) + sum_list (map f (drop k hs))" by simp
  then show "0 \<le> sum_list (map f (take k hs))" "sum_list (map f (take k hs)) \<le> sum_list (map f hs)"
    using p [of "take k hs"] p [of "drop k hs"] by (simp_all add: set_take_subset set_drop_subset)
qed

lemma fits_total:
  assumes "no_negatives hs"
  shows "fleet_fits hs \<longleftrightarrow> sums_fit hs"
proof
  show "fleet_fits hs \<Longrightarrow> sums_fit hs" by (simp add: fleet_fits_def) (metis order_refl take_all_iff)
  assume "sums_fit hs"
  then have "sums_fit (take k hs)" for k
    using assms running_sum_le [of _ hs k]
    by (auto simp: sums_fit_def no_negatives_def list_all_iff is_int32_def) (meson order_trans order_le_less_trans neg_le_0_iff_le zero_le_numeral)+
  then show "fleet_fits hs" by (simp add: fleet_fits_def)
qed

lemma map_of_filter_other: "map_of (filter (\<lambda>kv. fst kv \<noteq> k) kvs) k' = (if k' = k then None else map_of kvs k')"
  by (induction kvs) auto

lemma jlookup_jset: "is_object j \<Longrightarrow> jlookup (jset k v j) k' = (if k' = k then Some v else jlookup j k')"
  by (cases j) (simp_all add: jset_def map_of_filter_other)

lemma is_object_jset [simp]: "is_object (jset k v j) = is_object j"
  by (cases j) (simp_all add: jset_def)

lemma is_object_buildStatsJson [simp]: "is_object (buildStatsJson m l w i)"
  by (simp add: buildStatsJson_def)

lemma merged_document:
  assumes "list_all host_ok hs" "fleet_fits hs"
  shows "\<exists>out. mergeFleetStats sysNs (map host_json hs) = Inr out \<and>
     jlookup out ''hosts'' = Some (JUInt (of_nat (length hs))) \<and>
     jlookup out ''lifetime'' = Some (countersJson (foldl snap_sum CounterSnap_init (map h_life hs))) \<and>
     jlookup out ''window'' = Some (fleet_window hs) \<and>
     jlookup out ''used'' = Some (jint (sum_list (map (\<lambda>h. sm_used (h_meta h)) hs))) \<and>
     jlookup out ''limit'' = Some (jint (sum_list (map (\<lambda>h. sm_limit (h_meta h)) hs))) \<and>
     jlookup out ''gauges'' = Some (JObj
       [(''active'', jint (sum_list (map (\<lambda>h. sm_activeClients (h_meta h)) hs))),
        (''suspended'', jint (sum_list (map (\<lambda>h. sm_suspendedClients (h_meta h)) hs)))]) \<and>
     jlookup out ''busy'' = Some (JBool (list_ex (\<lambda>h. sm_busy (h_meta h)) hs)) \<and>
     jlookup out ''warning'' =
       (if list_ex (\<lambda>h. sm_rungId (h_meta h) \<noteq> sm_rungId (h_meta (hd hs))) hs
        then Some (JStr ''hosts disagree on rung_id'') else None)"
proof -
  let ?acc = "foldl merge_built Merge_init hs"
  let ?doc = "buildStatsJson ((mg_meta ?acc)\<lparr>sm_instanceId := ''fleet''\<rparr>) (mg_life ?acc) (mg_win ?acc)
     ((mg_iv ?acc)\<lparr>iv_epochSec := epoch_sec sysNs\<rparr>)"
  let ?out = "jset ''hosts'' (JUInt (of_nat (length hs))) ?doc"
  have run: "mergeFleetStats sysNs (map host_json hs) =
      Inr (if mg_disagree ?acc \<noteq> [] then jset ''warning'' (JStr (''hosts disagree on '' @ mg_disagree ?acc)) ?out else ?out)"
    using assms by (simp add: mergeFleetStats_def merge_hosts_built Let_def)
  note f = merged_fields [OF assms(1), unfolded Let_def]
  show ?thesis
    unfolding run using f
    by (simp add: jlookup_jset buildStatsJson_def [of "_\<lparr>sm_instanceId := _\<rparr>"] fleet_window_def)
qed

lemma merge_overflow: "list_all host_ok hs \<Longrightarrow> \<not> fleet_fits hs \<Longrightarrow> mergeFleetStats sysNs (map host_json hs) = Inl NoMeaning"
  by (simp add: mergeFleetStats_def merge_hosts_built)

lemma earliest_open_set: "set xs = set ys \<Longrightarrow> earliest_open xs = earliest_open ys"
  by (simp add: earliest_open_def filter_empty_conv)

lemma longest_set: "set xs = set ys \<Longrightarrow> longest xs = longest ys"
  by (simp add: longest_def)

lemma sum_list_mset: "mset xs = mset ys \<Longrightarrow> sum_list xs = sum_list (ys :: int list)"
  by (metis sum_mset_sum_list)

lemma fleet_figures_order:
  assumes "mset hs = mset hs'"
  shows "length hs = length hs'" "set hs = set hs'"
    "sum_list (map f hs) = sum_list (map f hs' :: int list)"
    "list_ex P hs = list_ex P hs'"
    "foldl snap_sum CounterSnap_init (map g hs) = foldl snap_sum CounterSnap_init (map g hs')"
    "earliest_open (map o1 hs) = earliest_open (map o1 hs')"
    "longest (map d hs) = longest (map d hs')"
proof -
  show "length hs = length hs'" "set hs = set hs'"
    using assms by (auto dest: mset_eq_length mset_eq_setD)
  then show "list_ex P hs = list_ex P hs'" "earliest_open (map o1 hs) = earliest_open (map o1 hs')"
    "longest (map d hs) = longest (map d hs')"
    by (auto simp: list_ex_iff intro: earliest_open_set longest_set)
  show "sum_list (map f hs) = sum_list (map f hs' :: int list)"
    using assms by (intro sum_list_mset) simp
  show "foldl snap_sum CounterSnap_init (map g hs) = foldl snap_sum CounterSnap_init (map g hs')"
    using assms by (intro snap.fold_order) simp
qed

lemma merge_host_non_object: "\<not> is_object h \<Longrightarrow> merge_host acc h = Inl (TypeError 306)"
  by (cases h) (simp_all add: merge_host_def jvalue_def)

lemma merge_hosts_non_object:
  "list_ex (\<lambda>h. \<not> is_object h) hs \<Longrightarrow> \<exists>e. merge_hosts acc hs = Inl e"
proof (induction hs arbitrary: acc)
  case Nil
  then show ?case by simp
next
  case (Cons h hs)
  then show ?case
    by (cases "merge_host acc h"; cases "is_object h") (auto simp: merge_host_non_object)
qed

section \<open>Documents that were printed and read back\<close>

lemma jvalue_any_object:
  "jvalue Inr (JObj (sort_key fst (map (map_prod id canon) kvs))) k (JObj []) = map_sum id canon (jvalue Inr (JObj kvs) k (JObj []))"
  using jvalue_any_canon [of "JObj []" "JObj kvs" k] by simp

lemma ebind_map_sum: "ebind (map_sum id f x) g = ebind x (\<lambda>y. g (f y))"
  by (cases x) simp_all

lemmas jvalue_get_canon = jvalue_canon [of get_string, OF get_canon(4)] jvalue_canon [of get_int, OF get_canon(1)]
  jvalue_canon [of get_u64, OF get_canon(2)] jvalue_canon [of get_double, OF get_canon(3)] jvalue_canon [of get_bool, OF get_canon(5)]

lemmas jvalue_get_object = jvalue_get_canon [of "JObj kvs" for kvs, unfolded canon.simps]

lemma merge_parts_canon:
  "merge_window (canon j) acc = merge_window j acc" "merge_usage (canon j) acc = merge_usage j acc"
  "merge_gauges (canon j) acc = merge_gauges j acc" "merge_interval (canon j) acc = merge_interval j acc"
  "merge_flags (canon j) acc = merge_flags j acc"
proof -
  show "merge_window (canon j) acc = merge_window j acc"
  proof (cases "jlookup j ''window''")
    case (Some v)
    then show ?thesis
      by (cases v) (simp_all only: merge_window_def jlookup_canon option.map option.case json.case canon.simps jvalue_any_object
          ebind_map_sum read_snap_canon jvalue_get_object jvalue_get_canon simp_thms split: if_split)
  qed (simp add: merge_window_def)
  show "merge_gauges (canon j) acc = merge_gauges j acc"
    by (cases "jlookup j ''gauges''") (simp_all add: merge_gauges_def jvalue_get_canon)
  show "merge_interval (canon j) acc = merge_interval j acc"
  proof (cases "jlookup j ''interval''")
    case (Some v)
    then show ?thesis
      by (cases v) (simp_all only: merge_interval_def jlookup_canon option.map option.case json.case canon.simps
          jvalue_get_object simp_thms split: if_split)
  qed (simp add: merge_interval_def)
qed (simp_all add: merge_usage_def merge_flags_def jvalue_get_canon)

lemma merge_host_canon: "merge_host acc (canon j) = merge_host acc j"
  by (simp add: merge_host_def merge_parts_canon jvalue_any_canon ebind_map_sum)

section \<open>Properties\<close>

text \<open>
  C10. Merging the documents of any well-formed hosts: where the running totals of the budgets, the
  gauges and the sign-in tallies stay \<^verbatim>\<open>int\<close>s, it succeeds and the fleet's document carries
  exactly the sums of counters, histograms, error codes, budgets and gauges, the host count,
  whether any host is busy, a window from the earliest nonzero opening with the longest
  duration, and a warning just when a host names another rung than the first one. Where a running
  total leaves \<^verbatim>\<open>int\<close>, the merge has no meaning; if no figure is negative that is decided by the
  totals alone.
\<close>

theorem fleet_totals:
  assumes "list_all host_ok hs"
  shows "(fleet_fits hs \<longrightarrow> (\<exists>out. mergeFleetStats sysNs (map host_json hs) = Inr out \<and>
       jlookup out ''hosts'' = Some (JUInt (of_nat (length hs))) \<and>
       jlookup out ''lifetime'' = Some (countersJson (foldl snap_sum CounterSnap_init (map h_life hs))) \<and>
       jlookup out ''window'' = Some (fleet_window hs) \<and>
       jlookup out ''used'' = Some (jint (sum_list (map (\<lambda>h. sm_used (h_meta h)) hs))) \<and>
       jlookup out ''limit'' = Some (jint (sum_list (map (\<lambda>h. sm_limit (h_meta h)) hs))) \<and>
       jlookup out ''gauges'' = Some (JObj
         [(''active'', jint (sum_list (map (\<lambda>h. sm_activeClients (h_meta h)) hs))),
          (''suspended'', jint (sum_list (map (\<lambda>h. sm_suspendedClients (h_meta h)) hs)))]) \<and>
       jlookup out ''busy'' = Some (JBool (list_ex (\<lambda>h. sm_busy (h_meta h)) hs)) \<and>
       jlookup out ''warning'' =
         (if list_ex (\<lambda>h. sm_rungId (h_meta h) \<noteq> sm_rungId (h_meta (hd hs))) hs
          then Some (JStr ''hosts disagree on rung_id'') else None))) \<and>
     (\<not> fleet_fits hs \<longrightarrow> mergeFleetStats sysNs (map host_json hs) = Inl NoMeaning) \<and>
     (no_negatives hs \<longrightarrow> fleet_fits hs = sums_fit hs)"
  using merged_document [OF assms] merge_overflow [OF assms] fits_total by blast

definition two_hosts :: "Host list" where
  "two_hosts =
     [\<lparr>h_meta = SnapshotMeta_init\<lparr>sm_used := 2, sm_rungId := ''a'', sm_windowOpenEpochSec := 9\<rparr>,
       h_life = four_samples, h_win = CounterSnap_init, h_iv = IntervalRates_init\<rparr>,
      \<lparr>h_meta = SnapshotMeta_init\<lparr>sm_used := 3, sm_rungId := ''b'', sm_windowOpenEpochSec := 7\<rparr>,
       h_life = CounterSnap_init, h_win = CounterSnap_init, h_iv = IntervalRates_init\<rparr>]"

lemma two_hosts_ok: "list_all host_ok two_hosts"
  by (simp add: two_hosts_def host_ok_def four_samples_def snap_wf_def sign_in_int32_def is_int32_def
      CounterSnap_init_def SnapshotMeta_init_def LATENCY_BUCKETS_def)

lemma two_hosts_fit: "fleet_fits two_hosts" "fleet_fits (rev two_hosts)"
proof -
  have "fleet_fits [a, b] \<longleftrightarrow> sums_fit [] \<and> sums_fit [a] \<and> sums_fit [a, b]" for a b
    using fleet_fits_snoc [of "[a]" b] fleet_fits_snoc [of "[]" a] by (simp add: fleet_fits_def)
  then show "fleet_fits two_hosts" "fleet_fits (rev two_hosts)"
    by (simp_all add: two_hosts_def sums_fit_def int_figures_def is_int32_def SnapshotMeta_init_def CounterSnap_init_def four_samples_def)
qed

theorem fleet_totals_witness:
  "\<exists>out. mergeFleetStats 0 (map host_json two_hosts) = Inr out \<and>
     jlookup out ''used'' = Some (jint 5) \<and>
     jlookup out ''warning'' = Some (JStr ''hosts disagree on rung_id'')"
  using fleet_totals [OF two_hosts_ok, of 0] two_hosts_fit(1) by (simp add: two_hosts_def) blast

text \<open>
  C38. The order in which hosts are merged does not matter for the counters, budgets, gauges, the
  host count, the busy flag, and the window's opening, duration and counters: where the running
  totals stay \<^verbatim>\<open>int\<close>s in both orders, the two documents agree on them; and if no figure is
  negative, as in every document a generator builds, one order overflows just when the other does.
\<close>

theorem fleet_order:
  assumes "list_all host_ok hs" "mset hs = mset hs'"
  shows "(fleet_fits hs \<and> fleet_fits hs' \<longrightarrow> (\<exists>out out' w w'.
       mergeFleetStats sysNs (map host_json hs) = Inr out \<and> mergeFleetStats sysNs (map host_json hs') = Inr out' \<and>
       (\<forall>k \<in> {''hosts'', ''lifetime'', ''used'', ''limit'', ''gauges'', ''busy''}. jlookup out k = jlookup out' k) \<and>
       jlookup out ''window'' = Some w \<and> jlookup out' ''window'' = Some w' \<and>
       (\<forall>k \<in> {''open_epoch_sec'', ''duration_sec'', ''counters''}. jlookup w k = jlookup w' k))) \<and>
     (no_negatives hs \<longrightarrow> fleet_fits hs = fleet_fits hs')"
proof (intro conjI impI)
  note fig = fleet_figures_order [OF assms(2)]
  have ok': "list_all host_ok hs'" using assms(1) fig(2) by (simp add: list_all_iff)
  show "fleet_fits hs = fleet_fits hs'" if "no_negatives hs"
  proof -
    have "no_negatives hs'" using that fig(2) by (simp add: no_negatives_def list_all_iff)
    moreover have "sums_fit hs = sums_fit hs'" by (simp add: sums_fit_def fig(3) cong: list.pred_cong)
    ultimately show ?thesis using that by (simp add: fits_total)
  qed
  assume fit: "fleet_fits hs \<and> fleet_fits hs'"
  note docs = merged_document [OF assms(1) conjunct1 [OF fit], of sysNs] merged_document [OF ok' conjunct2 [OF fit], of sysNs]
  obtain out where out: "mergeFleetStats sysNs (map host_json hs) = Inr out"
     "\<forall>k \<in> {''hosts'', ''lifetime'', ''used'', ''limit'', ''gauges'', ''busy''}. jlookup out k = fleet_entry hs k"
     "jlookup out ''window'' = Some (fleet_window hs)"
    using docs(1) by (auto simp: fleet_entry_def)
  obtain out' where out': "mergeFleetStats sysNs (map host_json hs') = Inr out'"
     "\<forall>k \<in> {''hosts'', ''lifetime'', ''used'', ''limit'', ''gauges'', ''busy''}. jlookup out' k = fleet_entry hs' k"
     "jlookup out' ''window'' = Some (fleet_window hs')"
    using docs(2) by (auto simp: fleet_entry_def)
  have "fleet_entry hs = fleet_entry hs'" by (rule ext) (simp add: fleet_entry_def fig)
  moreover have "\<forall>k \<in> {''open_epoch_sec'', ''duration_sec'', ''counters''}.
      jlookup (fleet_window hs) k = jlookup (fleet_window hs') k"
    by (simp add: fleet_window_def fig)
  ultimately show "\<exists>out out' w w'.
       mergeFleetStats sysNs (map host_json hs) = Inr out \<and> mergeFleetStats sysNs (map host_json hs') = Inr out' \<and>
       (\<forall>k \<in> {''hosts'', ''lifetime'', ''used'', ''limit'', ''gauges'', ''busy''}. jlookup out k = jlookup out' k) \<and>
       jlookup out ''window'' = Some w \<and> jlookup out' ''window'' = Some w' \<and>
       (\<forall>k \<in> {''open_epoch_sec'', ''duration_sec'', ''counters''}. jlookup w k = jlookup w' k)"
    using out out' by auto
qed

theorem fleet_order_witness:
  "\<exists>out out' w w'.
     mergeFleetStats 0 (map host_json two_hosts) = Inr out \<and>
     mergeFleetStats 0 (map host_json (rev two_hosts)) = Inr out' \<and>
     jlookup out ''lifetime'' = jlookup out' ''lifetime'' \<and>
     jlookup out ''window'' = Some w \<and> jlookup out' ''window'' = Some w' \<and>
     jlookup w ''open_epoch_sec'' = jlookup w' ''open_epoch_sec''"
  using fleet_order [OF two_hosts_ok, of "rev two_hosts" 0] two_hosts_fit by simp blast

text \<open>
  A host document that is not a JSON object makes the whole merge fail, wherever it stands
  in the list; it is never counted as an empty host.
\<close>

theorem fleet_rejects_non_objects:
  assumes "list_ex (\<lambda>h. \<not> is_object h) hosts"
  shows "\<exists>e. mergeFleetStats sysNs hosts = Inl e"
  using merge_hosts_non_object [OF assms, of Merge_init] by (auto simp: mergeFleetStats_def)

theorem fleet_rejects_non_objects_witness: "\<exists>e. mergeFleetStats 0 [host_json (hd two_hosts), JNull] = Inl e"
  by (rule fleet_rejects_non_objects) simp

end
