(* ===== verification/Harness.thy ===== *)
theory Harness
  imports Population Provisioner Fleet
begin

text \<open>
  The generator (\<^verbatim>\<open>src/Harness.hpp\<close>, \<^verbatim>\<open>src/Harness.cpp\<close>): workers, the control thread, hot
  adds, rungs and the end of a run. Workers share the statistics and the control queue, which
  the state holds once; \<open>worker_of\<close> hands them to a worker and \<open>put_worker\<close> takes them back.
  Threads are interleaved by \<open>harness_step\<close>, one operation on shared state per step.

  Clock readings are arguments. Files are the list of documents written, in order. Where the
  language gives no meaning to what follows (signed overflow, a missing key of a constant
  object) an operation is \<open>None\<close>. Log output is not modelled.
\<close>

section \<open>State\<close>

text \<open>The add thread: provisioning a range, then queueing its clients onto workers one by one.\<close>

datatype AddThread =
    NoAdd
  | Starting int int
  | Provisioning int int Range
  | Queueing int int "ClientCredentials list" nat

record Harness =
  hn_stats :: Stats
  hn_provisioner :: "Provisioner option"
  hn_controlQueue :: ControlQueue
  hn_workers :: "Worker list"
  hn_running :: bool
  hn_control :: "ControlRequest option"
  hn_adding :: AddThread
  hn_replayLoggingObserved :: string
  hn_replayLoggingAtEnd :: string
  hn_lastRungId :: string
  hn_lastRungBody :: json
  hn_used :: int
  hn_busy :: bool
  hn_addError :: string
  hn_shutdown :: bool
  hn_started :: bool
  hn_endObserved :: bool
  hn_externalStop :: bool
  hn_files :: "(string \<times> json) list"

definition new_harness :: Harness where
  "new_harness = \<lparr>hn_stats = Stats_init, hn_provisioner = None, hn_controlQueue = \<lparr>cq_queue = [], cq_shutdown = False\<rparr>,
     hn_workers = [], hn_running = False, hn_control = None, hn_adding = NoAdd, hn_replayLoggingObserved = ''unknown'',
     hn_replayLoggingAtEnd = [], hn_lastRungId = [], hn_lastRungBody = JNull, hn_used = 0, hn_busy = False,
     hn_addError = [], hn_shutdown = False, hn_started = False, hn_endObserved = False, hn_externalStop = False,
     hn_files = []\<rparr>"

definition on_hstats :: "(Stats \<Rightarrow> Stats) \<Rightarrow> Harness \<Rightarrow> Harness" where
  "on_hstats f h = h\<lparr>hn_stats := f (hn_stats h)\<rparr>"

definition worker_of :: "nat \<Rightarrow> Harness \<Rightarrow> Worker" where
  "worker_of i h = (hn_workers h ! i)\<lparr>wk_stats := hn_stats h, wk_control := hn_controlQueue h\<rparr>"

definition put_worker :: "nat \<Rightarrow> Worker \<Rightarrow> Harness \<Rightarrow> Harness" where
  "put_worker i w h = h\<lparr>hn_workers := (hn_workers h)[i := w], hn_stats := wk_stats w, hn_controlQueue := wk_control w\<rparr>"

section \<open>The control thread\<close>

text \<open>
  Placement: at most fifteen attempts, fewer once the queue is shut down; \<open>down n\<close> is what
  \<^verbatim>\<open>isShutdown\<close> reads after the \<open>n\<close>-th failure. The pauses are not modelled.
\<close>

function assign_attempts :: "Config \<Rightarrow> (nat \<Rightarrow> bool) \<Rightarrow> nat \<Rightarrow> ClientCredentials \<Rightarrow> (Provisioner, ClientCredentials) io" where
  "assign_attempts cfg down attempt c p =
     (case assignServer cfg c p of
        (Inr c', p') \<Rightarrow> (Inr c', p')
      | (Inl e, p') \<Rightarrow>
          if e = Undefined \<or> attempt \<ge> 15 \<or> down attempt then (Inl e, p')
          else assign_attempts cfg down (attempt + 1) c p')"
  by pat_completeness auto
termination
  by (relation "measure (\<lambda>(cfg, down, attempt, c, p). 15 - attempt)") auto

declare assign_attempts.simps [simp del]

text \<open>A refresh goes where the client plays.\<close>

definition refresh_url :: "Config \<Rightarrow> ClientCredentials \<Rightarrow> string" where
  "refresh_url cfg c =
     (if cr_gameApiUrl c \<noteq> [] \<and> cr_gameApiUrl c \<noteq> cf_managementApiUrl cfg then cr_gameApiUrl c
      else cf_managementApiUrl cfg)"

definition control_refresh ::
  "Config \<Rightarrow> ClientCredentials \<Rightarrow> Stats \<Rightarrow> Provisioner \<Rightarrow> (Exn + bool \<times> ClientCredentials) \<times> Stats \<times> Provisioner" where
  "control_refresh cfg c st p =
     (case refreshToken cfg (refresh_url cfg c) c p of
        (Inl e, p) \<Rightarrow> (Inl e, st, p)
      | (Inr (keptServer, c), p) \<Rightarrow>
          let st = st\<lparr>st_tokenRefreshes := st_tokenRefreshes st + 1\<rparr>;
              st = (if keptServer then st\<lparr>st_refreshesKeptServer := st_refreshesKeptServer st + 1\<rparr> else st)
          in (Inr (keptServer, c), st, p))"

definition control_place ::
  "Config \<Rightarrow> (nat \<Rightarrow> bool) \<Rightarrow> Kind \<Rightarrow> bool \<Rightarrow> ClientCredentials \<Rightarrow> Stats \<Rightarrow> Provisioner \<Rightarrow>
     (Exn + ClientCredentials) \<times> Stats \<times> Provisioner" where
  "control_place cfg down kind keptServer c st p =
     (case (if keptServer then (Inr c, p) else assign_attempts cfg down 1 c p) of
        (Inl e, p) \<Rightarrow> (Inl e, st, p)
      | (Inr c', p) \<Rightarrow>
          let moved = (cr_serverIp4 c' \<noteq> cr_serverIp4 c \<or> cr_serverPort c' \<noteq> cr_serverPort c)
          in (Inr c', if kind \<noteq> REFRESH \<or> moved then st\<lparr>st_reassignments := st_reassignments st + 1\<rparr> else st, p))"

definition control_work ::
  "Config \<Rightarrow> (nat \<Rightarrow> bool) \<Rightarrow> Kind \<Rightarrow> ClientCredentials \<Rightarrow> Stats \<Rightarrow> Provisioner \<Rightarrow>
     (Exn + ClientCredentials) \<times> Stats \<times> Provisioner" where
  "control_work cfg down kind c st p =
     (case (if kind = REFRESH then control_refresh cfg c st p else (Inr (False, c), st, p)) of
        (Inl e, st, p) \<Rightarrow> (Inl e, st, p)
      | (Inr (keptServer, c), st, p) \<Rightarrow> control_place cfg down kind keptServer c st p)"

text \<open>The update a request leads to. Of a failed one nobody reads the credentials.\<close>

definition control_answer ::
  "Config \<Rightarrow> (nat \<Rightarrow> bool) \<Rightarrow> ControlRequest \<Rightarrow> Stats \<Rightarrow> Provisioner \<Rightarrow> (ClientUpdate \<times> Stats \<times> Provisioner) option" where
  "control_answer cfg down req st p =
     (let update = \<lparr>cu_clientIndex = rq_clientIndex req, cu_failed = False, cu_creds = rq_creds req\<rparr>
      in case control_work cfg down (rq_kind req) (rq_creds req) st p of
           (Inl Undefined, st, p) \<Rightarrow> None
         | (Inl e, st, p) \<Rightarrow> Some (update\<lparr>cu_failed := True\<rparr>, st\<lparr>st_controlFailures := st_controlFailures st + 1\<rparr>, p)
         | (Inr c, st, p) \<Rightarrow> Some (update\<lparr>cu_creds := c\<rparr>, st, p))"

definition control_take :: "Harness \<Rightarrow> Harness option" where
  "control_take h =
     (case queue_pop (hn_controlQueue h) of
        Popped req q \<Rightarrow> Some (h\<lparr>hn_control := Some req, hn_controlQueue := q\<rparr>)
      | _ \<Rightarrow> None)"

definition control_post :: "Config \<Rightarrow> (nat \<Rightarrow> bool) \<Rightarrow> ControlRequest \<Rightarrow> Provisioner \<Rightarrow> Harness \<Rightarrow> Harness option" where
  "control_post cfg down req p h =
     (case control_answer cfg down req (hn_stats h) p of
        None \<Rightarrow> None
      | Some (update, st, p) \<Rightarrow>
          let i = nat (rq_workerIndex req);
              h = h\<lparr>hn_stats := st, hn_provisioner := Some p, hn_control := None\<rparr>
          in Some (put_worker i (postUpdate update (worker_of i h)) h))"

section \<open>Starting\<close>

definition syncSignIn :: "Harness \<Rightarrow> Harness" where
  "syncSignIn h =
     (case hn_provisioner h of
        None \<Rightarrow> h
      | Some p \<Rightarrow> on_hstats (setSignIn (pv_reused p) (pv_mintedProvisioning p) (pv_mintedMidRun p)) h)"

text \<open>\<^verbatim>\<open>a % b\<close>, which takes the sign of \<open>a\<close>.\<close>

definition c_mod :: "int \<Rightarrow> int \<Rightarrow> int" where
  "c_mod a b = (if a < 0 then - (- a mod \<bar>b\<bar>) else a mod \<bar>b\<bar>)"

definition worker_index :: "Config \<Rightarrow> ClientCredentials \<Rightarrow> nat" where
  "worker_index cfg c =
     (let workerIdx = c_mod (cr_index c) (cf_threads cfg) in if workerIdx < 0 then 0 else nat workerIdx)"

definition distribute_one :: "Config \<Rightarrow> int \<Rightarrow> nat \<Rightarrow> ClientCredentials \<Rightarrow> Harness \<Rightarrow> Harness" where
  "distribute_one cfg rampStart i c h =
     (let batch = int i div cf_rampBatchSize cfg;
          activateAt = rampStart + batch * cf_rampIntervalMs cfg * 1000000;
          w = worker_index cfg c
      in put_worker w (addClient c activateAt (worker_of w h)) h)"

definition distribute :: "Config \<Rightarrow> int \<Rightarrow> ClientCredentials list \<Rightarrow> Harness \<Rightarrow> Harness" where
  "distribute cfg rampStart creds = fold (\<lambda>(i, c). distribute_one cfg rampStart i c) (enumerate 0 creds)"

definition observeReplayLogging :: "Config \<Rightarrow> Provisioner \<Rightarrow> (string \<times> Provisioner) option" where
  "observeReplayLogging cfg p =
     (case readReplayLogging cfg p of (Inl e, p) \<Rightarrow> None | (Inr on, p) \<Rightarrow> Some (replayLoggingLabel on, p))"

text \<open>\<open>start_setup\<close>: up to the workers' construction; the flag is what \<^verbatim>\<open>start\<close> returns where it is false.\<close>

definition start_replay :: "Config \<Rightarrow> Provisioner \<Rightarrow> (Exn + unit) \<times> Provisioner" where
  "start_replay cfg p =
     (if cf_replayLogging cfg \<noteq> ''leave'' then setReplayLogging cfg (cf_replayLogging cfg = ''on'') p else (Inr (), p))"

definition start_setup :: "Config \<Rightarrow> RosterFile \<Rightarrow> World \<Rightarrow> bool \<Rightarrow> Harness \<Rightarrow> (bool \<times> Harness) option" where
  "start_setup cfg file w stop h =
     (let h = h\<lparr>hn_externalStop := stop\<rparr>
      in case new_provisioner cfg file w of
           Inl Undefined \<Rightarrow> None
         | Inl e \<Rightarrow> Some (False, h)
         | Inr p \<Rightarrow>
             (case start_replay cfg p of
                (Inl Undefined, p) \<Rightarrow> None
              | (Inl e, p) \<Rightarrow> Some (False, h\<lparr>hn_provisioner := Some p\<rparr>)
              | (Inr _, p) \<Rightarrow>
                  (case observeReplayLogging cfg p of
                     None \<Rightarrow> None
                   | Some (observed, p) \<Rightarrow>
                       Some (True, h\<lparr>hn_provisioner := Some p, hn_replayLoggingObserved := observed,
                         hn_workers := map (\<lambda>w. new_worker w (hn_stats h) (hn_controlQueue h)) [0..cf_threads cfg - 1]\<rparr>))))"

definition start_mark :: "Harness \<Rightarrow> Harness" where
  "start_mark h = h\<lparr>hn_provisioner := map_option markRunStarted (hn_provisioner h)\<rparr>"

definition start_population :: "Config \<Rightarrow> int \<Rightarrow> ClientCredentials list \<Rightarrow> Harness \<Rightarrow> Harness" where
  "start_population cfg rampStart creds h =
     distribute cfg rampStart creds (start_mark (h\<lparr>hn_used := int (length creds)\<rparr>))"

definition start_finish :: "int \<Rightarrow> int \<Rightarrow> Harness \<Rightarrow> Harness" where
  "start_finish sysNs steadyNs h =
     (on_hstats (markWindow sysNs steadyNs []) (syncSignIn h))\<lparr>hn_running := True, hn_started := True\<rparr>"

text \<open>
  \<open>provisions\<close>: what \<^verbatim>\<open>provisionRange\<close> may return, with the provisioner and the stop flag it
  leaves.
\<close>

inductive provisions :: "Config \<Rightarrow> int \<Rightarrow> int \<Rightarrow> bool \<Rightarrow> Provisioner \<Rightarrow> ClientCredentials list \<Rightarrow> bool \<Rightarrow> Provisioner \<Rightarrow> bool"
  for cfg globalStart n stop p where
  refused: "range_refused cfg globalStart n p \<Longrightarrow> provisions cfg globalStart n stop p [] stop p"
| joined: "\<not> range_refused cfg globalStart n p \<Longrightarrow>
     (range_step cfg globalStart n)\<^sup>*\<^sup>* (range_start cfg n stop p) r \<Longrightarrow> joined r \<Longrightarrow>
     provisions cfg globalStart n stop p (range_result r) (rg_stop r) (rg_prov r)"

inductive harness_start :: "Config \<Rightarrow> Harness \<Rightarrow> bool \<Rightarrow> Harness \<Rightarrow> bool" for cfg where
  setup_fails: "start_setup cfg file w stop h = Some (False, h') \<Longrightarrow> harness_start cfg h False h'"
| no_clients: "start_setup cfg file w stop h = Some (True, h') \<Longrightarrow> cf_clients cfg \<le> 0 \<Longrightarrow>
     harness_start cfg h True (start_finish sysNs steadyNs (start_mark h'))"
| none_provisioned: "start_setup cfg file w stop h = Some (True, h') \<Longrightarrow> cf_clients cfg > 0 \<Longrightarrow>
     hn_provisioner h' = Some p \<Longrightarrow> provisions cfg (cf_indexBase cfg) (cf_clients cfg) stop p [] stop' p' \<Longrightarrow>
     harness_start cfg h False (h'\<lparr>hn_provisioner := Some p', hn_externalStop := stop'\<rparr>)"
| provisioned: "start_setup cfg file w stop h = Some (True, h') \<Longrightarrow> cf_clients cfg > 0 \<Longrightarrow>
     hn_provisioner h' = Some p \<Longrightarrow> provisions cfg (cf_indexBase cfg) (cf_clients cfg) stop p creds stop' p' \<Longrightarrow> creds \<noteq> [] \<Longrightarrow>
     harness_start cfg h True (start_finish sysNs steadyNs
       (start_population cfg rampStart creds (h'\<lparr>hn_provisioner := Some p', hn_externalStop := stop'\<rparr>)))"

section \<open>Adding clients\<close>

definition int_max :: int where "int_max = 2 ^ 31 - 1"

definition fits_int :: "int \<Rightarrow> bool" where
  "fits_int i \<longleftrightarrow> - (2 ^ 31) \<le> i \<and> i \<le> int_max"

definition requestAdd :: "Config \<Rightarrow> int \<Rightarrow> Harness \<Rightarrow> (string \<times> Harness) option" where
  "requestAdd cfg n h =
     (if n < 1 then Some (''count must be >= 1'', h)
      else if hn_busy h then Some (''busy: an add is already running'', h)
      else if \<not> fits_int (hn_used h + n) then None
      else if hn_used h + n > cf_indexLimit cfg then
        Some (''add would exceed LT_INDEX_LIMIT ('' @ dec_int (cf_indexLimit cfg) @ ''); used='' @ dec_int (hn_used h), h)
      else if \<not> fits_int (cf_indexBase cfg + hn_used h) then None
      else Some ([], h\<lparr>hn_busy := True, hn_addError := [], hn_adding := Starting n (cf_indexBase cfg + hn_used h)\<rparr>))"

text \<open>\<open>add_begin\<close>, \<open>add_failed\<close>, \<open>add_queue\<close>, \<open>add_one\<close>, \<open>add_done\<close>: the parts of \<^verbatim>\<open>runAdd\<close>, in its order.\<close>

definition add_failed :: "Harness \<Rightarrow> Harness" where
  "add_failed h = syncSignIn (h\<lparr>hn_adding := NoAdd, hn_busy := False,
     hn_addError := (if hn_externalStop h then ''add aborted'' else ''provisioning failed (see logs)'')\<rparr>)"

definition add_begin :: "Config \<Rightarrow> int \<Rightarrow> int \<Rightarrow> Provisioner \<Rightarrow> Harness \<Rightarrow> Harness" where
  "add_begin cfg n globalStart p h =
     (if range_refused cfg globalStart n p then add_failed h
      else h\<lparr>hn_adding := Provisioning n globalStart (range_start cfg n (hn_externalStop h) p)\<rparr>)"

text \<open>The range as its threads see it: the provisioner and the stop flag are shared.\<close>

definition range_of :: "Provisioner \<Rightarrow> Range \<Rightarrow> Harness \<Rightarrow> Range" where
  "range_of p r h = r\<lparr>rg_prov := p, rg_stop := hn_externalStop h\<rparr>"

definition put_range :: "int \<Rightarrow> int \<Rightarrow> Range \<Rightarrow> Harness \<Rightarrow> Harness" where
  "put_range n globalStart r h =
     h\<lparr>hn_adding := Provisioning n globalStart r, hn_provisioner := Some (rg_prov r), hn_externalStop := rg_stop r\<rparr>"

definition add_joined :: "int \<Rightarrow> int \<Rightarrow> Range \<Rightarrow> Harness \<Rightarrow> Harness" where
  "add_joined rampStart n r h =
     (if range_result r = [] then add_failed h
      else h\<lparr>hn_adding := Queueing n rampStart (range_result r) 0\<rparr>)"

definition add_one :: "Config \<Rightarrow> int \<Rightarrow> int \<Rightarrow> ClientCredentials list \<Rightarrow> nat \<Rightarrow> Harness \<Rightarrow> Harness" where
  "add_one cfg n rampStart creds i h =
     (distribute_one cfg rampStart i (creds ! i) h)\<lparr>hn_adding := Queueing n rampStart creds (i + 1)\<rparr>"

definition add_done :: "int \<Rightarrow> Harness \<Rightarrow> Harness" where
  "add_done n h = syncSignIn (h\<lparr>hn_adding := NoAdd, hn_used := hn_used h + n, hn_busy := False, hn_addError := []\<rparr>)"

section \<open>Rungs and status\<close>

definition openRung :: "int \<Rightarrow> int \<Rightarrow> string \<Rightarrow> Harness \<Rightarrow> string \<times> Harness" where
  "openRung sysNs steadyNs rung h =
     (if rung = [] then (''rung id is required'', h)
      else if hn_busy h then (''busy: finish the in-flight add before opening a rung'', h)
      else ([], on_hstats (markWindow sysNs steadyNs rung) h))"

definition statusJson :: "Config \<Rightarrow> Harness \<Rightarrow> json" where
  "statusJson cfg h =
     (let active = st_activeClients (hn_stats h);
          suspended = st_suspendedClients (hn_stats h);
          waiting = hn_used h - active - suspended;
          waiting = (if waiting < 0 then 0 else waiting)
      in JObj
        [(''instance_id'', JStr (cf_instanceId cfg)),
         (''index_base'', jint (cf_indexBase cfg)),
         (''used'', jint (hn_used h)),
         (''limit'', jint (cf_indexLimit cfg)),
         (''active'', jint active),
         (''suspended'', jint suspended),
         (''waiting'', jint waiting),
         (''busy'', JBool (hn_busy h)),
         (''add_error'', JStr (hn_addError h)),
         (''rung_id'', JStr (st_rungId (hn_stats h))),
         (''threads'', jint (cf_threads cfg)),
         (''update_hz'', jint (cf_updateHz cfg)),
         (''replay_logging'', JStr (hn_replayLoggingObserved h)),
         (''replay_logging_requested'', JStr (cf_replayLogging cfg)),
         (''replay_logging_at_end'', JStr (hn_replayLoggingAtEnd h))])"

definition snapshot_meta :: "Config \<Rightarrow> int \<Rightarrow> Harness \<Rightarrow> SnapshotMeta" where
  "snapshot_meta cfg steadyNs h =
     (let st = hn_stats h in
      SnapshotMeta_init\<lparr>sm_instanceId := cf_instanceId cfg, sm_indexBase := cf_indexBase cfg, sm_used := hn_used h,
        sm_limit := cf_indexLimit cfg, sm_busy := hn_busy h, sm_addError := hn_addError h,
        sm_replayLogging := hn_replayLoggingObserved h, sm_replayLoggingAtEnd := hn_replayLoggingAtEnd h,
        sm_replayLoggingRequested := cf_replayLogging cfg, sm_rungId := st_rungId st,
        sm_windowOpenEpochSec := st_windowOpenEpochSec st, sm_windowDurationSec := windowDurationSec steadyNs st,
        sm_activeClients := st_activeClients st, sm_suspendedClients := st_suspendedClients st\<rparr>)"

definition statsJson :: "Config \<Rightarrow> int \<Rightarrow> Harness \<Rightarrow> json" where
  "statsJson cfg steadyNs h =
     buildStatsJson (snapshot_meta cfg steadyNs h) (loadLifetime (hn_stats h)) (loadWindow (hn_stats h)) (st_interval (hn_stats h))"

text \<open>\<open>writable\<close>: whether the file can be opened.\<close>

definition rung_path :: "Config \<Rightarrow> string \<Rightarrow> string" where
  "rung_path cfg rung = cf_statsDir cfg @ ''/rung-'' @ rung @ ''.json''"

definition writeRungFile :: "Config \<Rightarrow> bool \<Rightarrow> string \<Rightarrow> json \<Rightarrow> Harness \<Rightarrow> Harness" where
  "writeRungFile cfg writable rung body h =
     (if cf_statsDir cfg = [] then h
      else if \<not> writable then h
      else h\<lparr>hn_files := hn_files h @ [(rung_path cfg rung, body)]\<rparr>)"

definition closeRung :: "Config \<Rightarrow> int \<Rightarrow> bool \<Rightarrow> Harness \<Rightarrow> json \<times> Harness" where
  "closeRung cfg steadyNs writable h =
     (let body = statsJson cfg steadyNs h
      in case jvalue get_string body ''rung_id'' [] of
           Inl e \<Rightarrow> (body, h)
         | Inr rung \<Rightarrow>
             (body, if rung \<noteq> [] then (writeRungFile cfg writable rung body h)\<lparr>hn_lastRungId := rung, hn_lastRungBody := body\<rparr> else h))"

section \<open>The end of a run\<close>

definition recordReplayLoggingAtEnd :: "Config \<Rightarrow> bool \<Rightarrow> string \<Rightarrow> Harness \<Rightarrow> Harness" where
  "recordReplayLoggingAtEnd cfg writable atEnd h =
     (let h = h\<lparr>hn_replayLoggingAtEnd := atEnd\<rparr>
      in if hn_lastRungId h = [] then h
         else writeRungFile cfg writable (hn_lastRungId h) (jset ''replay_logging_at_end'' (JStr atEnd) (hn_lastRungBody h)) h)"

definition observeEndOfRun :: "Config \<Rightarrow> bool \<Rightarrow> Harness \<Rightarrow> Harness option" where
  "observeEndOfRun cfg writable h =
     (case hn_provisioner h of
        None \<Rightarrow> Some h
      | Some p \<Rightarrow>
          if hn_endObserved h then Some h
          else case observeReplayLogging cfg p of
                 None \<Rightarrow> None
               | Some (label, p) \<Rightarrow>
                   Some (recordReplayLoggingAtEnd cfg writable label (h\<lparr>hn_endObserved := True, hn_provisioner := Some p\<rparr>)))"

definition requestShutdown :: "Harness \<Rightarrow> Harness" where
  "requestShutdown h = h\<lparr>hn_shutdown := True, hn_externalStop := True\<rparr>"

text \<open>
  \<^verbatim>\<open>stop\<close>: the workers end and the queue is shut down; the control thread then empties the queue
  and the add thread is joined (steps of theirs); what follows is \<open>stop_finish\<close>.
\<close>

definition stop_begin :: "Harness \<Rightarrow> Harness" where
  "stop_begin h =
     (if \<not> hn_started h then h
      else h\<lparr>hn_started := False, hn_running := False, hn_controlQueue := queue_shutdown (hn_controlQueue h)\<rparr>)"

definition stop_finish :: "Config \<Rightarrow> bool \<Rightarrow> Harness \<Rightarrow> (summary_line list \<times> Harness) option" where
  "stop_finish cfg writable h =
     (case observeEndOfRun cfg writable h of
        None \<Rightarrow> None
      | Some h \<Rightarrow>
          let (reused, before, during) = loadSignIn (hn_stats h);
              replay = (case hn_provisioner h of
                 None \<Rightarrow> []
               | Some _ \<Rightarrow> replayLoggingSummary (cf_replayLogging cfg) (hn_replayLoggingObserved h) (hn_replayLoggingAtEnd h))
          in Some (printFinalSummary (cf_permWindowRadiusChunks cfg) reused before during replay (hn_stats h), h))"

section \<open>Steps\<close>

inductive harness_step ::
  "hmac_fn \<Rightarrow> (double \<Rightarrow> double \<Rightarrow> double) \<Rightarrow> Config \<Rightarrow> Harness \<Rightarrow> Harness \<Rightarrow> bool" for hm at2 cfg where
  tick: "hn_running h \<Longrightarrow> i < length (hn_workers h) \<Longrightarrow>
     (\<forall>(slot, rs) \<in> set (tk_events tk). slot < length (wk_clients (worker_of i h)) + length (wk_pending (worker_of i h))) \<Longrightarrow>
     worker_tick hm at2 cfg tk (worker_of i h) = Some w \<Longrightarrow> harness_step hm at2 cfg h (put_worker i w h)"
| take: "hn_control h = None \<Longrightarrow> control_take h = Some h' \<Longrightarrow> harness_step hm at2 cfg h h'"
| answer: "hn_control h = Some req \<Longrightarrow> hn_provisioner h = Some p \<Longrightarrow>
     control_post cfg down req (p\<lparr>pv_world := w\<rparr>) h = Some h' \<Longrightarrow> harness_step hm at2 cfg h h'"
| request_add: "requestAdd cfg n h = Some (e, h') \<Longrightarrow> harness_step hm at2 cfg h h'"
| begin_add: "hn_adding h = Starting n globalStart \<Longrightarrow> hn_provisioner h = Some p \<Longrightarrow>
     harness_step hm at2 cfg h (add_begin cfg n globalStart p h)"
| provision: "hn_adding h = Provisioning n globalStart r \<Longrightarrow> hn_provisioner h = Some p \<Longrightarrow>
     range_step cfg globalStart n (range_of p r h) r' \<Longrightarrow> harness_step hm at2 cfg h (put_range n globalStart r' h)"
| join_add: "hn_adding h = Provisioning n globalStart r \<Longrightarrow> joined r \<Longrightarrow> hn_provisioner h = Some p \<Longrightarrow>
     harness_step hm at2 cfg h (add_joined rampStart n (range_of p r h) h)"
| queue_add: "hn_adding h = Queueing n rampStart creds i \<Longrightarrow> i < length creds \<Longrightarrow>
     harness_step hm at2 cfg h (add_one cfg n rampStart creds i h)"
| end_add: "hn_adding h = Queueing n rampStart creds (length creds) \<Longrightarrow> harness_step hm at2 cfg h (add_done n h)"
| open_rung: "openRung sysNs steadyNs rung h = (e, h') \<Longrightarrow> harness_step hm at2 cfg h h'"
| close_rung: "closeRung cfg steadyNs writable h = (body, h') \<Longrightarrow> harness_step hm at2 cfg h h'"
| report: "reporter_turn now sysNs later rp (hn_stats h) = (ro, rp', st) \<Longrightarrow> harness_step hm at2 cfg h (h\<lparr>hn_stats := st\<rparr>)"
| shutdown: "harness_step hm at2 cfg h (requestShutdown h)"
| signal: "harness_step hm at2 cfg h (h\<lparr>hn_externalStop := True\<rparr>)"
| observe_end: "observeEndOfRun cfg writable h = Some h' \<Longrightarrow> harness_step hm at2 cfg h h'"
| begin_stop: "harness_step hm at2 cfg h (stop_begin h)"
| finish_stop: "\<not> hn_running h \<Longrightarrow> queue_pop (hn_controlQueue h) = ShutDown \<Longrightarrow> hn_control h = None \<Longrightarrow> hn_adding h = NoAdd \<Longrightarrow>
     stop_finish cfg writable h = Some (lines, h') \<Longrightarrow> harness_step hm at2 cfg h h'"

section \<open>The invariant\<close>

text \<open>Everyone a worker has or is about to have, by global index; the sums over all workers.\<close>

definition members :: "Worker \<Rightarrow> int multiset" where
  "members w = mset (ids w) + mset (waiting_ids w)"

definition population :: "Harness \<Rightarrow> int multiset" where
  "population h = sum_list (map members (hn_workers h))"

definition headcount :: "State \<Rightarrow> Harness \<Rightarrow> int" where
  "headcount s h = sum_list (map (count_state s) (hn_workers h))"

definition queued :: "Harness \<Rightarrow> int" where
  "queued h = (case hn_adding h of Queueing n rampStart creds i \<Rightarrow> int i | _ \<Rightarrow> 0)"

text \<open>Every worker knows its index, holds the clients that fall to it, and only hears of its own.\<close>

definition crew_member :: "Config \<Rightarrow> nat \<Rightarrow> Worker \<Rightarrow> bool" where
  "crew_member cfg i w \<longleftrightarrow> wk_index w = int i \<and> list_all client_ok (wk_clients w) \<and>
     list_all (update_names (ids w)) (wk_inbox w) \<and> (\<forall>x \<in># members w. x mod cf_threads cfg = int i)"

definition request_ok :: "Harness \<Rightarrow> ControlRequest \<Rightarrow> bool" where
  "request_ok h r \<longleftrightarrow> 0 \<le> rq_workerIndex r \<and> nat (rq_workerIndex r) < length (hn_workers h) \<and>
     request_names (ids (hn_workers h ! nat (rq_workerIndex r))) r"

definition crew_ok :: "Config \<Rightarrow> Harness \<Rightarrow> bool" where
  "crew_ok cfg h \<longleftrightarrow> int (length (hn_workers h)) = cf_threads cfg \<and>
     (\<forall>i < length (hn_workers h). crew_member cfg i (hn_workers h ! i)) \<and>
     list_all (request_ok h) (cq_queue (hn_controlQueue h)) \<and>
     (\<forall>r. hn_control h = Some r \<longrightarrow> request_ok h r) \<and>
     st_activeClients (hn_stats h) = headcount ACTIVE h \<and> st_suspendedClients (hn_stats h) = headcount SUSPENDED h"

definition claimed :: "Config \<Rightarrow> int \<Rightarrow> Harness \<Rightarrow> bool" where
  "claimed cfg n h \<longleftrightarrow> hn_busy h \<and> 1 \<le> n \<and> hn_used h + n \<le> cf_indexLimit cfg"

definition add_ok :: "Config \<Rightarrow> Harness \<Rightarrow> bool" where
  "add_ok cfg h \<longleftrightarrow>
     (case hn_adding h of
        NoAdd \<Rightarrow> \<not> hn_busy h
      | Starting n g \<Rightarrow> claimed cfg n h \<and> g = cf_indexBase cfg + hn_used h
      | Provisioning n g r \<Rightarrow> claimed cfg n h \<and> g = cf_indexBase cfg + hn_used h \<and> rg_threads r \<noteq> [] \<and>
          (\<forall>p. hn_provisioner h = Some p \<longrightarrow> range_ok cfg g n (range_of p r h))
      | Queueing n rampStart creds i \<Rightarrow> claimed cfg n h \<and> length creds = nat n \<and> i \<le> length creds \<and>
          (\<forall>j < length creds. cr_index (creds ! j) = cf_indexBase cfg + hn_used h + int j))"

definition books_ok :: "Config \<Rightarrow> Harness \<Rightarrow> bool" where
  "books_ok cfg h \<longleftrightarrow>
     population h = mset_set {cf_indexBase cfg..<cf_indexBase cfg + hn_used h + queued h} \<and> 0 \<le> hn_used h \<and>
     hn_used h \<le> cf_indexLimit cfg \<and> (\<exists>p. hn_provisioner h = Some p \<and> roster_ok p) \<and> add_ok cfg h"

definition harness_ok :: "Config \<Rightarrow> Harness \<Rightarrow> bool" where
  "harness_ok cfg h \<longleftrightarrow> crew_ok cfg h \<and> books_ok cfg h"

section \<open>Workers within the whole\<close>

lemma worker_of_simps [simp]:
  "wk_clients (worker_of i h) = wk_clients (hn_workers h ! i)" "wk_index (worker_of i h) = wk_index (hn_workers h ! i)"
  "wk_pending (worker_of i h) = wk_pending (hn_workers h ! i)" "wk_inbox (worker_of i h) = wk_inbox (hn_workers h ! i)"
  "wk_stats (worker_of i h) = hn_stats h" "wk_control (worker_of i h) = hn_controlQueue h"
  "ids (worker_of i h) = ids (hn_workers h ! i)" "waiting_ids (worker_of i h) = waiting_ids (hn_workers h ! i)"
  "members (worker_of i h) = members (hn_workers h ! i)" "count_state s (worker_of i h) = count_state s (hn_workers h ! i)"
  by (simp_all add: worker_of_def ids_def waiting_ids_def members_def count_state_def)

lemma put_worker_simps [simp]:
  "length (hn_workers (put_worker i w h)) = length (hn_workers h)" "hn_workers (put_worker i w h) = (hn_workers h)[i := w]"
  "hn_stats (put_worker i w h) = wk_stats w" "hn_controlQueue (put_worker i w h) = wk_control w"
  "hn_control (put_worker i w h) = hn_control h" "hn_adding (put_worker i w h) = hn_adding h"
  "hn_used (put_worker i w h) = hn_used h" "hn_busy (put_worker i w h) = hn_busy h"
  "hn_provisioner (put_worker i w h) = hn_provisioner h" "hn_externalStop (put_worker i w h) = hn_externalStop h"
  "hn_running (put_worker i w h) = hn_running h"
  by (simp_all add: put_worker_def)

lemma headcount_put:
  assumes "i < length (hn_workers h)"
  shows "headcount s (put_worker i w h) = headcount s h - count_state s (hn_workers h ! i) + count_state s w"
  using sum_list_replace [OF assms, of "count_state s" w] by (simp add: headcount_def)

lemma population_put:
  assumes "i < length (hn_workers h)" "members w = members (hn_workers h ! i) + new"
  shows "population (put_worker i w h) = population h + new"
  using sum_list_replace [OF assms(1), of members w] assms(2) by (simp add: population_def ac_simps)

lemma request_ok_put:
  assumes r: "request_ok h r" and i: "i < length (hn_workers h)" and ids: "ids w = ids (hn_workers h ! i) @ new"
  shows "request_ok (put_worker i w h) r"
  using assms by (auto simp: request_ok_def nth_list_update request_names_def names_append)

text \<open>What a change of one worker has to show.\<close>

lemma crew_put:
  assumes ok: "crew_ok cfg h" and i: "i < length (hn_workers h)" and w: "crew_member cfg i w"
    and ids: "ids w = ids (hn_workers h ! i) @ new"
    and queue: "\<forall>r \<in> set (cq_queue (wk_control w)). r \<in> set (cq_queue (hn_controlQueue h)) \<or> own_request (int i) (ids w) r"
    and act: "st_activeClients (wk_stats w) = st_activeClients (hn_stats h) - count_state ACTIVE (hn_workers h ! i) + count_state ACTIVE w"
    and sus: "st_suspendedClients (wk_stats w) = st_suspendedClients (hn_stats h) - count_state SUSPENDED (hn_workers h ! i) + count_state SUSPENDED w"
  shows "crew_ok cfg (put_worker i w h)"
proof -
  note keep = request_ok_put [OF _ i ids]
  have "request_ok (put_worker i w h) r" if "own_request (int i) (ids w) r" for r
    using that i by (auto simp: own_request_def request_ok_def)
  with queue ok keep have "list_all (request_ok (put_worker i w h)) (cq_queue (wk_control w))"
    by (auto simp: crew_ok_def list_all_iff)
  moreover have "crew_member cfg j ((hn_workers h)[i := w] ! j)" if "j < length (hn_workers h)" for j
    using ok w i that by (cases "j = i") (auto simp: crew_ok_def)
  ultimately show ?thesis using ok act sus keep
    by (auto simp: crew_ok_def headcount_put [OF i])
qed

lemma books_put:
  assumes "books_ok cfg h" "i < length (hn_workers h)" "members w = members (hn_workers h ! i)"
  shows "books_ok cfg (put_worker i w h)"
  using assms population_put [of i h w "{#}"] by (auto simp: books_ok_def queued_def add_ok_def claimed_def range_of_def cong: AddThread.case_cong)

text \<open>A worker within the whole satisfies its own invariant, the others' clients being the constants.\<close>

lemma crew_worker_ok:
  assumes ok: "crew_ok cfg h" and i: "i < length (hn_workers h)"
  shows "worker_ok (headcount ACTIVE h - count_state ACTIVE (hn_workers h ! i))
     (headcount SUSPENDED h - count_state SUSPENDED (hn_workers h ! i)) (worker_of i h)"
proof -
  let ?w = "hn_workers h ! i"
  have w: "crew_member cfg i ?w" using ok i by (simp add: crew_ok_def)
  have "list_all (\<lambda>u. cu_clientIndex u < length (wk_clients ?w)) (wk_inbox ?w)"
    using w by (auto simp: crew_member_def update_names_def names_def list_all_iff)
  moreover have "rq_clientIndex r < length (wk_clients ?w)"
    if "r \<in> set (cq_queue (hn_controlQueue h))" "rq_workerIndex r = int i" for r
    using ok that by (auto simp: crew_ok_def list_all_iff request_ok_def request_names_def names_def)
  ultimately show ?thesis using w ok by (auto simp: worker_ok_def crew_member_def crew_ok_def list_all_iff)
qed

lemma tick_keeps:
  assumes ok: "harness_ok cfg h" and i: "i < length (hn_workers h)"
    and events: "\<forall>(slot, rs) \<in> set (tk_events tk). slot < length (wk_clients (worker_of i h)) + length (wk_pending (worker_of i h))"
    and t: "worker_tick hm at2 cfg tk (worker_of i h) = Some w"
  shows "harness_ok cfg (put_worker i w h)"
proof -
  let ?w = "hn_workers h ! i"
  have crew: "crew_ok cfg h" and books: "books_ok cfg h" using ok by (simp_all add: harness_ok_def)
  have m: "crew_member cfg i ?w" using crew i by (simp add: crew_ok_def)
  have tag: "tagged (ids ?w @ waiting_ids ?w) (int i) (hn_controlQueue h) w"
    using tick_identities [OF t _ events] m by (simp add: crew_member_def)
  have same: "members w = members ?w"
    using tag by (simp add: tagged_def members_def waiting_ids_def)
  have "ok_n (headcount ACTIVE h - count_state ACTIVE ?w) (headcount SUSPENDED h - count_state SUSPENDED ?w)
      (length (wk_clients ?w) + length (wk_pending ?w)) w"
    using ok_n_tick [of _ _ "length (wk_clients ?w)", OF _ _ t] crew_worker_ok [OF crew i] events by (simp add: ok_n_def)
  then have wok: "worker_ok (headcount ACTIVE h - count_state ACTIVE ?w) (headcount SUSPENDED h - count_state SUSPENDED ?w) w"
    by (simp add: ok_n_def)
  have "crew_member cfg i w" using m wok tag same by (simp add: crew_member_def worker_ok_def tagged_def)
  moreover have "ids w = ids ?w @ waiting_ids ?w" using tag by (simp add: tagged_def)
  moreover have "\<forall>r \<in> set (cq_queue (wk_control w)). r \<in> set (cq_queue (hn_controlQueue h)) \<or> own_request (int i) (ids w) r"
    using tag by (auto simp: tagged_def own_requests_def list_all_iff)
  ultimately have "crew_ok cfg (put_worker i w h)"
    by (rule crew_put [OF crew i]) (use wok crew in \<open>auto simp: worker_ok_def crew_ok_def\<close>)
  moreover have "books_ok cfg (put_worker i w h)" by (rule books_put [OF books i same])
  ultimately show ?thesis by (simp add: harness_ok_def)
qed

section \<open>What the control thread answers\<close>

lemma keeps_refresh_data: "keeps_roster (refresh_data url c)"
  unfolding framed_def
proof (intro allI impI)
  fix p r p' assume d: "refresh_data url c p = (r, p')"
  let ?legacy = "requestWithRetry url LEGACY_REFRESH_MUTATION (JObj []) (cr_appToken c) no_stop []"
  have "keeps_roster (\<lambda>p. ?legacy (p\<lparr>pv_legacyRefresh := True\<rparr>))"
    using keeps_request [of url LEGACY_REFRESH_MUTATION "JObj []" "cr_appToken c" no_stop "[]"]
    by (auto simp: framed_def roster_same_def)
  then have "keeps_roster (io_catch (requestWithRetry url REFRESH_MUTATION (refresh_vars c) (cr_appToken c) no_stop [])
     (\<lambda>e. if isTransport e \<or> \<not> mentions_currentServer (what_of e) then io_throw e
          else (\<lambda>p. ?legacy (p\<lparr>pv_legacyRefresh := True\<rparr>))))"
    by (simp add: keeps_intros)
  then show "roster_same p p'"
    using d framedD [OF keeps_request] by (auto simp: refresh_data_def Let_def framed_def split: if_splits)
qed

lemma keeps_refresh: "keeps_roster (refreshToken cfg url c)"
  by (simp add: refreshToken_def keeps_refresh_data keeps_intros split: option.split json.split)

lemma keeps_attempts: "assign_attempts cfg down k c p = (r, p') \<Longrightarrow> roster_same p p'"
proof (induction cfg down k c p arbitrary: r p' rule: assign_attempts.induct)
  case (1 cfg down k c p)
  obtain x q where a: "assignServer cfg c p = (x, q)" by fastforce
  have q: "roster_same p q" by (rule framedD [OF keeps_place(1) a])
  show ?case
  proof (cases x)
    case (Inr c')
    with 1(2) a q show ?thesis by (simp add: assign_attempts.simps [of _ _ k])
  next
    case (Inl e)
    show ?thesis
    proof (cases "e = Undefined \<or> k \<ge> 15 \<or> down k")
      case True
      with 1(2) a Inl q show ?thesis by (auto simp: assign_attempts.simps [of _ _ k])
    next
      case False
      then have "assign_attempts cfg down (k + 1) c q = (r, p')" using 1(2) a Inl by (simp add: assign_attempts.simps [of _ _ k])
      from roster.trans [OF q 1(1) [OF a [symmetric] Inl False this]] a show ?thesis by simp
    qed
  qed
qed

lemma attempts_frame:
  "assign_attempts cfg down k c p = (Inr c', p') \<Longrightarrow> cr_index c' = cr_index c \<and> cr_appToken c' = cr_appToken c"
proof (induction cfg down k c p arbitrary: p' rule: assign_attempts.induct)
  case (1 cfg down k c p)
  obtain x q where a: "assignServer cfg c p = (x, q)" by fastforce
  show ?case
  proof (cases x)
    case (Inr d)
    with 1(2) a assign_frame [of cfg c p d q] show ?thesis by (auto simp: assign_attempts.simps [of _ _ k])
  next
    case (Inl e)
    with 1(2) a have "\<not> (e = Undefined \<or> k \<ge> 15 \<or> down k)" "assign_attempts cfg down (k + 1) c q = (Inr c', p')"
      by (auto simp: assign_attempts.simps [of _ _ k] split: if_splits)
    from 1(1) [OF a [symmetric] Inl this] show ?thesis .
  qed
qed

lemma refresh_frame:
  assumes "refreshToken cfg url c p = (Inr (k, c'), p')"
  shows "cr_index c' = cr_index c"
proof -
  from assms obtain fresh q d q' where d: "token_fields fresh q c = Inr d"
    and rest: "(case jlookup fresh ''authorizedServer'' of None \<Rightarrow> io_ok (False, d) | Some JNull \<Rightarrow> io_ok (False, d)
      | Some srv \<Rightarrow> io_bind (placed cfg srv d) (\<lambda>c. io_ok (True, c))) q' = (Inr (k, c'), p')"
    unfolding refreshToken_def by (auto simp: io_bind_Inr_iff)
  show ?thesis
  proof (cases "jlookup fresh ''authorizedServer''")
    case None
    with rest token_fields_frame [OF d] show ?thesis by simp
  next
    case (Some srv)
    with rest token_fields_frame [OF d] show ?thesis by (cases srv) (auto simp: io_bind_Inr_iff dest!: placed_frame)
  qed
qed

definition gauges_same :: "Stats \<Rightarrow> Stats \<Rightarrow> bool" where
  "gauges_same st st' \<longleftrightarrow> st_activeClients st' = st_activeClients st \<and> st_suspendedClients st' = st_suspendedClients st"

lemma control_work_frame:
  assumes "control_work cfg down kind c st p = (r, st', p')"
  shows "gauges_same st st'" "roster_same p p'" "r = Inr c' \<Longrightarrow> cr_index c' = cr_index c"
proof -
  define x where "x = (if kind = REFRESH then control_refresh cfg c st p else (Inr (False, c), st, p))"
  have f: "gauges_same st s \<and> roster_same p q \<and> (\<forall>k d. y = Inr (k, d) \<longrightarrow> cr_index d = cr_index c)" if "x = (y, s, q)" for y s q
    using that by (auto simp: x_def control_refresh_def Let_def gauges_same_def roster.refl framedD [OF keeps_refresh] refresh_frame
        split: if_splits prod.splits sum.splits)
  have g: "gauges_same s st' \<and> roster_same q p' \<and> (\<forall>c'. r = Inr c' \<longrightarrow> cr_index c' = cr_index d)"
    if "control_place cfg down kind k d s q = (r, st', p')" for k d s q
    using that by (auto simp: control_place_def Let_def gauges_same_def roster.refl keeps_attempts attempts_frame
        split: if_splits prod.splits sum.splits)
  obtain y s q where x: "x = (y, s, q)" by (cases x)
  have yc: "(case y of Inl e \<Rightarrow> (Inl e, s, q) | Inr (k, d) \<Rightarrow> control_place cfg down kind k d s q) = (r, st', p')"
    using assms x by (simp add: control_work_def x_def split: sum.splits prod.splits)
  have "gauges_same st st' \<and> roster_same p p' \<and> (\<forall>c'. r = Inr c' \<longrightarrow> cr_index c' = cr_index c)"
  proof (cases y)
    case (Inl e)
    then show ?thesis using f [OF x] yc by auto
  next
    case (Inr kd)
    obtain k d where kd: "kd = (k, d)" by (cases kd)
    with Inr yc have "control_place cfg down kind k d s q = (r, st', p')" by simp
    from g [OF this] have a: "gauges_same s st'" "roster_same q p'" "\<forall>c'. r = Inr c' \<longrightarrow> cr_index c' = cr_index d" by blast+
    from f [OF x] Inr kd have b: "gauges_same st s" "roster_same p q" "cr_index d = cr_index c" by blast+
    have "gauges_same st st'" using a(1) b(1) by (simp add: gauges_same_def)
    with roster.trans [OF b(2) a(2)] a(3) b(3) show ?thesis by metis
  qed
  then show "gauges_same st st'" "roster_same p p'" "r = Inr c' \<Longrightarrow> cr_index c' = cr_index c" by simp_all
qed

lemma control_answer_frame:
  assumes "control_answer cfg down req st p = Some (u, st', p')"
  shows "cu_clientIndex u = rq_clientIndex req" "cr_index (cu_creds u) = cr_index (rq_creds req)"
    "gauges_same st st'" "roster_same p p'"
proof -
  obtain r s q where w: "control_work cfg down (rq_kind req) (rq_creds req) st p = (r, s, q)" by (metis surj_pair)
  have q: "q = p'" and st': "st' = s \<or> st' = s\<lparr>st_controlFailures := st_controlFailures s + 1\<rparr>"
    and u: "cu_clientIndex u = rq_clientIndex req" "(\<exists>e. r = Inl e \<and> cu_creds u = rq_creds req) \<or> r = Inr (cu_creds u)"
    using assms w by (auto simp: control_answer_def Let_def split: sum.splits Exn.splits)
  show "cu_clientIndex u = rq_clientIndex req" by fact
  show "cr_index (cu_creds u) = cr_index (rq_creds req)" using u(2) control_work_frame(3) [OF w] by auto
  show "gauges_same st st'" "roster_same p p'" using st' control_work_frame(1,2) [OF w] by (auto simp: gauges_same_def q)
qed

section \<open>Every step keeps the invariant\<close>

lemma range_ok_shared:
  "range_ok cfg g n r \<Longrightarrow> roster_ok p \<Longrightarrow> (rg_stop r \<Longrightarrow> stop) \<Longrightarrow> range_ok cfg g n (r\<lparr>rg_prov := p, rg_stop := stop\<rparr>)"
  by (auto simp: range_ok_def halted_def filled_def)

text \<open>Steps that touch neither workers nor the add, beyond stopping it.\<close>

lemma crew_frame:
  "crew_ok cfg h \<Longrightarrow> hn_workers h' = hn_workers h \<Longrightarrow> cq_queue (hn_controlQueue h') = cq_queue (hn_controlQueue h) \<Longrightarrow>
     hn_control h' = hn_control h \<or> hn_control h' = None \<Longrightarrow> gauges_same (hn_stats h) (hn_stats h') \<Longrightarrow> crew_ok cfg h'"
  by (auto simp: crew_ok_def gauges_same_def headcount_def request_ok_def cong: list.pred_cong)

lemma books_frame:
  assumes ok: "books_ok cfg h" and same: "hn_workers h' = hn_workers h" "hn_adding h' = hn_adding h" "hn_used h' = hn_used h"
      "hn_busy h' = hn_busy h"
    and p: "hn_provisioner h' = Some p" "roster_ok p" and stop: "hn_externalStop h \<Longrightarrow> hn_externalStop h'"
  shows "books_ok cfg h'"
proof -
  have "add_ok cfg h'"
  proof (cases "hn_adding h")
    case (Provisioning n g r)
    moreover obtain q where "hn_provisioner h = Some q" using ok by (auto simp: books_ok_def)
    ultimately have "range_ok cfg g n (range_of q r h)" and rest: "claimed cfg n h" "g = cf_indexBase cfg + hn_used h" "rg_threads r \<noteq> []"
      using ok by (auto simp: books_ok_def add_ok_def)
    from range_ok_shared [OF this(1) p(2), of "hn_externalStop h'"] stop
    have "range_ok cfg g n (range_of p r h')" by (simp add: range_of_def)
    then show ?thesis using rest p same Provisioning by (simp add: add_ok_def claimed_def)
  qed (use ok same in \<open>auto simp: books_ok_def add_ok_def claimed_def\<close>)
  then show ?thesis using ok same p by (simp add: books_ok_def population_def queued_def)
qed

lemma harness_frame:
  assumes "harness_ok cfg h" "hn_workers h' = hn_workers h" "cq_queue (hn_controlQueue h') = cq_queue (hn_controlQueue h)"
    "hn_control h' = hn_control h \<or> hn_control h' = None" "gauges_same (hn_stats h) (hn_stats h')"
    "hn_adding h' = hn_adding h" "hn_used h' = hn_used h" "hn_busy h' = hn_busy h"
    "hn_provisioner h' = Some p" "roster_ok p" "hn_externalStop h \<Longrightarrow> hn_externalStop h'"
  shows "harness_ok cfg h'"
  using assms crew_frame [of cfg h h'] books_frame [of cfg h h' p] by (simp add: harness_ok_def)

lemma harness_frame_same:
  assumes "harness_ok cfg h" "hn_workers h' = hn_workers h" "cq_queue (hn_controlQueue h') = cq_queue (hn_controlQueue h)"
    "hn_control h' = hn_control h" "gauges_same (hn_stats h) (hn_stats h')"
    "hn_adding h' = hn_adding h" "hn_used h' = hn_used h" "hn_busy h' = hn_busy h"
    "hn_provisioner h' = hn_provisioner h" "hn_externalStop h \<Longrightarrow> hn_externalStop h'"
  shows "harness_ok cfg h'"
proof -
  obtain p where "hn_provisioner h = Some p" "roster_ok p" using assms(1) by (auto simp: harness_ok_def books_ok_def)
  with assms show ?thesis by (intro harness_frame [of cfg h h' p]) simp_all
qed

lemma take_keeps:
  assumes "harness_ok cfg h" "control_take h = Some h'"
  shows "harness_ok cfg h'"
proof -
  from assms(2) obtain r q where q: "cq_queue (hn_controlQueue h) = r # cq_queue q"
    and h': "h' = h\<lparr>hn_control := Some r, hn_controlQueue := q\<rparr>"
    by (auto simp: control_take_def queue_pop_Popped split: pop_result.splits)
  have "request_ok h' = request_ok h" "headcount s h' = headcount s h" for s by (auto simp: fun_eq_iff request_ok_def h' headcount_def)
  then have "crew_ok cfg h'" using assms(1) q by (auto simp: harness_ok_def crew_ok_def h')
  moreover have "books_ok cfg h'" using assms(1)
    by (auto simp: harness_ok_def books_ok_def h' population_def queued_def add_ok_def claimed_def range_of_def cong: AddThread.case_cong)
  ultimately show ?thesis by (simp add: harness_ok_def)
qed

lemma post_keeps:
  assumes ok: "harness_ok cfg h" and req: "hn_control h = Some req" and p: "hn_provisioner h = Some p"
    and c: "control_post cfg down req (p\<lparr>pv_world := wd\<rparr>) h = Some h'"
  shows "harness_ok cfg h'"
proof -
  let ?i = "nat (rq_workerIndex req)"
  from c obtain u st q where a: "control_answer cfg down req (hn_stats h) (p\<lparr>pv_world := wd\<rparr>) = Some (u, st, q)"
    and h': "h' = put_worker ?i (postUpdate u (worker_of ?i (h\<lparr>hn_stats := st, hn_provisioner := Some q, hn_control := None\<rparr>)))
        (h\<lparr>hn_stats := st, hn_provisioner := Some q, hn_control := None\<rparr>)"
    by (auto simp: control_post_def Let_def split: option.splits)
  define v where "v = h\<lparr>hn_stats := st, hn_provisioner := Some q, hn_control := None\<rparr>"
  note f = control_answer_frame [OF a]
  have "roster_ok p" using ok p by (auto simp: harness_ok_def books_ok_def)
  then have "roster_ok q" using roster_ok_same [OF _ f(4)] by (simp add: roster_ok_world)
  then have v: "harness_ok cfg v" using f(3) by (intro harness_frame [OF ok, of v q]) (simp_all add: v_def)
  have r: "request_ok h req" using ok req by (auto simp: harness_ok_def crew_ok_def)
  then have i: "?i < length (hn_workers v)" and n: "update_names (ids (hn_workers v ! ?i)) u"
    using f(1,2) by (auto simp: v_def request_ok_def request_names_def update_names_def)
  let ?w = "postUpdate u (worker_of ?i v)"
  have w: "ids ?w = ids (hn_workers v ! ?i)" "members ?w = members (hn_workers v ! ?i)"
      "count_state s ?w = count_state s (hn_workers v ! ?i)" for s
    by (simp_all add: postUpdate_def ids_def members_def waiting_ids_def count_state_def)
  have crew: "crew_ok cfg v" and books: "books_ok cfg v" using v by (simp_all add: harness_ok_def)
  have "crew_member cfg ?i (hn_workers v ! ?i)" using crew i by (simp only: crew_ok_def)
  then have "crew_member cfg ?i ?w" using n w by (auto simp: crew_member_def postUpdate_def)
  then have "crew_ok cfg (put_worker ?i ?w v)"
    by (rule crew_put [OF crew i, where new = "[]"]) (simp_all add: w, simp_all add: postUpdate_def)
  moreover have "books_ok cfg (put_worker ?i ?w v)" by (rule books_put [OF books i w(2)])
  ultimately show ?thesis by (simp add: h' v_def harness_ok_def)
qed

section \<open>Every step of an add\<close>

lemma not_busy_idle: "books_ok cfg h \<Longrightarrow> \<not> hn_busy h \<Longrightarrow> hn_adding h = NoAdd"
  by (auto simp: books_ok_def add_ok_def claimed_def split: AddThread.splits)

lemma sync_keeps: "harness_ok cfg h \<Longrightarrow> harness_ok cfg (syncSignIn h)"
  by (erule harness_frame_same) (auto simp: syncSignIn_def on_hstats_def gauges_same_def setSignIn_def split: option.splits)

text \<open>A step that only moves the add along, with the books it has to show.\<close>

lemma add_moves:
  assumes "harness_ok cfg h" "hn_workers h' = hn_workers h" "hn_controlQueue h' = hn_controlQueue h"
    "hn_control h' = hn_control h" "hn_stats h' = hn_stats h" "hn_provisioner h' = hn_provisioner h"
    "hn_used h' + queued h' = hn_used h + queued h" "0 \<le> hn_used h'" "hn_used h' \<le> cf_indexLimit cfg" "add_ok cfg h'"
  shows "harness_ok cfg h'"
  using assms crew_frame [of cfg h h'] by (simp add: harness_ok_def books_ok_def gauges_same_def population_def add.assoc)

lemma request_add_keeps:
  assumes ok: "harness_ok cfg h" and r: "requestAdd cfg n h = Some (e, h')"
  shows "harness_ok cfg h'"
proof (cases "h' = h")
  case False
  with r have h': "h' = h\<lparr>hn_busy := True, hn_addError := [], hn_adding := Starting n (cf_indexBase cfg + hn_used h)\<rparr>"
    and c: "1 \<le> n" "hn_used h + n \<le> cf_indexLimit cfg" "\<not> hn_busy h"
    by (auto simp: requestAdd_def split: if_splits)
  have "hn_adding h = NoAdd" using ok c(3) by (auto simp: harness_ok_def intro: not_busy_idle)
  then show ?thesis using c ok
    by (intro add_moves [OF ok]) (auto simp: h' queued_def add_ok_def claimed_def harness_ok_def books_ok_def)
qed (use ok in simp)

lemma failed_keeps:
  assumes ok: "harness_ok cfg h" and idle: "queued h = 0"
  shows "harness_ok cfg (add_failed h)"
  unfolding add_failed_def
  by (intro sync_keeps add_moves [OF ok]) (use ok idle in \<open>auto simp: queued_def add_ok_def harness_ok_def books_ok_def\<close>)

lemma begin_keeps:
  assumes ok: "harness_ok cfg h" and s: "hn_adding h = Starting n g" and p: "hn_provisioner h = Some p"
    and cfg: "1 \<le> cf_provisionConcurrency cfg"
  shows "harness_ok cfg (add_begin cfg n g p h)"
proof (cases "range_refused cfg g n p")
  case True
  then show ?thesis using ok s by (simp add: add_begin_def failed_keeps queued_def)
next
  case False
  let ?r = "range_start cfg n (hn_externalStop h) p"
  have "add_ok cfg h" "roster_ok p" using ok p by (auto simp: harness_ok_def books_ok_def)
  then have c: "claimed cfg n h" "g = cf_indexBase cfg + hn_used h" "range_ok cfg g n ?r" "rg_threads ?r \<noteq> []"
    using s cfg range_start_ok [of p cfg g n] by (auto simp: add_ok_def range_start_def claimed_def)
  have "range_of p ?r h = ?r" by (simp add: range_of_def range_start_def)
  then show ?thesis using False s c p ok
    by (intro add_moves [OF ok]) (auto simp: add_begin_def queued_def add_ok_def claimed_def range_of_def harness_ok_def books_ok_def)
qed

lemma range_step_threads: "range_step cfg g n r r' \<Longrightarrow> length (rg_threads r') = length (rg_threads r)"
  by (erule range_step.cases) simp_all

lemma provision_keeps:
  assumes ok: "harness_ok cfg h" and a: "hn_adding h = Provisioning n g r" and p: "hn_provisioner h = Some p"
    and step: "range_step cfg g n (range_of p r h) r'"
  shows "harness_ok cfg (put_range n g r' h)"
proof -
  have "add_ok cfg h" using ok by (simp add: harness_ok_def books_ok_def)
  then have c: "claimed cfg n h" "g = cf_indexBase cfg + hn_used h" "range_ok cfg g n (range_of p r h)" "rg_threads r \<noteq> []"
    using a p by (auto simp: add_ok_def)
  have r': "range_ok cfg g n r'" by (rule range_step_ok [OF step c(3)])
  have "length (rg_threads r') = length (rg_threads r)" using range_step_threads [OF step] by (simp add: range_of_def)
  with c(4) have t: "rg_threads r' \<noteq> []" by auto
  have crew: "crew_ok cfg (put_range n g r' h)"
    by (rule crew_frame [of cfg h]) (use ok in \<open>simp_all add: harness_ok_def put_range_def gauges_same_def\<close>)
  have "range_of (rg_prov r') r' (put_range n g r' h) = r'" by (simp add: range_of_def put_range_def)
  then have "add_ok cfg (put_range n g r' h)" using c t r' by (simp add: add_ok_def put_range_def claimed_def)
  then have "books_ok cfg (put_range n g r' h)" using ok r' a
    by (simp add: harness_ok_def books_ok_def put_range_def population_def queued_def range_ok_def)
  with crew show ?thesis by (simp add: harness_ok_def)
qed

lemma join_keeps:
  assumes ok: "harness_ok cfg h" and a: "hn_adding h = Provisioning n g r" and p: "hn_provisioner h = Some p" and j: "joined r"
  shows "harness_ok cfg (add_joined rampStart n (range_of p r h) h)"
proof (cases "range_result (range_of p r h) = []")
  case True
  then show ?thesis using ok a by (simp add: add_joined_def failed_keeps queued_def)
next
  case False
  have "add_ok cfg h" using ok by (simp add: harness_ok_def books_ok_def)
  then have c: "claimed cfg n h" "g = cf_indexBase cfg + hn_used h" "range_ok cfg g n (range_of p r h)" "rg_threads r \<noteq> []"
    using a p by (auto simp: add_ok_def)
  have f: "length (range_result (range_of p r h)) = nat n"
    "\<forall>i < nat n. cr_index (range_result (range_of p r h) ! i) = g + int i"
    using range_result_filled [OF c(3) _ _ False] c(4) j by (simp_all add: range_of_def joined_def)
  show ?thesis using False a c(1,2) f ok
    by (intro add_moves [OF ok]) (auto simp: add_joined_def queued_def add_ok_def claimed_def harness_ok_def books_ok_def)
qed

lemma done_keeps:
  assumes ok: "harness_ok cfg h" and a: "hn_adding h = Queueing n rampStart creds (length creds)"
  shows "harness_ok cfg (add_done n h)"
proof -
  have "claimed cfg n h" "length creds = nat n" using ok a by (auto simp: harness_ok_def books_ok_def add_ok_def)
  then show ?thesis unfolding add_done_def
    by (intro sync_keeps add_moves [OF ok]) (use ok a in \<open>auto simp: queued_def add_ok_def claimed_def harness_ok_def books_ok_def\<close>)
qed

section \<open>Distribution\<close>

lemma worker_index_mod:
  assumes "0 \<le> cr_index c" "1 \<le> cf_threads cfg"
  shows "int (worker_index cfg c) = cr_index c mod cf_threads cfg"
proof -
  have "0 \<le> cr_index c mod cf_threads cfg" using assms by (intro pos_mod_sign) simp
  then have "\<not> cr_index c mod cf_threads cfg < 0" by (simp only: not_less)
  then show ?thesis using assms by (simp add: worker_index_def c_mod_def Let_def)
qed

lemma distribute_one_frame [simp]:
  "length (hn_workers (distribute_one cfg t i c h)) = length (hn_workers h)"
  "hn_stats (distribute_one cfg t i c h) = hn_stats h" "hn_adding (distribute_one cfg t i c h) = hn_adding h"
  "hn_used (distribute_one cfg t i c h) = hn_used h" "hn_busy (distribute_one cfg t i c h) = hn_busy h"
  "hn_provisioner (distribute_one cfg t i c h) = hn_provisioner h" "hn_control (distribute_one cfg t i c h) = hn_control h"
  "hn_externalStop (distribute_one cfg t i c h) = hn_externalStop h"
  "hn_controlQueue (distribute_one cfg t i c h) = hn_controlQueue h"
  by (simp_all add: distribute_one_def Let_def addClient_def)

lemma distribute_one_keeps:
  assumes ok: "crew_ok cfg h" and cfg: "1 \<le> cf_threads cfg" and c: "0 \<le> cr_index c"
  shows "crew_ok cfg (distribute_one cfg t i c h)" "population (distribute_one cfg t i c h) = population h + {#cr_index c#}"
proof -
  let ?k = "worker_index cfg c"
  define w where "w = addClient c (t + int i div cf_rampBatchSize cfg * cf_rampIntervalMs cfg * 1000000) (worker_of ?k h)"
  have eq: "distribute_one cfg t i c h = put_worker ?k w h" by (simp add: distribute_one_def w_def Let_def)
  note k = worker_index_mod [OF c cfg]
  have "int ?k < int (length (hn_workers h))" using k cfg ok pos_mod_bound [of "cf_threads cfg" "cr_index c"] by (simp add: crew_ok_def)
  then have len: "?k < length (hn_workers h)" by simp
  have mem: "members w = members (hn_workers h ! ?k) + {#cr_index c#}"
    and same: "ids w = ids (hn_workers h ! ?k)" "count_state s w = count_state s (hn_workers h ! ?k)" for s
    by (simp_all add: w_def addClient_def members_def waiting_ids_def ids_def count_state_def)
  have "crew_member cfg ?k (hn_workers h ! ?k)" using ok len by (simp only: crew_ok_def)
  then have "crew_member cfg ?k w" using mem same k by (auto simp: crew_member_def w_def addClient_def)
  then show "crew_ok cfg (distribute_one cfg t i c h)" unfolding eq
    by (rule crew_put [OF ok len, where new = "[]"]) (simp_all add: same, simp_all add: w_def addClient_def)
  show "population (distribute_one cfg t i c h) = population h + {#cr_index c#}"
    unfolding eq by (rule population_put [OF len mem])
qed

text \<open>A run of consecutive indices, one more.\<close>

lemma mset_set_snoc: "0 \<le> k \<Longrightarrow> mset_set {b..<b + k} + {#b + k#} = mset_set {b..<b + k + (1::int)}"
proof -
  assume "0 \<le> k"
  then have "{b..<b + k + 1} = insert (b + k) {b..<b + k}" by auto
  then show ?thesis by simp
qed

lemma queue_keeps:
  assumes ok: "harness_ok cfg h" and a: "hn_adding h = Queueing n t creds i" and i: "i < length creds"
    and cfg: "1 \<le> cf_threads cfg" "0 \<le> cf_indexBase cfg"
  shows "harness_ok cfg (add_one cfg n t creds i h)"
proof -
  let ?c = "creds ! i" and ?h = "add_one cfg n t creds i h"
  have crew: "crew_ok cfg h" and books: "books_ok cfg h" using ok by (simp_all add: harness_ok_def)
  have add: "claimed cfg n h" "length creds = nat n"
    "\<forall>j < length creds. cr_index (creds ! j) = cf_indexBase cfg + hn_used h + int j"
    using books a by (auto simp: books_ok_def add_ok_def)
  have used: "0 \<le> hn_used h" using books by (simp add: books_ok_def)
  have c: "cr_index ?c = cf_indexBase cfg + (hn_used h + int i)" using add(3) i by (simp add: add.assoc)
  then have "0 \<le> cr_index ?c" using used cfg(2) by simp
  note d = distribute_one_keeps [OF crew cfg(1) this, of t i]
  have "crew_ok cfg ?h" by (rule crew_frame [OF d(1)]) (simp_all add: add_one_def gauges_same_def)
  moreover have "population ?h = mset_set {cf_indexBase cfg..<cf_indexBase cfg + (hn_used h + int i) + 1}"
    using d(2) books a c mset_set_snoc [of "hn_used h + int i" "cf_indexBase cfg"] used
    by (simp add: add_one_def books_ok_def queued_def population_def add.assoc)
  moreover have "add_ok cfg ?h" using add i by (simp add: add_ok_def add_one_def claimed_def)
  ultimately show ?thesis using books
    by (simp add: harness_ok_def books_ok_def add_one_def queued_def algebra_simps)
qed

lemma distribute_keeps:
  assumes "crew_ok cfg h" "1 \<le> cf_threads cfg" "\<forall>c \<in> set creds. 0 \<le> cr_index c"
  shows "crew_ok cfg (distribute cfg t creds h)"
    "population (distribute cfg t creds h) = population h + mset (map cr_index creds)"
    "hn_stats (distribute cfg t creds h) = hn_stats h" "hn_adding (distribute cfg t creds h) = hn_adding h"
    "hn_used (distribute cfg t creds h) = hn_used h" "hn_busy (distribute cfg t creds h) = hn_busy h"
    "hn_provisioner (distribute cfg t creds h) = hn_provisioner h" "hn_control (distribute cfg t creds h) = hn_control h"
proof -
  let ?f = "\<lambda>k creds. fold (\<lambda>(i, c). distribute_one cfg t i c) (enumerate k creds)"
  have "crew_ok cfg (?f k creds h) \<and> population (?f k creds h) = population h + mset (map cr_index creds) \<and>
     hn_stats (?f k creds h) = hn_stats h \<and> hn_adding (?f k creds h) = hn_adding h \<and> hn_used (?f k creds h) = hn_used h \<and>
     hn_busy (?f k creds h) = hn_busy h \<and> hn_provisioner (?f k creds h) = hn_provisioner h \<and> hn_control (?f k creds h) = hn_control h" for k
    using assms(1,3)
  proof (induction creds arbitrary: k h)
    case (Cons c creds)
    have "0 \<le> cr_index c" using Cons.prems by simp
    note d = distribute_one_keeps [OF Cons.prems(1) assms(2) this, of t k]
    from Cons.IH [OF d(1), of "Suc k"] Cons.prems(2) d(2) show ?case by simp
  qed simp
  from this [of 0] show "crew_ok cfg (distribute cfg t creds h)"
    "population (distribute cfg t creds h) = population h + mset (map cr_index creds)"
    "hn_stats (distribute cfg t creds h) = hn_stats h" "hn_adding (distribute cfg t creds h) = hn_adding h"
    "hn_used (distribute cfg t creds h) = hn_used h" "hn_busy (distribute cfg t creds h) = hn_busy h"
    "hn_provisioner (distribute cfg t creds h) = hn_provisioner h" "hn_control (distribute cfg t creds h) = hn_control h"
    by (simp_all add: distribute_def)
qed

section \<open>Starting\<close>

lemma keeps_replay: "keeps_roster (setReplayLogging cfg on)" "keeps_roster (readReplayLogging cfg)"
proof -
  show "keeps_roster (setReplayLogging cfg on)" by (simp add: setReplayLogging_def keeps_intros)
  have "keeps_roster (io_bind (login cfg (cf_email cfg)) (\<lambda>session.
             io_bind (requestWithRetry (cf_managementApiUrl cfg) READ_REPLAY_LOGGING_QUERY (JObj (app_vars cfg)) session no_stop [])
               (\<lambda>data. io_of (read_app data))))"
    by (simp add: keeps_intros)
  then show "keeps_roster (readReplayLogging cfg)"
    unfolding framed_def readReplayLogging_def by (auto split: prod.splits sum.splits Exn.splits)
qed

lemma observe_roster: "observeReplayLogging cfg p = Some (l, p') \<Longrightarrow> roster_same p p'"
  by (auto simp: observeReplayLogging_def split: prod.splits sum.splits dest: framedD [OF keeps_replay(2)])

definition fresh_state :: "Config \<Rightarrow> Harness \<Rightarrow> bool" where
  "fresh_state cfg h \<longleftrightarrow> crew_ok cfg h \<and> population h = {#} \<and> hn_used h = 0 \<and> hn_adding h = NoAdd \<and> \<not> hn_busy h \<and>
     (\<exists>p. hn_provisioner h = Some p \<and> roster_ok p)"

lemma new_crew:
  assumes "1 \<le> cf_threads cfg"
  shows "length (map (\<lambda>w. new_worker w st q) [0..cf_threads cfg - 1]) = nat (cf_threads cfg)"
    "i < nat (cf_threads cfg) \<Longrightarrow> map (\<lambda>w. new_worker w st q) [0..cf_threads cfg - 1] ! i = new_worker (int i) st q"
  using assms by simp_all

lemma setup_fresh:
  assumes s: "start_setup cfg fl w stop new_harness = Some (True, h)" and cfg: "1 \<le> cf_threads cfg"
  shows "fresh_state cfg h"
proof -
  let ?h = "new_harness\<lparr>hn_externalStop := stop\<rparr>"
  obtain p q l p' where p: "new_provisioner cfg fl w = Inr p" and q: "start_replay cfg p = (Inr (), q)"
    and o: "observeReplayLogging cfg q = Some (l, p')"
    and h: "h = ?h\<lparr>hn_provisioner := Some p', hn_replayLoggingObserved := l,
       hn_workers := map (\<lambda>w. new_worker w Stats_init (hn_controlQueue ?h)) [0..cf_threads cfg - 1]\<rparr>"
    using s by (auto simp: start_setup_def Let_def new_harness_def split: sum.splits Exn.splits prod.splits option.splits)
  have "roster_same p q" using q framedD [OF keeps_replay(1)] by (auto simp: start_replay_def roster.refl split: if_splits)
  then have "roster_ok p'" using new_provisioner_ok [OF p] observe_roster [OF o] by (blast intro: roster_ok_same)
  have z: "members (new_worker w st' q') = {#}" "count_state s (new_worker w st' q') = 0" "crew_member cfg i (new_worker (int i) st' q')"
    for s w st' q' i
    by (simp_all add: new_worker_def members_def ids_def waiting_ids_def count_state_def crew_member_def)
  have "population h = {#}" "headcount s h = 0" for s
    by (simp_all add: population_def headcount_def h z o_def sum_list_map_eq_sum_count)
  moreover have "crew_member cfg i (hn_workers h ! i)" if "i < length (hn_workers h)" for i
    using that cfg by (simp add: h z)
  ultimately have "crew_ok cfg h" using cfg by (simp add: crew_ok_def h new_harness_def Stats_init_def)
  then show ?thesis using \<open>population h = {#}\<close> \<open>roster_ok p'\<close> by (simp add: fresh_state_def h new_harness_def)
qed

lemma provisions_all:
  assumes "provisions cfg g n stop p creds stop' p'" "roster_ok p" "1 \<le> cf_provisionConcurrency cfg" "creds \<noteq> []"
  shows "length creds = nat n \<and> (\<forall>i < nat n. cr_index (creds ! i) = g + int i) \<and> roster_ok p' \<and> 1 \<le> n"
  using assms(1)
proof (cases rule: provisions.cases)
  case refused
  with assms(4) show ?thesis by simp
next
  case (joined r)
  have n: "1 \<le> n" using joined by (simp add: range_refused_def)
  have ok: "range_ok cfg g n r" by (rule range_reachable_ok [OF joined(5) assms(2)])
  have "rg_threads r \<noteq> []" using range_threads_length [OF joined(5)] assms(3) n by auto
  from range_result_filled [OF ok this joined(6)] joined(1) assms(4)
  have "length creds = nat n \<and> (\<forall>i < nat n. cr_index (creds ! i) = g + int i)" by simp
  moreover have "roster_ok p'" using ok joined(3) by (simp add: range_ok_def)
  ultimately show ?thesis using n by simp
qed

lemma finish_keeps:
  assumes "harness_ok cfg h"
  shows "harness_ok cfg (start_finish sysNs steadyNs h)"
  by (rule harness_frame_same [OF sync_keeps [OF assms]])
     (simp_all add: start_finish_def on_hstats_def gauges_same_def markWindow_def)

lemma start_ok:
  assumes s: "harness_start cfg new_harness True h"
    and cfg: "1 \<le> cf_threads cfg" "0 \<le> cf_indexBase cfg" "1 \<le> cf_provisionConcurrency cfg" "cf_clients cfg \<le> cf_indexLimit cfg"
      "0 \<le> cf_indexLimit cfg"
  shows "harness_ok cfg h"
  using s
proof (cases rule: harness_start.cases)
  case (no_clients fl w stop h' sysNs steadyNs)
  have f: "fresh_state cfg h'" by (rule setup_fresh [OF no_clients(2) cfg(1)])
  have "crew_ok cfg (start_mark h')" by (rule crew_frame [of cfg h']) (use f in \<open>simp_all add: fresh_state_def start_mark_def gauges_same_def\<close>)
  moreover have "books_ok cfg (start_mark h')" using f cfg
    by (auto simp: fresh_state_def books_ok_def start_mark_def population_def queued_def add_ok_def markRunStarted_def roster_ok_def)
  ultimately show ?thesis unfolding no_clients(1) by (intro finish_keeps) (simp add: harness_ok_def)
next
  case (provisioned fl w stop h' p creds stop' p' sysNs steadyNs rampStart)
  have f: "fresh_state cfg h'" by (rule setup_fresh [OF provisioned(2) cfg(1)])
  then have "roster_ok p" using provisioned(4) by (auto simp: fresh_state_def)
  note all = provisions_all [OF provisioned(5) this cfg(3) provisioned(6)]
  define v where "v = start_mark (h'\<lparr>hn_provisioner := Some p', hn_externalStop := stop', hn_used := int (length creds)\<rparr>)"
  have v: "crew_ok cfg v" by (rule crew_frame [of cfg h']) (use f in \<open>simp_all add: fresh_state_def v_def start_mark_def gauges_same_def\<close>)
  have creds: "map cr_index creds = map (\<lambda>i. cf_indexBase cfg + int i) [0..<length creds]"
    by (rule nth_equalityI) (use all in simp_all)
  have set: "set (map cr_index creds) = {cf_indexBase cfg..<cf_indexBase cfg + int (length creds)}"
    unfolding creds by (auto simp: image_iff intro!: bexI [of _ "nat (x - cf_indexBase cfg)" for x])
  have "distinct (map cr_index creds)" unfolding creds by (simp add: distinct_map inj_on_def)
  then have pop: "mset (map cr_index creds) = mset_set {cf_indexBase cfg..<cf_indexBase cfg + int (length creds)}"
    by (simp add: set [symmetric] mset_set_set del: set_map)
  have "\<forall>c \<in> set creds. 0 \<le> cr_index c" using all cfg(2) by (auto simp: in_set_conv_nth)
  note d = distribute_keeps [OF v cfg(1) this, of rampStart]
  have "books_ok cfg (distribute cfg rampStart creds v)"
    using d f all cfg(4,5) pop
    by (simp add: books_ok_def add_ok_def queued_def) (auto simp: v_def start_mark_def fresh_state_def population_def markRunStarted_def roster_ok_def)
  then have "harness_ok cfg (distribute cfg rampStart creds v)" using d(1) by (simp add: harness_ok_def)
  moreover have "start_population cfg rampStart creds (h'\<lparr>hn_provisioner := Some p', hn_externalStop := stop'\<rparr>) =
      distribute cfg rampStart creds v"
    by (simp add: start_population_def v_def)
  ultimately show ?thesis unfolding provisioned(1) by (intro finish_keeps) simp
qed simp_all

section \<open>Reachable states\<close>

lemma observe_end_keeps:
  assumes ok: "harness_ok cfg h" and e: "observeEndOfRun cfg writable h = Some h'"
  shows "harness_ok cfg h'"
proof (cases "h' = h")
  case False
  with e obtain p l q where p: "hn_provisioner h = Some p" "observeReplayLogging cfg p = Some (l, q)"
    and h': "h' = recordReplayLoggingAtEnd cfg writable l (h\<lparr>hn_endObserved := True, hn_provisioner := Some q\<rparr>)"
    by (auto simp: observeEndOfRun_def split: option.splits if_splits)
  have "roster_ok q" using ok p observe_roster [OF p(2)] by (auto simp: harness_ok_def books_ok_def intro: roster_ok_same)
  then show ?thesis
    by (intro harness_frame [OF ok, of h' q]) (simp_all add: h' recordReplayLoggingAtEnd_def writeRungFile_def gauges_same_def Let_def)
qed (use ok in simp)

lemma harness_step_ok:
  assumes step: "harness_step hm at2 cfg h h'" and ok: "harness_ok cfg h"
    and cfg: "1 \<le> cf_threads cfg" "0 \<le> cf_indexBase cfg" "1 \<le> cf_provisionConcurrency cfg"
  shows "harness_ok cfg h'"
  using step
proof (cases rule: harness_step.cases)
  case (tick i tk w) then show ?thesis using tick_keeps [OF ok] by simp
next
  case take then show ?thesis using take_keeps [OF ok] by simp
next
  case (answer req p down w) then show ?thesis using post_keeps [OF ok] by simp
next
  case (request_add n e) then show ?thesis using request_add_keeps [OF ok] by simp
next
  case (begin_add n g p) then show ?thesis using begin_keeps [OF ok] cfg by simp
next
  case (provision n g r p r') then show ?thesis using provision_keeps [OF ok] by simp
next
  case (join_add n g r p rampStart) then show ?thesis using join_keeps [OF ok] by simp
next
  case (queue_add n t creds i) then show ?thesis using queue_keeps [OF ok] cfg by simp
next
  case (end_add n t creds) then show ?thesis using done_keeps [OF ok] by simp
next
  case (open_rung sysNs steadyNs rung e)
  then show ?thesis
    by (intro harness_frame_same [OF ok]) (auto simp: openRung_def on_hstats_def gauges_same_def markWindow_def split: if_splits)
next
  case (close_rung steadyNs writable body)
  then show ?thesis
    by (intro harness_frame_same [OF ok])
       (auto simp: closeRung_def writeRungFile_def gauges_same_def Let_def split: if_splits sum.splits)
next
  case (report now sysNs later rp ro rp' st)
  then show ?thesis by (intro harness_frame_same [OF ok]) (auto simp: reporter_turn_def setInterval_def gauges_same_def Let_def)
next
  case (observe_end writable) then show ?thesis using observe_end_keeps [OF ok] by simp
next
  case (finish_stop writable lines)
  then show ?thesis using observe_end_keeps [OF ok] by (auto simp: stop_finish_def Let_def split: option.splits prod.splits)
qed (auto intro!: harness_frame_same [OF ok] simp: requestShutdown_def stop_begin_def queue_shutdown_def gauges_same_def)

lemma harness_reachable_ok:
  assumes "(harness_step hm at2 cfg)\<^sup>*\<^sup>* h0 h" "harness_ok cfg h0"
    and "1 \<le> cf_threads cfg" "0 \<le> cf_indexBase cfg" "1 \<le> cf_provisionConcurrency cfg"
  shows "harness_ok cfg h"
  using assms(1,2) by (induction rule: rtranclp_induct) (auto intro: harness_step_ok [OF _ _ assms(3-5)])

section \<open>What a control request costs\<close>

definition costs :: "nat \<Rightarrow> (Provisioner, 'a) io \<Rightarrow> bool" where
  "costs n m \<longleftrightarrow> (\<forall>p r p'. m p = (r, p') \<longrightarrow> length (wo_sent (pv_world p')) \<le> length (wo_sent (pv_world p)) + n)"

lemma costsD: "costs n m \<Longrightarrow> m p = (r, p') \<Longrightarrow> length (wo_sent (pv_world p')) \<le> length (wo_sent (pv_world p)) + n"
  by (simp add: costs_def)

lemma costs_pure: "costs n (io_ok x)" "costs n (io_of y)" "costs n (io_throw e)" "costs n (\<lambda>p. (f p, p))"
  by (auto simp: costs_def io_throw_def)

lemma costs_bind: "costs a m \<Longrightarrow> (\<And>x. costs b (f x)) \<Longrightarrow> costs (a + b) (io_bind m f)"
  unfolding costs_def io_bind_def by (fastforce split: prod.splits sum.splits)

lemma costs_catch: "costs a m \<Longrightarrow> (\<And>e. costs b (g e)) \<Longrightarrow> costs (a + b) (io_catch m g)"
  unfolding costs_def io_catch_def by (fastforce split: prod.splits sum.splits if_splits)

lemma costs_request: "costs 3 (requestWithRetry url q v b no_stop hs)"
  unfolding costs_def using retry_answer(3,4) by fastforce

lemma costs_placed: "costs 0 (placed cfg s c)"
  by (simp add: costs_def placed_def)

lemma costs_assign: "costs 3 (assignServer cfg c)"
proof -
  have "costs (3 + (0 + 0)) (assignServer cfg c)" unfolding assignServer_def
    by (intro costs_bind costs_request costs_placed costs_pure)
  then show ?thesis by simp
qed

lemma costs_refresh: "costs 6 (refreshToken cfg url c)"
proof -
  let ?legacy = "requestWithRetry url LEGACY_REFRESH_MUTATION (JObj []) (cr_appToken c) no_stop []"
  have l: "costs 3 (\<lambda>p. ?legacy (p\<lparr>pv_legacyRefresh := True\<rparr>))"
    using costsD [OF costs_request] by (fastforce simp: costs_def)
  have "costs (3 + 3) (io_catch (requestWithRetry url REFRESH_MUTATION (refresh_vars c) (cr_appToken c) no_stop [])
     (\<lambda>e. if isTransport e \<or> \<not> mentions_currentServer (what_of e) then io_throw e else (\<lambda>p. ?legacy (p\<lparr>pv_legacyRefresh := True\<rparr>))))"
    by (rule costs_catch [OF costs_request]) (simp add: l costs_pure)
  then have data: "costs 6 (refresh_data url c)"
    using costsD [OF costs_request] by (fastforce simp: costs_def refresh_data_def Let_def split: if_splits)
  have "costs (6 + (0 + (0 + (0 + 0)))) (refreshToken cfg url c)" unfolding refreshToken_def
    by (intro costs_bind data costs_pure) (auto intro!: costs_bind [of 0 _ 0, simplified] costs_placed costs_pure split: option.split json.split)
  then show ?thesis by simp
qed

lemma costs_attempts: "k \<le> 15 \<Longrightarrow> costs (3 * (16 - k)) (assign_attempts cfg down k c)"
proof (induction "15 - k" arbitrary: k)
  case 0
  then have k: "k = 15" by simp
  have "assign_attempts cfg down k c p = assignServer cfg c p" for p
    unfolding k by (subst assign_attempts.simps) (simp split: prod.splits sum.splits)
  then show ?case using costs_assign [of cfg c] by (simp add: costs_def k)
next
  case (Suc n)
  show ?case unfolding costs_def
  proof (intro allI impI)
    fix p r p' assume a: "assign_attempts cfg down k c p = (r, p')"
    obtain x q where s: "assignServer cfg c p = (x, q)" by fastforce
    have q: "length (wo_sent (pv_world q)) \<le> length (wo_sent (pv_world p)) + 3" by (rule costsD [OF costs_assign s])
    show "length (wo_sent (pv_world p')) \<le> length (wo_sent (pv_world p)) + 3 * (16 - k)"
    proof (cases "p' = q")
      case True
      then show ?thesis using q Suc.hyps(2) by simp
    next
      case False
      then have "assign_attempts cfg down (k + 1) c q = (r, p')"
        using a s by (auto simp: assign_attempts.simps [of _ _ k] split: sum.splits if_splits)
      from costsD [OF Suc.hyps(1) this] Suc.hyps(2)
      have "length (wo_sent (pv_world p')) \<le> length (wo_sent (pv_world q)) + 3 * (15 - k)" by simp
      with q Suc.hyps(2) show ?thesis by linarith
    qed
  qed
qed

lemma control_cost:
  assumes "control_work cfg down kind c st p = (r, st', p')"
  shows "length (wo_sent (pv_world p')) \<le> length (wo_sent (pv_world p)) + (if kind = REFRESH then 51 else 45)"
proof -
  obtain y s q where x: "(if kind = REFRESH then control_refresh cfg c st p else (Inr (False, c), st, p)) = (y, s, q)"
    by (metis surj_pair)
  have one: "length (wo_sent (pv_world q)) \<le> length (wo_sent (pv_world p)) + (if kind = REFRESH then 6 else 0)"
    using x by (auto simp: control_refresh_def Let_def split: if_splits prod.splits sum.splits dest!: costsD [OF costs_refresh])
  have two: "length (wo_sent (pv_world p')) \<le> length (wo_sent (pv_world q)) + 45"
    if "control_place cfg down kind k d s q = (r, st', p')" for k d
    using that by (auto simp: control_place_def Let_def split: if_splits prod.splits sum.splits dest!: costsD [OF costs_attempts [of 1, simplified]])
  have "(\<exists>e. y = Inl e \<and> p' = q) \<or> (\<exists>k d. control_place cfg down kind k d s q = (r, st', p'))"
    using assms x by (auto simp: control_work_def split: sum.splits prod.splits)
  then have "length (wo_sent (pv_world p')) \<le> length (wo_sent (pv_world q)) + 45" using two by auto
  with one show ?thesis by (auto split: if_splits)
qed

section \<open>A run to look at\<close>

lemma roster_valid: "validate roster_config = Inr []"
  using sample_valid sample_bind
  by (auto simp: validate_empty validate_ranges_empty validate_bind_empty roster_config_def sample_config_def needsPassword_def
      ControlBind_init_def Config_init_def)

text \<open>What only talks to the services changes nothing else.\<close>

definition only_world :: "Provisioner \<Rightarrow> Provisioner \<Rightarrow> bool" where
  "only_world p p' \<longleftrightarrow> p' = p\<lparr>pv_world := pv_world p'\<rparr>"

interpretation talk: frame_relation only_world
proof
  show "only_world p p" for p by (simp add: only_world_def)
  show "only_world p q \<Longrightarrow> only_world q r \<Longrightarrow> only_world p r" for p q r
    by (cases p; cases q; cases r) (simp add: only_world_def)
qed

lemma talk_read: "framed only_world (io_bind (login cfg e) (\<lambda>session.
    io_bind (requestWithRetry url q v session no_stop hs) (\<lambda>data. io_of (f data))))"
proof -
  have "framed only_world (send url q v b hs)" for url q v b hs
    by (auto simp: framed_def send_alt only_world_def)
  then show ?thesis unfolding login_def requestWithRetry_def
    by (intro talk.framed_bind talk.framed_retry talk.framed_pure)
qed

lemma read_silent:
  "\<exists>q. readReplayLogging cfg (sample_provisioner []) = (Inr None, q) \<and> only_world (sample_provisioner []) q"
proof -
  let ?p = "sample_provisioner []"
  let ?m = "io_bind (login cfg (cf_email cfg)) (\<lambda>session.
     io_bind (requestWithRetry (cf_managementApiUrl cfg) READ_REPLAY_LOGGING_QUERY (JObj (app_vars cfg)) session no_stop [])
       (\<lambda>data. io_of (read_app data)))"
  let ?l = "requestWithRetry (cf_managementApiUrl cfg) LOGIN_MUTATION
     (creds_input (cf_email cfg) (cf_password cfg)) [] no_stop []"
  obtain r q where l: "?l ?p = (r, q)" by fastforce
  from retry_answer(1) [OF l] have "r = Inl (GraphQLError CurlFailed [] True)"
    by (simp add: sample_provisioner_def Provisioner_init_def sample_world_def interpret_answer_def)
  then have m: "?m ?p = (Inl (GraphQLError CurlFailed [] True), q)" using l by (simp add: login_def io_bind_def)
  then show ?thesis using framedD [OF talk_read m] by (simp add: readReplayLogging_def)
qed

text \<open>A generator started with one client from the roster.\<close>

lemma roster_start:
  "\<exists>h. harness_start roster_config new_harness True h \<and> \<not> hn_busy h \<and> hn_used h = 1 \<and> hn_adding h = NoAdd \<and>
     (\<exists>p. hn_provisioner h = Some p \<and> dom (pv_roster p) = {0}) \<and> hn_started h \<and> hn_running h \<and> hn_control h = None \<and> cq_queue (hn_controlQueue h) = []"
proof -
  obtain q where q: "readReplayLogging roster_config (sample_provisioner []) = (Inr None, q)"
    "only_world (sample_provisioner []) q" using read_silent [of roster_config] by blast
  have leave: "cf_replayLogging roster_config = ''leave''" by (simp add: roster_config_def sample_config_def Config_init_def)
  have "\<exists>h. start_setup roster_config (RosterDoc sample_doc) (sample_world []) False new_harness = Some (True, h) \<and>
      hn_provisioner h = Some q \<and> \<not> hn_busy h \<and> hn_adding h = NoAdd \<and> hn_control h = None \<and> cq_queue (hn_controlQueue h) = []"
    using q(1) by (simp add: start_setup_def Let_def sample_roster_load start_replay_def observeReplayLogging_def new_harness_def leave)
  then obtain h where h: "start_setup roster_config (RosterDoc sample_doc) (sample_world []) False new_harness = Some (True, h)"
    "hn_provisioner h = Some q" "\<not> hn_busy h" "hn_adding h = NoAdd" "hn_control h = None" "cq_queue (hn_controlQueue h) = []" by blast
  obtain w where w: "q = (sample_provisioner [])\<lparr>pv_world := w\<rparr>" using q(2) unfolding only_world_def by blast
  have "q\<lparr>pv_world := sample_world sample_place\<rparr> = sample_provisioner sample_place"
    by (simp add: w sample_provisioner_def Provisioner_init_def)
  from roster_run [OF this] obtain r where r: "(range_step roster_config 0 1)\<^sup>*\<^sup>* (range_start roster_config 1 False q) r"
    "joined r" "range_result r \<noteq> []" "roster_same q (rg_prov r)" by blast
  have "pv_roster q 0 \<noteq> None" by (simp add: w sample_provisioner_def)
  then have "\<not> range_refused roster_config 0 1 q" by (simp add: range_refused_def covered_def)
  from provisions.joined [OF this r(1,2)]
  have p: "provisions roster_config 0 1 False q (range_result r) (rg_stop r) (rg_prov r)" .
  have "roster_ok q" using sample_roster_ok [of "[]"] by (simp add: w roster_ok_world)
  moreover have cfg: "1 \<le> cf_provisionConcurrency roster_config" "cf_indexBase roster_config = 0" "cf_clients roster_config = 1"
    by (simp_all add: roster_config_def sample_config_def Config_init_def)
  ultimately have n: "length (range_result r) = 1" using provisions_all [OF p _ _ r(3)] by simp
  define h1 where "h1 = h\<lparr>hn_provisioner := Some (rg_prov r), hn_externalStop := rg_stop r\<rparr>"
  have s: "harness_start roster_config new_harness True (start_finish 0 0 (start_population roster_config 0 (range_result r) h1))"
    unfolding h1_def by (rule harness_start.provisioned [OF h(1) _ h(2) _ r(3)]) (use p cfg in simp_all)
  have "hn_busy (distribute cfg t creds v) = hn_busy v \<and> hn_used (distribute cfg t creds v) = hn_used v \<and>
    hn_control (distribute cfg t creds v) = hn_control v \<and> hn_controlQueue (distribute cfg t creds v) = hn_controlQueue v \<and>
    hn_provisioner (distribute cfg t creds v) = hn_provisioner v \<and> hn_adding (distribute cfg t creds v) = hn_adding v" for cfg t creds v
    unfolding distribute_def
    by (rule fold_preserves [where P = "\<lambda>x. hn_busy x = hn_busy v \<and> hn_used x = hn_used v \<and> hn_control x = hn_control v \<and>
      hn_controlQueue x = hn_controlQueue v \<and> hn_provisioner x = hn_provisioner v \<and> hn_adding x = hn_adding v"]) auto
  then have "let h' = start_finish 0 0 (start_population roster_config 0 (range_result r) h1) in
     \<not> hn_busy h' \<and> hn_used h' = 1 \<and> hn_adding h' = NoAdd \<and> hn_provisioner h' = Some (markRunStarted (rg_prov r)) \<and>
     hn_started h' \<and> hn_running h' \<and> hn_control h' = None \<and> cq_queue (hn_controlQueue h') = []"
    using h n by (simp add: start_finish_def start_population_def start_mark_def h1_def on_hstats_def syncSignIn_def split: option.split)
  moreover have "dom (pv_roster (markRunStarted (rg_prov r))) = {0}"
    using r(4) by (simp add: roster_same_def markRunStarted_def w sample_provisioner_def)
  ultimately show ?thesis using s unfolding Let_def by blast
qed

section \<open>Properties\<close>

lemma valid_ranges:
  "validate cfg = Inr [] \<Longrightarrow> 1 \<le> cf_threads cfg \<and> 0 \<le> cf_indexBase cfg \<and> 1 \<le> cf_provisionConcurrency cfg \<and>
     cf_clients cfg \<le> cf_indexLimit cfg \<and> 0 \<le> cf_indexLimit cfg"
  by (simp add: validate_empty validate_ranges_empty)

lemma run_ok:
  assumes "validate cfg = Inr []" "harness_start cfg new_harness True h0" "(harness_step hm at2 cfg)\<^sup>*\<^sup>* h0 h"
  shows "harness_ok cfg h"
  using valid_ranges [OF assms(1)] start_ok [OF assms(2)] harness_reachable_ok [OF assms(3)] by simp

text \<open>
  C1. In every state a generator with an accepted configuration can reach, however its worker
  threads, the control thread, the add thread, the reporter and the control port interleave and
  whatever the services, the sockets and the clocks answer: the two gauges equal the numbers of
  active and suspended clients over all workers; the clients that workers hold or are about to
  take over are, each exactly once, those with the global indices from the base on, the count
  the harness reports as used plus those an add in flight has queued; each sits on the worker
  its index falls to; the limit is respected; and every request on its way and every posted
  update names an existing slot and carries the global index of the client in that slot.
\<close>

theorem population_accounted:
  assumes "validate cfg = Inr []" "harness_start cfg new_harness True h0" "(harness_step hm at2 cfg)\<^sup>*\<^sup>* h0 h"
  shows "st_activeClients (hn_stats h) = headcount ACTIVE h \<and> st_suspendedClients (hn_stats h) = headcount SUSPENDED h \<and>
     population h = mset_set {cf_indexBase cfg..<cf_indexBase cfg + hn_used h + queued h} \<and>
     (\<forall>i < length (hn_workers h). \<forall>x \<in># members (hn_workers h ! i). x mod cf_threads cfg = int i) \<and>
     hn_used h + queued h \<le> cf_indexLimit cfg \<and>
     (\<forall>r \<in> set (cq_queue (hn_controlQueue h)). request_ok h r) \<and>
     (\<forall>i < length (hn_workers h). \<forall>u \<in> set (wk_inbox (hn_workers h ! i)). update_names (ids (hn_workers h ! i)) u)"
proof -
  have ok: "crew_ok cfg h" "books_ok cfg h" using run_ok [OF assms] by (simp_all add: harness_ok_def)
  have m: "crew_member cfg i (hn_workers h ! i)" if "i < length (hn_workers h)" for i using ok(1) that by (simp only: crew_ok_def)
  have "hn_used h + queued h \<le> cf_indexLimit cfg"
    using ok(2) by (auto simp: books_ok_def add_ok_def queued_def claimed_def split: AddThread.splits)
  then show ?thesis using ok m by (simp add: crew_ok_def books_ok_def list_all_iff crew_member_def)
qed

theorem population_accounted_witness:
  "\<exists>h. hn_busy h \<and> population h = {#0#} \<and> st_activeClients (hn_stats h) = headcount ACTIVE h"
proof -
  obtain h0 where s: "harness_start roster_config new_harness True h0" "\<not> hn_busy h0" "hn_used h0 = 1" using roster_start by blast
  obtain h where r: "requestAdd roster_config 5 h0 = Some ([], h)" and h: "hn_busy h" "hn_used h = 1" "queued h = 0"
    using s(2,3) by (auto simp: requestAdd_def fits_int_def int_max_def roster_config_def sample_config_def queued_def Config_init_def)
  have step: "harness_step (\<lambda>k m. None) (\<lambda>x y. 0) roster_config h0 h" by (rule harness_step.request_add [OF r])
  have "{0..<1} = {0::int}" by auto
  moreover have "cf_indexBase roster_config = 0" by (simp add: roster_config_def sample_config_def Config_init_def)
  ultimately show ?thesis
    using population_accounted [OF roster_valid s(1) r_into_rtranclp [of "harness_step (\<lambda>k m. None) (\<lambda>x y. 0) roster_config", OF step]] h
    by (intro exI [of _ h]) simp
qed

section \<open>Helper facts\<close>

lemma states_partition:
  "count_state ACTIVE w + count_state SUSPENDED w + count_state WAITING w = int (length (wk_clients w))"
proof -
  have "int (length (filter (\<lambda>c. sc_state c = ACTIVE) cs)) + int (length (filter (\<lambda>c. sc_state c = SUSPENDED) cs)) +
     int (length (filter (\<lambda>c. sc_state c = WAITING) cs)) = int (length cs)" for cs
  proof (induction cs)
    case (Cons c cs)
    then show ?case by (cases "sc_state c") simp_all
  qed simp
  then show ?thesis by (simp add: count_state_def)
qed

definition arriving :: "Harness \<Rightarrow> int" where
  "arriving h = sum_list (map (\<lambda>w. int (length (wk_pending w))) (hn_workers h))"

lemma size_population:
  "int (size (population h)) = headcount ACTIVE h + headcount SUSPENDED h + headcount WAITING h + arriving h"
proof -
  have "int (size (sum_list (map members ws))) = sum_list (map (count_state ACTIVE) ws) + sum_list (map (count_state SUSPENDED) ws) +
     sum_list (map (count_state WAITING) ws) + sum_list (map (\<lambda>w. int (length (wk_pending w))) ws)" for ws
    by (induction ws) (simp_all add: members_def ids_def waiting_ids_def states_partition [symmetric])
  then show ?thesis by (simp add: population_def headcount_def arriving_def)
qed

lemma sync_frame [simp]:
  "hn_busy (syncSignIn h) = hn_busy h" "hn_used (syncSignIn h) = hn_used h" "hn_addError (syncSignIn h) = hn_addError h"
  "hn_adding (syncSignIn h) = hn_adding h" "hn_workers (syncSignIn h) = hn_workers h" "hn_running (syncSignIn h) = hn_running h"
  "hn_controlQueue (syncSignIn h) = hn_controlQueue h" "hn_control (syncSignIn h) = hn_control h"
  by (simp_all add: syncSignIn_def on_hstats_def split: option.split)

lemma step_books:
  assumes "harness_step hm at2 cfg h h'"
  shows "hn_busy h' = hn_busy h \<and> hn_used h' = hn_used h \<or> \<not> hn_busy h \<and> hn_busy h' \<and> hn_used h' = hn_used h \<or>
    \<not> hn_busy h' \<and> hn_used h' = hn_used h \<and> hn_addError h' \<noteq> [] \<and> queued h' = 0 \<or>
    (\<exists>n t creds. hn_adding h = Queueing n t creds (length creds) \<and> h' = add_done n h)"
proof -
  have f: "\<not> hn_busy (add_failed h) \<and> hn_used (add_failed h) = hn_used h \<and> hn_addError (add_failed h) \<noteq> [] \<and> queued (add_failed h) = 0"
    by (simp add: add_failed_def queued_def)
  have w: "hn_busy (recordReplayLoggingAtEnd cfg wr l v) = hn_busy v" "hn_used (recordReplayLoggingAtEnd cfg wr l v) = hn_used v" for wr l v
    by (simp_all add: recordReplayLoggingAtEnd_def writeRungFile_def Let_def)
  have e: "hn_busy v = hn_busy h \<and> hn_used v = hn_used h" if "observeEndOfRun cfg wr h = Some v" for wr v
    using that by (auto simp: observeEndOfRun_def w split: option.splits if_splits)
  from assms show ?thesis
  proof (cases rule: harness_step.cases)
    case (answer req p down w)
    then show ?thesis by (auto simp: control_post_def Let_def split: option.splits)
  next
    case (begin_add n g p)
    then show ?thesis using f by (auto simp: add_begin_def)
  next
    case (join_add n g r p t)
    then show ?thesis using f by (auto simp: add_joined_def)
  next
    case (finish_stop wr lines)
    then show ?thesis using e by (fastforce simp: stop_finish_def Let_def split: option.splits prod.splits)
  qed (auto simp: control_take_def requestAdd_def put_range_def add_one_def openRung_def closeRung_def writeRungFile_def
      on_hstats_def requestShutdown_def stop_begin_def Let_def split: pop_result.splits if_splits sum.splits dest: e)
qed

lemma done_books:
  "hn_used (add_done n h) = hn_used h + n" "\<not> hn_busy (add_done n h)" "hn_addError (add_done n h) = []" "queued (add_done n h) = 0"
  by (simp_all add: add_done_def syncSignIn_def on_hstats_def queued_def split: option.splits)

text \<open>What the control thread still has to do, and what it owes: requests not yet answered, updates not yet applied.\<close>

definition backlog :: "Harness \<Rightarrow> nat" where
  "backlog h = 2 * length (cq_queue (hn_controlQueue h)) + (if hn_control h = None then 0 else 1)"

definition owed :: "Harness \<Rightarrow> nat" where
  "owed h = length (cq_queue (hn_controlQueue h)) + (if hn_control h = None then 0 else 1) +
     sum_list (map (\<lambda>w. length (wk_inbox w)) (hn_workers h))"

lemma take_moves:
  assumes "control_take h = Some h'" "hn_control h = None"
  shows "backlog h' < backlog h" "owed h' = owed h" "hn_running h' = hn_running h"
  using assms by (auto simp: control_take_def backlog_def owed_def queue_pop_Popped split: pop_result.splits)

lemma post_moves:
  assumes c: "control_post cfg down req p h = Some h'" and r: "hn_control h = Some req" "request_ok h req"
  shows "backlog h' < backlog h" "owed h' = owed h" "hn_running h' = hn_running h"
proof -
  let ?i = "nat (rq_workerIndex req)"
  from c obtain u st q where h': "h' = put_worker ?i (postUpdate u (worker_of ?i (h\<lparr>hn_stats := st, hn_provisioner := Some q, hn_control := None\<rparr>)))
        (h\<lparr>hn_stats := st, hn_provisioner := Some q, hn_control := None\<rparr>)"
    by (auto simp: control_post_def Let_def split: option.splits)
  have i: "?i < length (hn_workers h)" using r(2) by (simp add: request_ok_def)
  show "backlog h' < backlog h" "hn_running h' = hn_running h" using r(1) by (simp_all add: h' backlog_def postUpdate_def)
  let ?w = "postUpdate u (worker_of ?i (h\<lparr>hn_stats := st, hn_provisioner := Some q, hn_control := None\<rparr>))"
  have "wk_inbox ?w = wk_inbox (hn_workers h ! ?i) @ [u]" by (simp add: postUpdate_def)
  with sum_list_replace [OF i, of "\<lambda>w. length (wk_inbox w)" ?w] show "owed h' = owed h"
    using r(1) by (simp add: h' owed_def) (simp add: postUpdate_def)
qed

text \<open>Steps that leave the control thread's work alone.\<close>

definition same_work :: "Harness \<Rightarrow> Harness \<Rightarrow> bool" where
  "same_work h h' \<longleftrightarrow> backlog h' = backlog h \<and> owed h' = owed h \<and> (hn_running h' \<longrightarrow> hn_running h)"

lemma same_workI:
  "hn_workers h' = hn_workers h \<Longrightarrow> cq_queue (hn_controlQueue h') = cq_queue (hn_controlQueue h) \<Longrightarrow>
     hn_control h' = hn_control h \<Longrightarrow> (hn_running h' \<Longrightarrow> hn_running h) \<Longrightarrow> same_work h h'"
  by (auto simp: same_work_def backlog_def owed_def)

lemma add_one_work: "crew_ok cfg h \<Longrightarrow> 1 \<le> cf_threads cfg \<Longrightarrow> 0 \<le> cr_index (creds ! i) \<Longrightarrow> same_work h (add_one cfg n t creds i h)"
proof -
  assume ok: "crew_ok cfg h" and cfg: "1 \<le> cf_threads cfg" and c: "0 \<le> cr_index (creds ! i)"
  let ?k = "worker_index cfg (creds ! i)"
  have "int ?k < int (length (hn_workers h))"
    using worker_index_mod [OF c cfg] cfg ok pos_mod_bound [of "cf_threads cfg" "cr_index (creds ! i)"] by (simp add: crew_ok_def)
  then have k: "?k < length (hn_workers h)" by simp
  let ?w = "addClient (creds ! i) (t + int i div cf_rampBatchSize cfg * cf_rampIntervalMs cfg * 1000000) (worker_of ?k h)"
  have "sum_list (map (\<lambda>w. length (wk_inbox w)) ((hn_workers h)[?k := ?w])) = sum_list (map (\<lambda>w. length (wk_inbox w)) (hn_workers h))"
    using sum_list_replace [OF k, of "\<lambda>w. length (wk_inbox w)" ?w] by (simp add: addClient_def)
  then show ?thesis by (simp add: same_work_def backlog_def owed_def add_one_def distribute_one_def Let_def) (simp add: addClient_def)
qed

lemma observe_work: "observeEndOfRun cfg wr h = Some h' \<Longrightarrow> same_work h h'"
  by (rule same_workI) (auto simp: observeEndOfRun_def recordReplayLoggingAtEnd_def writeRungFile_def Let_def split: option.splits if_splits)

lemma stopped_step:
  assumes step: "harness_step hm at2 cfg h h'" and ok: "harness_ok cfg h" and stop: "\<not> hn_running h"
    and cfg: "1 \<le> cf_threads cfg" "0 \<le> cf_indexBase cfg"
  shows "\<not> hn_running h' \<and> owed h' = owed h \<and> backlog h' \<le> backlog h"
proof -
  have quiet: ?thesis if "same_work h h'" using that stop by (simp add: same_work_def)
  from step show ?thesis
  proof (cases rule: harness_step.cases)
    case take
    then show ?thesis using take_moves [of h h'] stop by simp
  next
    case (answer req p down w)
    moreover have "request_ok h req" using ok answer by (simp add: harness_ok_def crew_ok_def)
    ultimately show ?thesis using post_moves [of cfg down req "p\<lparr>pv_world := w\<rparr>" h h'] stop by simp
  next
    case (queue_add n t creds i)
    then have "cr_index (creds ! i) = cf_indexBase cfg + hn_used h + int i" "0 \<le> hn_used h"
      using ok by (simp_all add: harness_ok_def books_ok_def add_ok_def)
    then show ?thesis using add_one_work [of cfg h creds i n t] ok queue_add cfg by (intro quiet) (simp add: harness_ok_def)
  next
    case (finish_stop wr lines)
    then show ?thesis using observe_work [of cfg wr h] by (intro quiet) (auto simp: stop_finish_def Let_def split: option.splits prod.splits)
  next
    case (observe_end wr)
    then show ?thesis using observe_work by (intro quiet)
  qed (use stop in \<open>auto simp: backlog_def owed_def requestAdd_def add_begin_def add_failed_def put_range_def add_joined_def add_done_def
      openRung_def closeRung_def writeRungFile_def on_hstats_def requestShutdown_def stop_begin_def queue_shutdown_def Let_def
      split: if_splits sum.splits\<close>)
qed

text \<open>
  C28. While no add is in flight, the status document is exact: \<^verbatim>\<open>active\<close>, \<^verbatim>\<open>suspended\<close> and
  \<^verbatim>\<open>waiting\<close> are the numbers of clients in those states over all workers, waiting ones
  including those a worker has yet to take over, and they add up to \<^verbatim>\<open>used\<close>. The clamping of
  a negative \<^verbatim>\<open>waiting\<close> to zero never applies then.
\<close>

theorem status_exact:
  assumes "validate cfg = Inr []" "harness_start cfg new_harness True h0" "(harness_step hm at2 cfg)\<^sup>*\<^sup>* h0 h" "\<not> hn_busy h"
  shows "jlookup (statusJson cfg h) ''active'' = Some (jint (headcount ACTIVE h)) \<and>
     jlookup (statusJson cfg h) ''suspended'' = Some (jint (headcount SUSPENDED h)) \<and>
     jlookup (statusJson cfg h) ''waiting'' = Some (jint (headcount WAITING h + arriving h)) \<and>
     jlookup (statusJson cfg h) ''used'' = Some (jint (headcount ACTIVE h + headcount SUSPENDED h + headcount WAITING h + arriving h))"
proof -
  have ok: "crew_ok cfg h" "books_ok cfg h" using run_ok [OF assms(1-3)] by (simp_all add: harness_ok_def)
  have "queued h = 0" using not_busy_idle [OF ok(2) assms(4)] by (simp add: queued_def)
  then have "population h = mset_set {cf_indexBase cfg..<cf_indexBase cfg + hn_used h}" "0 \<le> hn_used h"
    using ok(2) by (simp_all add: books_ok_def)
  then have u: "hn_used h = headcount ACTIVE h + headcount SUSPENDED h + headcount WAITING h + arriving h"
    using size_population [of h] by simp
  have "0 \<le> headcount WAITING h" "0 \<le> arriving h"
    by (auto simp: headcount_def arriving_def count_state_def intro!: sum_list_nonneg)
  then show ?thesis using ok(1) u by (simp add: statusJson_def crew_ok_def Let_def)
qed

theorem status_exact_witness:
  "\<exists>h. hn_used h = 1 \<and> jlookup (statusJson roster_config h) ''waiting'' = Some (jint (headcount WAITING h + arriving h)) \<and>
     jlookup (statusJson roster_config h) ''used'' = Some (jint (headcount ACTIVE h + headcount SUSPENDED h + headcount WAITING h + arriving h))"
proof -
  obtain h where s: "harness_start roster_config new_harness True h" "\<not> hn_busy h" "hn_used h = 1" using roster_start by blast
  from status_exact [OF roster_valid s(1) rtranclp.rtrancl_refl s(2)] s(3) show ?thesis by blast
qed

text \<open>
  C9. An add is all or nothing, and the count of used clients moves at no other time. When the add in flight ends, either
  the whole range was provisioned, every client of it queued onto its worker, the count raised
  by exactly the number requested and the error cleared, or nothing was queued, the count is
  unchanged and an error is reported.
\<close>

theorem add_all_or_nothing:
  assumes "validate cfg = Inr []" "harness_start cfg new_harness True h0" "(harness_step hm at2 cfg)\<^sup>*\<^sup>* h0 h"
    and "harness_step hm at2 cfg h h'"
  shows "(hn_used h' \<noteq> hn_used h \<longrightarrow> hn_busy h \<and> \<not> hn_busy h') \<and>
     (hn_busy h \<and> \<not> hn_busy h' \<longrightarrow>
       (\<exists>n. 1 \<le> n \<and> hn_used h' = hn_used h + n \<and> hn_addError h' = [] \<and>
          population h' = mset_set {cf_indexBase cfg..<cf_indexBase cfg + hn_used h + n}) \<or>
       hn_used h' = hn_used h \<and> hn_addError h' \<noteq> [] \<and>
          population h' = mset_set {cf_indexBase cfg..<cf_indexBase cfg + hn_used h})"
proof -
  have ok: "books_ok cfg h" using run_ok [OF assms(1-3)] by (simp add: harness_ok_def)
  have ok': "population h' = mset_set {cf_indexBase cfg..<cf_indexBase cfg + hn_used h' + queued h'}"
    using run_ok [OF assms(1,2) rtranclp.rtrancl_into_rtrancl [OF assms(3,4)]] by (simp add: harness_ok_def books_ok_def)
  consider (same) "hn_busy h' = hn_busy h" "hn_used h' = hn_used h" | (begins) "\<not> hn_busy h" "hn_used h' = hn_used h"
    | (fails) "\<not> hn_busy h'" "hn_used h' = hn_used h" "hn_addError h' \<noteq> []" "queued h' = 0"
    | (ends) n t creds where "hn_adding h = Queueing n t creds (length creds)" "h' = add_done n h"
    using step_books [OF assms(4)] by blast
  then show ?thesis
  proof cases
    case ends
    then have "claimed cfg n h" using ok by (simp add: books_ok_def add_ok_def)
    then show ?thesis using ends ok' done_books [of n h] by (auto simp: claimed_def add.assoc)
  qed (use ok' in auto)
qed

theorem add_all_or_nothing_witness:
  "\<exists>(h :: Harness) h'. hn_busy h \<and> \<not> hn_busy h' \<and> hn_addError h' \<noteq> [] \<and> population h' = {#0#}"
proof -
  let ?step = "harness_step (\<lambda>k m. None) (\<lambda>x y. 0) roster_config"
  have cfg: "cf_indexBase roster_config = 0" "cf_indexLimit roster_config = 25" "cf_rosterFile roster_config \<noteq> []" "cf_rosterRequired roster_config"
    by (simp_all add: roster_config_def sample_config_def Config_init_def)
  obtain h0 p where s: "harness_start roster_config new_harness True h0" "\<not> hn_busy h0" "hn_used h0 = 1"
    "hn_provisioner h0 = Some p" "dom (pv_roster p) = {0}" using roster_start by blast
  obtain h where r: "requestAdd roster_config 5 h0 = Some ([], h)" and h: "hn_busy h" "hn_used h = 1" "hn_adding h = Starting 5 1" "hn_provisioner h = Some p"
    using s by (auto simp: requestAdd_def fits_int_def int_max_def cfg)
  have step: "?step h0 h" by (rule harness_step.request_add [OF r])
  have step': "?step h (add_begin roster_config 5 1 p h)" by (rule harness_step.begin_add [OF h(3,4)])
  have "pv_roster p i = None" if "i \<noteq> 0" for i using s(5) that by (metis domIff singletonD)
  then have "covered 1 5 p = 0" by (auto simp: covered_def filter_empty_conv)
  then have "\<not> hn_busy (add_begin roster_config 5 1 p h) \<and> hn_used (add_begin roster_config 5 1 p h) = 1"
    using cfg h(2) by (simp add: add_begin_def range_refused_def add_failed_def)
  moreover have "{0..<1} = {0::int}" by auto
  ultimately have "hn_busy h \<and> \<not> hn_busy (add_begin roster_config 5 1 p h) \<and>
     hn_addError (add_begin roster_config 5 1 p h) \<noteq> [] \<and> population (add_begin roster_config 5 1 p h) = {#0#}"
    using add_all_or_nothing [OF roster_valid s(1) r_into_rtranclp [of ?step, OF step] step'] h cfg by auto
  then show ?thesis by blast
qed

text \<open>
  What an add request is answered. It is accepted exactly when the count is positive, no add
  runs, and the range stays within the limit (and within \<^verbatim>\<open>int\<close>); accepting claims the next
  global indices and clears the last error. A refusal changes nothing. A count that drives
  \<^verbatim>\<open>used_ + count\<close> past the largest \<^verbatim>\<open>int\<close> reaches the comparison as a signed overflow, which
  the language leaves undefined: with any client in use, the largest \<^verbatim>\<open>int\<close> does.
\<close>

theorem add_admission:
  "(requestAdd cfg n h = Some ([], h') \<longleftrightarrow>
      1 \<le> n \<and> \<not> hn_busy h \<and> fits_int (hn_used h + n) \<and> hn_used h + n \<le> cf_indexLimit cfg \<and> fits_int (cf_indexBase cfg + hn_used h) \<and>
      h' = h\<lparr>hn_busy := True, hn_addError := [], hn_adding := Starting n (cf_indexBase cfg + hn_used h)\<rparr>) \<and>
   (\<forall>e. e \<noteq> [] \<and> requestAdd cfg n h = Some (e, h') \<longrightarrow> h' = h) \<and>
   (\<not> hn_busy h \<and> 1 \<le> hn_used h \<longrightarrow> requestAdd cfg int_max h = None)"
  by (auto simp: requestAdd_def fits_int_def int_max_def)

theorem add_admission_witness:
  "requestAdd sample_config int_max (new_harness\<lparr>hn_used := 1\<rparr>) = None \<and>
   requestAdd sample_config 0 new_harness = Some (''count must be >= 1'', new_harness)"
proof -
  have n: "\<not> hn_busy new_harness" by (simp add: new_harness_def)
  have "requestAdd sample_config 0 new_harness = Some (''count must be >= 1'', new_harness)" by (simp add: requestAdd_def)
  then show ?thesis using add_admission [of sample_config 0 "new_harness\<lparr>hn_used := 1\<rparr>" new_harness] n by simp
qed

lemma refresh_server:
  assumes "refreshToken cfg url c p = (Inr (False, c'), p')"
  shows "cr_serverIp4 c' = cr_serverIp4 c" "cr_serverPort c' = cr_serverPort c"
proof -
  from assms obtain fresh q d q' where d: "token_fields fresh q c = Inr d"
    and rest: "(case jlookup fresh ''authorizedServer'' of None \<Rightarrow> io_ok (False, d) | Some JNull \<Rightarrow> io_ok (False, d)
      | Some srv \<Rightarrow> io_bind (placed cfg srv d) (\<lambda>c. io_ok (True, c))) q' = (Inr (False, c'), p')"
    unfolding refreshToken_def by (auto simp: io_bind_Inr_iff)
  then have "c' = d" by (cases "jlookup fresh ''authorizedServer''"; cases "the (jlookup fresh ''authorizedServer'')") (auto simp: io_bind_Inr_iff)
  with token_fields_frame [OF d] show "cr_serverIp4 c' = cr_serverIp4 c" "cr_serverPort c' = cr_serverPort c" by simp_all
qed

lemma control_work_failed:
  "control_work cfg down kind c st p = (Inl e, s, q) \<Longrightarrow>
     st_controlFailures s = st_controlFailures st \<and> st_reassignments s = st_reassignments st"
  by (auto simp: control_work_def control_refresh_def control_place_def Let_def split: if_splits prod.splits sum.splits)

lemma control_work_done:
  assumes "control_work cfg down kind c st p = (Inr c', s, q)"
  shows "if kind = REFRESH then
      s = st\<lparr>st_tokenRefreshes := st_tokenRefreshes st + 1, st_refreshesKeptServer := st_refreshesKeptServer st + 1\<rparr> \<or>
      s = st\<lparr>st_tokenRefreshes := st_tokenRefreshes st + 1, st_reassignments := st_reassignments st +
         (if cr_serverIp4 c' \<noteq> cr_serverIp4 c \<or> cr_serverPort c' \<noteq> cr_serverPort c then 1 else 0)\<rparr>
    else s = st\<lparr>st_reassignments := st_reassignments st + 1\<rparr>"
proof (cases "kind = REFRESH")
  case False
  then show ?thesis using assms by (auto simp: control_work_def control_place_def Let_def split: prod.splits sum.splits)
next
  case True
  obtain x p1 where r: "refreshToken cfg (refresh_url cfg c) c p = (x, p1)" by fastforce
  with assms True obtain k d where x: "x = Inr (k, d)" by (auto simp: control_work_def control_refresh_def split: sum.splits)
  let ?s = "st\<lparr>st_tokenRefreshes := st_tokenRefreshes st + 1\<rparr>"
  have w: "control_place cfg down REFRESH k d (if k then ?s\<lparr>st_refreshesKeptServer := st_refreshesKeptServer ?s + 1\<rparr> else ?s) p1 = (Inr c', s, q)"
    using assms True r x by (simp add: control_work_def control_refresh_def Let_def)
  show ?thesis
  proof (cases k)
    case True
    then show ?thesis using w \<open>kind = REFRESH\<close> by (simp add: control_place_def)
  next
    case False
    then have same: "cr_serverIp4 d = cr_serverIp4 c" "cr_serverPort d = cr_serverPort c" using refresh_server r x by simp_all
    have "s = (if cr_serverIp4 c' \<noteq> cr_serverIp4 d \<or> cr_serverPort c' \<noteq> cr_serverPort d
        then ?s\<lparr>st_reassignments := st_reassignments ?s + 1\<rparr> else ?s)"
      using w False by (auto simp: control_place_def Let_def split: prod.splits sum.splits)
    then show ?thesis using \<open>kind = REFRESH\<close> by (simp add: same)
  qed
qed

text \<open>
  C13. Every request the control thread takes is answered by exactly one update, for the slot it
  came from and for the same client, at a cost of at most 45 requests to the services (51 for a
  refresh) and with the tallies moved as follows. A failure adds one to the failures and nothing
  to the reassignments. A reassignment that succeeds adds one to the reassignments only. A
  refresh that succeeds adds one to the refreshes, and either one to those that kept their
  server, or one to the reassignments exactly if the new placement differs from the one the
  client had.
\<close>

theorem control_exact:
  assumes "control_answer cfg down req st p = Some (u, st', p')"
  shows "cu_clientIndex u = rq_clientIndex req \<and> cr_index (cu_creds u) = cr_index (rq_creds req) \<and>
     length (wo_sent (pv_world p')) \<le> length (wo_sent (pv_world p)) + (if rq_kind req = REFRESH then 51 else 45) \<and>
     (cu_failed u \<longrightarrow> st_controlFailures st' = st_controlFailures st + 1 \<and> st_reassignments st' = st_reassignments st) \<and>
     (\<not> cu_failed u \<and> rq_kind req = REASSIGN \<longrightarrow> st' = st\<lparr>st_reassignments := st_reassignments st + 1\<rparr>) \<and>
     (\<not> cu_failed u \<and> rq_kind req = REFRESH \<longrightarrow>
        st' = st\<lparr>st_tokenRefreshes := st_tokenRefreshes st + 1, st_refreshesKeptServer := st_refreshesKeptServer st + 1\<rparr> \<or>
        st' = st\<lparr>st_tokenRefreshes := st_tokenRefreshes st + 1, st_reassignments := st_reassignments st +
           (if cr_serverIp4 (cu_creds u) \<noteq> cr_serverIp4 (rq_creds req) \<or> cr_serverPort (cu_creds u) \<noteq> cr_serverPort (rq_creds req)
            then 1 else 0)\<rparr>)"
proof -
  obtain r s q where w: "control_work cfg down (rq_kind req) (rq_creds req) st p = (r, s, q)" by (metis surj_pair)
  have q: "q = p'" and out: "(\<exists>e. r = Inl e \<and> cu_failed u \<and> st' = s\<lparr>st_controlFailures := st_controlFailures s + 1\<rparr>) \<or>
      r = Inr (cu_creds u) \<and> \<not> cu_failed u \<and> st' = s"
    using assms w by (auto simp: control_answer_def Let_def split: sum.splits Exn.splits)
  note f = control_answer_frame(1,2) [OF assms] control_cost [OF w]
  show ?thesis
  proof (cases r)
    case (Inl e)
    then show ?thesis using out f q control_work_failed [OF w [unfolded Inl]] by auto
  next
    case (Inr c)
    then show ?thesis using out f q control_work_done [OF w [unfolded Inr]] by (cases "rq_kind req") auto
  qed
qed

text \<open>A reassignment while the services do not answer.\<close>

theorem control_exact_witness:
  "\<exists>u st p. control_answer roster_config (\<lambda>_. True) (sample_request REASSIGN) Stats_init (sample_provisioner []) = Some (u, st, p) \<and>
     cu_failed u \<and> st_controlFailures st = 1"
proof -
  let ?req = "sample_request REASSIGN" and ?p = "sample_provisioner []"
  obtain r q where a: "requestWithRetry (cr_gameApiUrl (rq_creds ?req)) ASSIGN_QUERY (JObj []) (cr_appToken (rq_creds ?req)) no_stop [] ?p = (r, q)"
    by fastforce
  from retry_answer(1) [OF a] have "r = Inl (GraphQLError CurlFailed [] True)"
    by (simp add: sample_provisioner_def Provisioner_init_def sample_world_def interpret_answer_def)
  then have "assign_attempts roster_config (\<lambda>_. True) 1 (rq_creds ?req) ?p = (Inl (GraphQLError CurlFailed [] True), q)"
    using a by (simp add: assign_attempts.simps assignServer_def io_bind_def)
  moreover have k: "rq_kind ?req = REASSIGN" by (simp add: sample_request_def)
  ultimately have "\<exists>u st p. control_answer roster_config (\<lambda>_. True) ?req Stats_init ?p = Some (u, st, p) \<and> cu_failed u"
    by (simp add: control_answer_def control_work_def control_place_def Let_def)
  then obtain u st p where u: "control_answer roster_config (\<lambda>_. True) ?req Stats_init ?p = Some (u, st, p)" "cu_failed u" by blast
  from control_exact [OF u(1)] u show ?thesis by (simp add: Stats_init_def)
qed

text \<open>
  C26. Once the workers are stopped the control thread empties its queue: no step of any thread
  adds to its backlog or brings the workers back, nothing it owes is lost (a request leaves it
  only as a posted update), each step of its own reduces the backlog, and it is never stuck:
  with an empty hand it can take the next request, and where none is left the queue reports its
  shutdown, which ends the thread.
\<close>

theorem stop_drains:
  assumes "validate cfg = Inr []" "harness_start cfg new_harness True h0" "(harness_step hm at2 cfg)\<^sup>*\<^sup>* h0 h" "\<not> hn_running h"
  shows "(harness_step hm at2 cfg h h' \<longrightarrow> \<not> hn_running h' \<and> owed h' = owed h \<and> backlog h' \<le> backlog h) \<and>
     (hn_control h = None \<and> backlog h > 0 \<longrightarrow> (\<exists>h'. control_take h = Some h' \<and> backlog h' < backlog h)) \<and>
     (hn_control h = Some req \<and> control_post cfg down req p h = Some h' \<longrightarrow> backlog h' < backlog h) \<and>
     (backlog h = 0 \<and> cq_shutdown (hn_controlQueue h) \<longrightarrow> queue_pop (hn_controlQueue h) = ShutDown)"
proof -
  have ok: "harness_ok cfg h" by (rule run_ok [OF assms(1-3)])
  have "harness_step hm at2 cfg h h' \<longrightarrow> \<not> hn_running h' \<and> owed h' = owed h \<and> backlog h' \<le> backlog h"
    using stopped_step [of hm at2 cfg h h'] ok assms(4) valid_ranges [OF assms(1)] by blast
  moreover have "\<exists>h'. control_take h = Some h' \<and> backlog h' < backlog h" if "hn_control h = None" "backlog h > 0"
    using that by (auto simp: backlog_def control_take_def queue_pop_def split: list.splits)
  moreover have "backlog h' < backlog h" if "hn_control h = Some req" "control_post cfg down req p h = Some h'"
    using post_moves(1) [OF that(2,1)] ok that(1) by (simp add: harness_ok_def crew_ok_def)
  moreover have "queue_pop (hn_controlQueue h) = ShutDown" if "backlog h = 0" "cq_shutdown (hn_controlQueue h)"
    using that by (simp add: backlog_def queue_pop_def)
  ultimately show ?thesis by blast
qed

theorem stop_drains_witness:
  "\<exists>h :: Harness. \<not> hn_running h \<and> queue_pop (hn_controlQueue h) = ShutDown"
proof -
  let ?step = "harness_step (\<lambda>k m. None) (\<lambda>x y. 0) roster_config"
  obtain h0 where s: "harness_start roster_config new_harness True h0" "hn_started h0" "backlog h0 = 0"
    using roster_start by (auto simp: backlog_def)
  have step: "?step h0 (stop_begin h0)" by (rule harness_step.begin_stop)
  have "\<not> hn_running (stop_begin h0)" "backlog (stop_begin h0) = 0" "cq_shutdown (hn_controlQueue (stop_begin h0))"
    using s by (simp_all add: stop_begin_def queue_shutdown_def backlog_def)
  with stop_drains [OF roster_valid s(1) r_into_rtranclp [of ?step, OF step]] show ?thesis by blast
qed

text \<open>
  The end reading reaches the last rung file. A rung that is closed writes its document
  under its own name and is remembered; when the run's end is observed later, with nothing
  closed in between, the same file is written again with the reading in \<^verbatim>\<open>replay_logging_at_end\<close>
  and every other key as it was; and a second observation changes nothing.
\<close>

theorem rung_rewritten:
  assumes "st_rungId (hn_stats h) \<noteq> []" "cf_statsDir cfg \<noteq> []" "closeRung cfg steadyNs True h = (body, ha)"
    and "hn_lastRungId hb = hn_lastRungId ha" "hn_lastRungBody hb = hn_lastRungBody ha" "\<not> hn_endObserved hb"
    and "hn_provisioner hb = Some p" "observeReplayLogging cfg p = Some (reading, p')" "observeEndOfRun cfg True hb = Some hc"
  shows "hn_files ha = hn_files h @ [(rung_path cfg (st_rungId (hn_stats h)), body)] \<and> body = statsJson cfg steadyNs h \<and>
     (\<exists>body'. hn_files hc = hn_files hb @ [(rung_path cfg (st_rungId (hn_stats h)), body')] \<and>
        (\<forall>k. jlookup body' k = (if k = ''replay_logging_at_end'' then Some (JStr reading) else jlookup body k))) \<and>
     hn_replayLoggingAtEnd hc = reading \<and> observeEndOfRun cfg writable hc = Some hc"
proof -
  let ?rung = "st_rungId (hn_stats h)"
  have body: "body = statsJson cfg steadyNs h" and ha: "ha = (writeRungFile cfg True ?rung body h)\<lparr>hn_lastRungId := ?rung, hn_lastRungBody := body\<rparr>"
    using assms(1,3) by (auto simp: closeRung_def Let_def statsJson_def buildStatsJson_def snapshot_meta_def)
  have hc: "hc = recordReplayLoggingAtEnd cfg True reading (hb\<lparr>hn_endObserved := True, hn_provisioner := Some p'\<rparr>)"
    using assms(6-9) by (simp add: observeEndOfRun_def)
  let ?b = "jset ''replay_logging_at_end'' (JStr reading) body"
  have files: "hn_files hc = hn_files hb @ [(rung_path cfg ?rung, ?b)]"
    using assms(1,2,4,5) by (simp add: hc recordReplayLoggingAtEnd_def writeRungFile_def ha)
  have "is_object body" by (simp add: body statsJson_def is_object_buildStatsJson)
  then have "\<forall>k. jlookup ?b k = (if k = ''replay_logging_at_end'' then Some (JStr reading) else jlookup body k)"
    by (simp add: jlookup_jset)
  with files have "\<exists>body'. hn_files hc = hn_files hb @ [(rung_path cfg ?rung, body')] \<and>
      (\<forall>k. jlookup body' k = (if k = ''replay_logging_at_end'' then Some (JStr reading) else jlookup body k))" by blast
  moreover have "hn_files ha = hn_files h @ [(rung_path cfg ?rung, body)]" using assms(2) by (simp add: ha writeRungFile_def)
  moreover have "hn_replayLoggingAtEnd hc = reading" "observeEndOfRun cfg writable hc = Some hc"
    by (simp_all add: hc recordReplayLoggingAtEnd_def writeRungFile_def Let_def observeEndOfRun_def)
  ultimately show ?thesis using body by simp
qed

text \<open>A rung closed and the end observed while the services do not answer.\<close>

theorem rung_rewritten_witness:
  "\<exists>(hc :: Harness) body'. hn_files hc = [(''out/rung-r1.json'', statsJson (roster_config\<lparr>cf_statsDir := ''out''\<rparr>) 2 (new_harness\<lparr>hn_stats := markWindow 0 1 ''r1'' Stats_init\<rparr>)),
     (''out/rung-r1.json'', body')] \<and> jlookup body' ''replay_logging_at_end'' = Some (JStr ''unknown'')"
proof -
  let ?cfg = "roster_config\<lparr>cf_statsDir := ''out''\<rparr>" and ?h = "new_harness\<lparr>hn_stats := markWindow 0 1 ''r1'' Stats_init\<rparr>"
  obtain q where q: "readReplayLogging ?cfg (sample_provisioner []) = (Inr None, q)" using read_silent by blast
  obtain body ha where c: "closeRung ?cfg 2 True ?h = (body, ha)" by fastforce
  define hb where "hb = ha\<lparr>hn_provisioner := Some (sample_provisioner []), hn_endObserved := False\<rparr>"
  have o: "observeReplayLogging ?cfg (sample_provisioner []) = Some (''unknown'', q)"
    using q by (simp add: observeReplayLogging_def replayLoggingLabel_def)
  then obtain hc where e: "observeEndOfRun ?cfg True hb = Some hc" by (simp add: observeEndOfRun_def hb_def)
  have path: "rung_path ?cfg ''r1'' = ''out/rung-r1.json''" by (simp add: rung_path_def)
  have "hn_files ?h = []" "st_rungId (hn_stats ?h) = ''r1''" by (simp_all add: new_harness_def markWindow_def)
  then obtain body' where "hn_files hc = [(''out/rung-r1.json'', statsJson ?cfg 2 ?h), (''out/rung-r1.json'', body')]"
    "jlookup body' ''replay_logging_at_end'' = Some (JStr ''unknown'')"
    using rung_rewritten [OF _ _ c _ _ _ _ o e, of True] path by (auto simp: hb_def)
  then show ?thesis by blast
qed

end
