(* ===== verification/ControlServer.thy ===== *)
theory ControlServer
  imports Harness
begin

text \<open>
  The HTTP control port (\<^verbatim>\<open>src/ControlServer.hpp\<close>, \<^verbatim>\<open>src/ControlServer.cpp\<close>) as the function
  that a request is to the generator's state. The HTTP server (cpp-httplib) is the library's:
  it hands a handler the method, the path, the value of the \<^verbatim>\<open>Authorization\<close> header (empty when
  absent) and the body, answers what no handler is registered for, and answers 500 for a handler
  that throws. JSON text (nlohmann) is a parameter: \<open>parse\<close> gives the value or the text of its
  exception, \<open>what\<close> the text of the exception a typed access raises, \<open>dump\<close> the text or nothing where
  it raises, on a string that is not well-formed UTF-8. Whether listening succeeds, and when, is the
  library's too. A handler whose calls have no meaning has the result \<open>None\<close>.
\<close>

section \<open>Requests and answers\<close>

datatype Method = GET | POST

record HttpRequest =
  hq_method :: Method
  hq_path :: string
  hq_authorization :: string
  hq_body :: string

text \<open>A status with the text of the body.\<close>

datatype HttpAnswer = Unrouted | Answered int string

text \<open>What a handler reads besides the state: clocks, whether the rung file opens, the count of clients when the answer is composed.\<close>

record Readings =
  rd_sysNs :: int
  rd_steadyNs :: int
  rd_writable :: bool
  rd_used :: int

type_synonym json_parser = "string \<Rightarrow> string + json"

section \<open>Handlers\<close>

definition bearerOk :: "HttpRequest \<Rightarrow> string \<Rightarrow> bool" where
  "bearerOk req token \<longleftrightarrow> token = [] \<or> hq_authorization req = ''Bearer '' @ token"

definition unauthorized :: HttpAnswer where
  "unauthorized = Answered 401 ''{\"error\":\"unauthorized\"}''"

text \<open>A body that does not print makes the handler throw, after all it has done.\<close>

definition jsonRes :: "(json \<Rightarrow> string option) \<Rightarrow> int \<Rightarrow> json \<Rightarrow> HttpAnswer" where
  "jsonRes dump status body = (case dump body of Some text \<Rightarrow> Answered status text | None \<Rightarrow> Answered 500 [])"

definition error_body :: "string \<Rightarrow> json" where
  "error_body e = JObj [(''error'', JStr e)]"

datatype 'a Body = BadBody string | BodyUndefined | GoodBody 'a

definition body_value ::
  "json_parser \<Rightarrow> (json_error \<Rightarrow> string) \<Rightarrow> (json \<Rightarrow> json_error + 'a) \<Rightarrow> HttpRequest \<Rightarrow> string \<Rightarrow> 'a \<Rightarrow> 'a Body" where
  "body_value parse what get req k dflt =
     (case parse (if hq_body req = [] then ''{}'' else hq_body req) of
        Inl e \<Rightarrow> BadBody e
      | Inr body \<Rightarrow>
          (case jvalue get body k dflt of
             Inl e \<Rightarrow> if e = NoMeaning then BodyUndefined else BadBody (what e)
           | Inr x \<Rightarrow> GoodBody x))"

definition add_handler ::
  "json_parser \<Rightarrow> (json_error \<Rightarrow> string) \<Rightarrow> (json \<Rightarrow> string option) \<Rightarrow> Config \<Rightarrow> Readings \<Rightarrow> HttpRequest \<Rightarrow> Harness \<Rightarrow>
     (HttpAnswer \<times> Harness) option" where
  "add_handler parse what dump cfg rd req h =
     (case body_value parse what get_int req ''count'' 0 of
        BadBody e \<Rightarrow> Some (jsonRes dump 400 (error_body e), h)
      | BodyUndefined \<Rightarrow> None
      | GoodBody n \<Rightarrow>
          (case requestAdd cfg n h of
             None \<Rightarrow> None
           | Some (err, h) \<Rightarrow>
               if err \<noteq> [] then Some (jsonRes dump 409 (error_body err), h)
               else Some (jsonRes dump 202 (JObj [(''accepted'', JBool True), (''count'', jint n),
                      (''used'', jint (rd_used rd)), (''limit'', jint (cf_indexLimit cfg))]), h)))"

definition rung_open_handler ::
  "json_parser \<Rightarrow> (json_error \<Rightarrow> string) \<Rightarrow> (json \<Rightarrow> string option) \<Rightarrow> Readings \<Rightarrow> HttpRequest \<Rightarrow> Harness \<Rightarrow>
     (HttpAnswer \<times> Harness) option" where
  "rung_open_handler parse what dump rd req h =
     (case body_value parse what get_string req ''id'' [] of
        BadBody e \<Rightarrow> Some (jsonRes dump 400 (error_body e), h)
      | BodyUndefined \<Rightarrow> None
      | GoodBody rung \<Rightarrow>
          let (err, h) = openRung (rd_sysNs rd) (rd_steadyNs rd) rung h
          in if err \<noteq> [] then Some (jsonRes dump 409 (error_body err), h)
             else Some (jsonRes dump 200 (JObj [(''ok'', JBool True), (''id'', JStr rung)]), h))"

definition routed :: "HttpRequest \<Rightarrow> bool" where
  "routed req \<longleftrightarrow>
     (hq_method req, hq_path req) \<in> {(GET, ''/v1/status''), (GET, ''/v1/stats''), (POST, ''/v1/clients/add''),
       (POST, ''/v1/rung/open''), (POST, ''/v1/rung/close''), (POST, ''/v1/shutdown'')}"

text \<open>The handlers behind the authorization check, then the whole port.\<close>

definition dispatch ::
  "json_parser \<Rightarrow> (json_error \<Rightarrow> string) \<Rightarrow> (json \<Rightarrow> string option) \<Rightarrow> Config \<Rightarrow> Readings \<Rightarrow> HttpRequest \<Rightarrow> Harness \<Rightarrow>
     (HttpAnswer \<times> Harness) option" where
  "dispatch parse what dump cfg rd req h =
     (if hq_path req = ''/v1/status'' then Some (jsonRes dump 200 (statusJson cfg h), h)
      else if hq_path req = ''/v1/stats'' then Some (jsonRes dump 200 (statsJson cfg (rd_steadyNs rd) h), h)
      else if hq_path req = ''/v1/clients/add'' then add_handler parse what dump cfg rd req h
      else if hq_path req = ''/v1/rung/open'' then rung_open_handler parse what dump rd req h
      else if hq_path req = ''/v1/rung/close'' then
        let (body, h) = closeRung cfg (rd_steadyNs rd) (rd_writable rd) h in Some (jsonRes dump 200 body, h)
      else Some (jsonRes dump 200 (JObj [(''ok'', JBool True)]), requestShutdown h))"

definition serve ::
  "json_parser \<Rightarrow> (json_error \<Rightarrow> string) \<Rightarrow> (json \<Rightarrow> string option) \<Rightarrow> Config \<Rightarrow> string \<Rightarrow> Readings \<Rightarrow> HttpRequest \<Rightarrow> Harness \<Rightarrow>
     (HttpAnswer \<times> Harness) option" where
  "serve parse what dump cfg token rd req h =
     (if hq_method req = GET \<and> hq_path req = ''/health'' then Some (Answered 200 ''{\"ok\":true}'', h)
      else if \<not> routed req then Some (Unrouted, h)
      else if \<not> bearerOk req token then Some (unauthorized, h)
      else dispatch parse what dump cfg rd req h)"

section \<open>The server object\<close>

text \<open>\<open>cp_server\<close>: the library's server exists; \<open>cp_thread\<close>: its thread can be joined.\<close>

record ControlPort =
  cp_bind :: ControlBind
  cp_token :: string
  cp_running :: bool
  cp_thread :: bool
  cp_server :: bool

definition new_control_port :: "ControlBind \<Rightarrow> string \<Rightarrow> ControlPort" where
  "new_control_port bind token =
     \<lparr>cp_bind = bind, cp_token = token, cp_running = False, cp_thread = False, cp_server = False\<rparr>"

text \<open>\<open>heard i\<close>: the library says at poll \<open>i\<close> that it is running. The first result counts the sleeps of 20 ms.\<close>

definition control_start :: "(nat \<Rightarrow> bool) \<Rightarrow> ControlPort \<Rightarrow> nat \<times> bool \<times> ControlPort" where
  "control_start heard cp =
     (if cb_disabled (cp_bind cp) then (0, True, cp)
      else (length (takeWhile (\<lambda>i. \<not> heard i) [0..<50]), True, cp\<lparr>cp_running := True, cp_thread := True, cp_server := True\<rparr>))"

text \<open>The server's thread: \<open>listened\<close> is what \<^verbatim>\<open>listen\<close> returned.\<close>

definition control_listen :: "bool \<Rightarrow> ControlPort \<Rightarrow> ControlPort" where
  "control_listen listened cp = (if listened then cp else cp\<lparr>cp_running := False\<rparr>)"

definition control_stop :: "ControlPort \<Rightarrow> ControlPort" where
  "control_stop cp = cp\<lparr>cp_running := False, cp_thread := False, cp_server := False\<rparr>"

section \<open>Facts\<close>

text \<open>Starting waits a second at most and reports success also when nothing listens; stopping undoes it, once or twice.\<close>

lemma control_start_unheard:
  "fst (control_start heard cp) \<le> 50" "fst (snd (control_start heard cp))"
  "\<not> cb_disabled (cp_bind cp) \<Longrightarrow> control_start (\<lambda>_. False) cp =
     (50, True, cp\<lparr>cp_running := True, cp_thread := True, cp_server := True\<rparr>)"
proof -
  have all: "takeWhile (\<lambda>_. True) xs = xs" for xs :: "nat list" by (induction xs) simp_all
  show "fst (control_start heard cp) \<le> 50" "fst (snd (control_start heard cp))"
    using length_takeWhile_le [of "\<lambda>i. \<not> heard i" "[0..<50]"] by (simp_all add: control_start_def)
  show "\<not> cb_disabled (cp_bind cp) \<Longrightarrow> control_start (\<lambda>_. False) cp =
     (50, True, cp\<lparr>cp_running := True, cp_thread := True, cp_server := True\<rparr>)"
    by (simp add: control_start_def all)
qed

lemma control_stop_restores:
  "control_stop (control_listen b (snd (snd (control_start heard (new_control_port bind token))))) = new_control_port bind token"
  "control_stop (control_stop cp) = control_stop cp"
  by (simp_all add: control_stop_def control_listen_def control_start_def new_control_port_def)

lemma serve_step:
  assumes "serve parse what dump cfg token rd req h = Some (a, h')"
  shows "h' = h \<or> harness_step hm at2 cfg h h'"
proof (cases "routed req \<and> bearerOk req token")
  case False
  then show ?thesis using assms by (auto simp: serve_def split: if_splits)
next
  case True
  then have "dispatch parse what dump cfg rd req h = Some (a, h') \<or> h' = h" using assms by (auto simp: serve_def split: if_splits)
  then show ?thesis
    by (auto simp: dispatch_def add_handler_def rung_open_handler_def Let_def case_prod_beta
        split: if_splits Body.splits option.splits intro: harness_step.request_add harness_step.shutdown
        harness_step.close_rung [of _ "rd_steadyNs rd" "rd_writable rd" _ "fst (closeRung cfg (rd_steadyNs rd) (rd_writable rd) h)"]
        harness_step.open_rung [OF surjective_pairing])
qed

section \<open>Properties\<close>

text \<open>
  C12. No configuration that is accepted opens an unguarded control port to other machines: where
  it listens on an address that is not loopback, a request to any handler but the health check
  whose \<^verbatim>\<open>Authorization\<close> header is not exactly the configured bearer token is answered 401 and
  leaves the generator as it was, whatever its body.
\<close>

theorem control_port_guarded:
  assumes "validate cfg = Inr []" "parseControlBind (cf_controlBind cfg) = Inr b" "\<not> cb_disabled b" "\<not> cb_loopback b"
    and "routed req" "hq_authorization req \<noteq> ''Bearer '' @ cf_controlToken cfg"
  shows "serve parse what dump cfg (cf_controlToken cfg) rd req h = Some (unauthorized, h)"
proof -
  have "cf_controlToken cfg \<noteq> []" using assms(1-4) by (auto simp: validate_empty validate_bind_empty)
  then have "\<not> bearerOk req (cf_controlToken cfg)" using assms(6) by (simp add: bearerOk_def)
  moreover have "\<not> (hq_method req = GET \<and> hq_path req = ''/health'')" using assms(5) by (auto simp: routed_def)
  ultimately show ?thesis using assms(5) unfolding serve_def by (simp only: if_False if_True not_True_eq_False not_False_eq_True)
qed

definition public_config :: Config where
  "public_config = sample_config\<lparr>cf_controlBind := ''0.0.0.0:9109'', cf_controlToken := ''s3cret''\<rparr>"

lemma public_bind: "parseControlBind (cf_controlBind public_config) = 
    Inr (ControlBind_init\<lparr>cb_host := ''0.0.0.0'', cb_loopback := False, cb_wildcard := True\<rparr>)"
  by code_simp

lemma public_valid: "validate public_config = Inr []"
  using public_bind
  by (simp add: validate_empty validate_ranges_empty validate_bind_empty public_config_def sample_config_def Config_init_def
      ControlBind_init_def needsPassword_def)

theorem control_port_guarded_witness:
  "\<forall>dump body rd h. serve (\<lambda>_. Inr JNull) (\<lambda>_. []) dump public_config ''s3cret'' rd
     \<lparr>hq_method = POST, hq_path = ''/v1/shutdown'', hq_authorization = ''Bearer guess'', hq_body = body\<rparr> h = Some (unauthorized, h)"
proof (intro allI)
  fix dump :: "json \<Rightarrow> string option" and body and rd :: Readings and h :: Harness
  let ?req = "\<lparr>hq_method = POST, hq_path = ''/v1/shutdown'', hq_authorization = ''Bearer guess'', hq_body = body\<rparr>"
  have "cf_controlToken public_config = ''s3cret''" "routed ?req" by (simp_all add: public_config_def routed_def)
  then show "serve (\<lambda>_. Inr JNull) (\<lambda>_. []) dump public_config ''s3cret'' rd ?req h = Some (unauthorized, h)"
    using control_port_guarded [OF public_valid public_bind _ _ \<open>routed ?req\<close>] by (simp add: ControlBind_init_def)
qed

text \<open>
  C25. The control port never breaks the books: whatever requests arrive, authorized or not,
  with any bodies, between any steps of the other threads, every answered request leaves the
  generator in a state that its own threads could have reached, so that all that is shown of
  reachable states (the population, the gauges, the limit) holds of it. An add whose body does not
  parse, or whose count is of the wrong type, is refused with 400, one that is not admitted with
  409 and the reason, and both leave the generator as it was; an admitted one is answered 202. In
  the place of any of these the answer is 500 just when its text does not print, because what it
  quotes is not well-formed UTF-8; an admitted add stays admitted then. A count that is a floating
  number outside \<^verbatim>\<open>int\<close> has no meaning, and is never answered.
\<close>

theorem serve_keeps_books:
  assumes "validate cfg = Inr []" "harness_start cfg new_harness True h0" "(harness_step hm at2 cfg)\<^sup>*\<^sup>* h0 h"
    and "serve parse what dump cfg token rd req h = Some (a, h')"
  shows "harness_ok cfg h' \<and>
     (hq_path req = ''/v1/clients/add'' \<and> routed req \<and> bearerOk req token \<longrightarrow>
       (\<exists>code body. a = (if dump body = None then Answered 500 [] else Answered code (the (dump body))) \<and>
         (case body_value parse what get_int req ''count'' 0 of
            BadBody e \<Rightarrow> code = 400 \<and> body = error_body e \<and> h' = h
          | BodyUndefined \<Rightarrow> False
          | GoodBody n \<Rightarrow> (\<exists>e. requestAdd cfg n h = Some (e, h') \<and>
              (if e = [] then code = 202 else code = 409 \<and> body = error_body e \<and> h' = h)))))"
proof -
  have "(harness_step hm at2 cfg)\<^sup>*\<^sup>* h0 h'"
    using assms(3) serve_step [OF assms(4), of hm at2] by (auto intro: rtranclp.rtrancl_into_rtrancl)
  then have "harness_ok cfg h'" by (rule run_ok [OF assms(1,2)])
  moreover have unchanged: "requestAdd cfg n h = Some (e, h'') \<Longrightarrow> e \<noteq> [] \<Longrightarrow> h'' = h" for n e h''
    by (auto simp: requestAdd_def split: if_splits)
  have res: "jsonRes dump code body = (if dump body = None then Answered 500 [] else Answered code (the (dump body)))" for code body
    by (auto simp: jsonRes_def)
  have add: "add_handler parse what dump cfg rd req h = Some (a, h')"
    if "hq_path req = ''/v1/clients/add''" "routed req" "bearerOk req token"
  proof -
    have "serve parse what dump cfg token rd req h = dispatch parse what dump cfg rd req h" using that by (simp add: serve_def)
    then show ?thesis using that assms(4) by (simp add: dispatch_def)
  qed
  have "\<exists>code body. a = jsonRes dump code body \<and>
      (case body_value parse what get_int req ''count'' 0 of
         BadBody e \<Rightarrow> code = 400 \<and> body = error_body e \<and> h' = h
       | BodyUndefined \<Rightarrow> False
       | GoodBody n \<Rightarrow> (\<exists>e. requestAdd cfg n h = Some (e, h') \<and>
           (if e = [] then code = 202 else code = 409 \<and> body = error_body e \<and> h' = h)))"
    if add: "add_handler parse what dump cfg rd req h = Some (a, h')"
  proof (cases "body_value parse what get_int req ''count'' 0")
    case (GoodBody n)
    with add obtain e body where "requestAdd cfg n h = Some (e, h')" "a = (if e = [] then jsonRes dump 202 body else jsonRes dump 409 (error_body e))"
      by (auto simp: add_handler_def split: option.splits if_splits)
    with unchanged [of n e h'] show ?thesis by (cases "e = []") (auto simp: GoodBody)
  qed (use add in \<open>auto simp: add_handler_def\<close>)
  ultimately show ?thesis unfolding res [symmetric] using add by blast
qed

theorem serve_keeps_books_witness:
  "\<exists>h h'. serve (\<lambda>_. Inr (JObj [(''count'', JUInt 5)])) (\<lambda>_. []) (\<lambda>_. Some ''{}'') roster_config [] \<lparr>rd_sysNs = 0, rd_steadyNs = 0, rd_writable = True, rd_used = 1\<rparr>
     \<lparr>hq_method = POST, hq_path = ''/v1/clients/add'', hq_authorization = [], hq_body = ''...''\<rparr> h = Some (Answered 202 ''{}'', h') \<and> harness_ok roster_config h' \<and> hn_busy h'"
proof -
  let ?rd = "\<lparr>rd_sysNs = 0, rd_steadyNs = 0, rd_writable = True, rd_used = 1\<rparr>"
  let ?req = "\<lparr>hq_method = POST, hq_path = ''/v1/clients/add'', hq_authorization = [], hq_body = ''...''\<rparr>"
  obtain h where s: "harness_start roster_config new_harness True h" "\<not> hn_busy h" "hn_used h = 1" using roster_start by blast
  obtain h' where r: "requestAdd roster_config 5 h = Some ([], h')" "hn_busy h'"
    using s(2,3) by (auto simp: requestAdd_def fits_int_def int_max_def roster_config_def sample_config_def Config_init_def)
  have "to_int32 5 = 5" by (simp add: to_int32_id)
  have d: "serve parse what dump cfg [] ?rd ?req h = dispatch parse what dump cfg ?rd ?req h" for parse what dump cfg
    by (simp add: serve_def routed_def bearerOk_def)
  have a: "serve (\<lambda>_. Inr (JObj [(''count'', JUInt 5)])) (\<lambda>_. []) (\<lambda>_. Some ''{}'') roster_config [] ?rd ?req h =
      Some (Answered 202 ''{}'', h')"
    unfolding d using r \<open>to_int32 5 = 5\<close> by (simp add: dispatch_def add_handler_def body_value_def jsonRes_def)
  from serve_keeps_books [OF roster_valid s(1) rtranclp.rtrancl_refl a] a r(2) show ?thesis by blast
qed

end
