(* ===== verification/Ctl.thy ===== *)
theory Ctl
  imports Harness
begin

text \<open>
  The fleet driver (\<^verbatim>\<open>src/ctl.cpp\<close>): one command over the control ports of several hosts. The
  transfer of one request (libcurl) is a parameter: \<open>perform n\<close> answers the requests of the
  \<open>n\<close>-th time the hosts are asked, each host once, in threads that share nothing. JSON text is a
  parameter too: \<open>parse\<close> gives the value or nothing, \<open>scan\<close> the first value of a stream, \<open>dump\<close> the
  text on one line and \<open>pretty\<close> the indented one, or nothing where the library raises. An exception that leaves
  \<^verbatim>\<open>main\<close> ends the process: \<open>Terminated\<close>. Sums are in \<^verbatim>\<open>int\<close>; one that does not fit, or a number that
  does not convert, leaves the rest without meaning: \<open>RoundUndefined\<close>, \<open>OutcomeUndefined\<close>. The command
  line is what cxxopts hands over; messages on the error stream are not modelled.
\<close>

section \<open>Requests\<close>

record CurlRequest =
  xr_post :: bool
  xr_url :: string
  xr_headers :: "string list"
  xr_body :: string

datatype CurlResult = CurlInitFailed | CurlError string string | CurlDone int string

record HttpResult =
  hr_status :: int
  hr_body :: string
  hr_error :: string

type_synonym curl = "CurlRequest \<Rightarrow> CurlResult"

definition http :: "curl \<Rightarrow> string \<Rightarrow> string \<Rightarrow> string \<Rightarrow> string \<Rightarrow> HttpResult" where
  "http perform meth url token body =
     (case perform \<lparr>xr_post = (meth = ''POST''), xr_url = url,
             xr_headers = [''Accept: application/json'', ''Content-Type: application/json''] @
               (if token \<noteq> [] then [''Authorization: Bearer '' @ token] else []),
             xr_body = (if meth = ''POST'' then body else [])\<rparr> of
        CurlInitFailed \<Rightarrow> \<lparr>hr_status = 0, hr_body = [], hr_error = ''curl_easy_init failed''\<rparr>
      | CurlError e received \<Rightarrow> \<lparr>hr_status = 0, hr_body = received, hr_error = e\<rparr>
      | CurlDone code received \<Rightarrow> \<lparr>hr_status = code, hr_body = received, hr_error = []\<rparr>)"

definition joinUrl :: "string \<Rightarrow> string \<Rightarrow> string" where
  "joinUrl base path = rev (dropWhile (\<lambda>c. c = CHR ''/'') (rev base)) @ path"

text \<open>\<open>file_lines\<close>: what \<^verbatim>\<open>std::getline\<close> yields; a final line break starts no further line.\<close>

definition file_lines :: "string \<Rightarrow> string list" where
  "file_lines text = (let ls = split_lines text in if last ls = [] then butlast ls else ls)"

definition blank :: "char \<Rightarrow> bool" where
  "blank c \<longleftrightarrow> c = CHR '' '' \<or> c = CHR 0x09 \<or> c = CHR 0x0D \<or> c = CHR 0x0A"

definition host_line :: "string \<Rightarrow> string option" where
  "host_line line =
     (let s = rev (dropWhile blank (rev (dropWhile blank line)))
      in if s = [] \<or> hd s = CHR ''#'' then None else Some s)"

text \<open>\<open>None\<close>: the file cannot be opened, which ends the program with code 2.\<close>

definition loadHosts :: "(string \<Rightarrow> string option) \<Rightarrow> string \<Rightarrow> string list \<Rightarrow> string list option" where
  "loadHosts files path extra =
     (if path = [] then Some extra
      else map_option (\<lambda>text. extra @ List.map_filter host_line (file_lines text)) (files path))"

record FanIn =
  fi_host :: string
  fi_res :: HttpResult

definition fan :: "curl \<Rightarrow> string list \<Rightarrow> string \<Rightarrow> string \<Rightarrow> string \<Rightarrow> string \<Rightarrow> FanIn list" where
  "fan perform hosts token meth path body =
     map (\<lambda>h. \<lparr>fi_host = h, fi_res = http perform meth (joinUrl h path) token body\<rparr>) hosts"

definition row_ok :: "int \<Rightarrow> int \<Rightarrow> FanIn \<Rightarrow> bool" where
  "row_ok minOk maxOk r \<longleftrightarrow> hr_error (fi_res r) = [] \<and> \<not> (hr_status (fi_res r) < minOk \<or> hr_status (fi_res r) > maxOk)"

definition failIfAny :: "FanIn list \<Rightarrow> int \<Rightarrow> int \<Rightarrow> int" where
  "failIfAny rows minOk maxOk = (if list_all (row_ok minOk maxOk) rows then 0 else 1)"

definition envToken :: "string option \<Rightarrow> string \<Rightarrow> string" where
  "envToken env cli = (if cli \<noteq> [] then cli else case env of Some t \<Rightarrow> t | None \<Rightarrow> [])"

section \<open>Waiting\<close>

text \<open>What one round of status documents settles: an exit code, the end of the process, or nothing yet.\<close>

datatype Round = Settled int | Raised | RoundUndefined | NotYet

definition round_failed :: "json_error \<Rightarrow> Round" where
  "round_failed e = (if e = NoMeaning then RoundUndefined else Raised)"

record Status =
  ws_idle :: bool
  ws_grown :: bool
  ws_failed :: bool

text \<open>Growth of one host; the live clients are compared only if the used indices have grown.\<close>

definition has_grown :: "int \<Rightarrow> int \<Rightarrow> int \<Rightarrow> int \<Rightarrow> json \<Rightarrow> json_error + bool" where
  "has_grown delta baseUsed baseLive live st =
     ebind (jvalue get_int st ''used'' 0) (\<lambda>used.
     ebind (add_int baseUsed delta) (\<lambda>want.
     if used < want then Inr False
     else ebind (add_int baseLive delta) (\<lambda>want. Inr (\<not> live < want))))"

definition wait_row :: "(string \<Rightarrow> json option) \<Rightarrow> int \<Rightarrow> FanIn \<times> int \<times> int \<Rightarrow> Status \<Rightarrow> json_error + Status" where
  "wait_row parse delta rb ws =
     (let (r, baseUsed, baseLive) = rb in
      case parse (hr_body (fi_res r)) of
        None \<Rightarrow> Inl ParseError
      | Some st \<Rightarrow>
          ebind (jvalue get_bool st ''busy'' False) (\<lambda>busy.
          ebind (jvalue get_int st ''active'' 0) (\<lambda>active.
          ebind (jvalue get_int st ''suspended'' 0) (\<lambda>suspended.
          ebind (add_int active suspended) (\<lambda>live.
          ebind (if delta > 0 then has_grown delta baseUsed baseLive live st else Inr True) (\<lambda>grown.
          ebind (jvalue get_string st ''add_error'' []) (\<lambda>err.
          Inr (ws\<lparr>ws_idle := ws_idle ws \<and> \<not> busy,
                  ws_grown := ws_grown ws \<and> grown,
                  ws_failed := ws_failed ws \<or> err \<noteq> []\<rparr>))))))))"

fun wait_rows :: "(string \<Rightarrow> json option) \<Rightarrow> int \<Rightarrow> (FanIn \<times> int \<times> int) list \<Rightarrow> Status \<Rightarrow> json_error + Status" where
  "wait_rows parse delta [] ws = Inr ws"
| "wait_rows parse delta (r # rs) ws = ebind (wait_row parse delta r ws) (wait_rows parse delta rs)"

definition wait_round :: "(string \<Rightarrow> json option) \<Rightarrow> int \<Rightarrow> (int \<times> int) list \<Rightarrow> FanIn list \<Rightarrow> Round" where
  "wait_round parse delta base rows =
     (if failIfAny rows 200 200 \<noteq> 0 then Settled 1
      else case wait_rows parse delta (zip rows base) \<lparr>ws_idle = True, ws_grown = True, ws_failed = False\<rparr> of
             Inl e \<Rightarrow> round_failed e
           | Inr ws \<Rightarrow> if ws_failed ws then Settled 1 else if ws_idle ws \<and> ws_grown ws then Settled 0 else NotYet)"

text \<open>The figures to grow from; a status that does not read counts as zero, whatever was raised.\<close>

definition wait_base :: "(string \<Rightarrow> json option) \<Rightarrow> FanIn \<Rightarrow> json_error + int \<times> int" where
  "wait_base parse r =
     (case parse (hr_body (fi_res r)) of
        None \<Rightarrow> Inr (0, 0)
      | Some st \<Rightarrow>
          (case jvalue get_int st ''used'' 0 of
             Inl e \<Rightarrow> if e = NoMeaning then Inl e else Inr (0, 0)
           | Inr used \<Rightarrow>
               (case ebind (jvalue get_int st ''active'' 0) (\<lambda>a. ebind (jvalue get_int st ''suspended'' 0) (add_int a)) of
                  Inl e \<Rightarrow> if e = NoMeaning then Inl e else Inr (used, 0)
                | Inr live \<Rightarrow> Inr (used, live))))"

text \<open>The loop: round \<open>n\<close>, and whether the deadline had passed after it. \<open>None\<close>: it never ends.\<close>

partial_function (option) wait_loop :: "(nat \<Rightarrow> Round) \<Rightarrow> (nat \<Rightarrow> bool) \<Rightarrow> nat \<Rightarrow> Round option" where
  "wait_loop rounds late n =
     (case rounds n of
        NotYet \<Rightarrow> if late n then Some (Settled 3) else wait_loop rounds late (n + 1)
      | r \<Rightarrow> Some r)"

text \<open>The answers of round \<open>n\<close>, the figures the first of them gives, and the deadline.\<close>

definition wait_status :: "(nat \<Rightarrow> curl) \<Rightarrow> string list \<Rightarrow> string \<Rightarrow> nat \<Rightarrow> FanIn list" where
  "wait_status perform hosts token n = fan (perform n) hosts token ''GET'' ''/v1/status'' []"

definition wait_bases :: "(string \<Rightarrow> json option) \<Rightarrow> int \<Rightarrow> FanIn list \<Rightarrow> json_error + (int \<times> int) list" where
  "wait_bases parse delta rows = (if delta > 0 then emap (wait_base parse) rows else Inr (replicate (length rows) (0, 0)))"

definition wait_late :: "(nat \<Rightarrow> int) \<Rightarrow> int \<Rightarrow> nat \<Rightarrow> bool" where
  "wait_late clock timeout n \<longleftrightarrow> clock n \<ge> clock 0 + timeout * 1000000000"

definition wait_command ::
  "(nat \<Rightarrow> curl) \<Rightarrow> (string \<Rightarrow> json option) \<Rightarrow> (nat \<Rightarrow> int) \<Rightarrow> string list \<Rightarrow> string \<Rightarrow> int \<Rightarrow> int \<Rightarrow> Round option" where
  "wait_command perform parse clock hosts token timeout delta =
     (let status = wait_status perform hosts token
      in if delta > 0 \<and> failIfAny (status 0) 200 200 \<noteq> 0 then Some (Settled 1)
         else case wait_bases parse delta (status 0) of
                Inl e \<Rightarrow> Some (round_failed e)
              | Inr base \<Rightarrow> wait_loop (\<lambda>n. wait_round parse delta base (status n)) (wait_late clock timeout) 1)"

section \<open>Commands\<close>

datatype Output = Help | Bodies "(string \<times> string) list" | Printed string | Wrote string string | Waited int

datatype Outcome = Exit int "Output list" | Terminated | OutcomeUndefined

definition run_failed :: "json_error \<Rightarrow> Outcome" where
  "run_failed e = (if e = NoMeaning then OutcomeUndefined else Terminated)"

record CtlOptions =
  cx_help :: bool
  cx_command :: "string option"
  cx_token :: "string option"
  cx_host :: "string list option"
  cx_hosts :: "string option"
  cx_count :: int
  cx_id :: "string option"
  cx_out :: "string option"
  cx_in :: "string list option"
  cx_timeoutSec :: int
  cx_activeDelta :: int
  cx_stableSec :: int

definition bodies :: "FanIn list \<Rightarrow> Output" where
  "bodies rows = Bodies (map (\<lambda>r. (fi_host r, hr_body (fi_res r))) rows)"

definition deliver :: "CtlOptions \<Rightarrow> string \<Rightarrow> Output" where
  "deliver cli text = (case cx_out cli of Some path \<Rightarrow> Wrote path text | None \<Rightarrow> Printed text)"

definition finish :: "(json \<Rightarrow> string option) \<Rightarrow> CtlOptions \<Rightarrow> int \<Rightarrow> json \<Rightarrow> Outcome" where
  "finish pretty cli rc j = (case pretty j of None \<Rightarrow> Terminated | Some text \<Rightarrow> Exit rc [deliver cli text])"

text \<open>\<^verbatim>\<open>j[key] = v\<close> on a parsed value: null becomes an object, other values but objects raise.\<close>

definition set_key :: "string \<Rightarrow> json \<Rightarrow> json \<Rightarrow> json option" where
  "set_key k v j = (case j of JObj kvs \<Rightarrow> Some (jset k v j) | JNull \<Rightarrow> Some (JObj [(k, v)]) | _ \<Rightarrow> None)"

definition stats_command :: "(string \<Rightarrow> json option) \<Rightarrow> (json \<Rightarrow> string option) \<Rightarrow> int \<Rightarrow> CtlOptions \<Rightarrow> FanIn list \<Rightarrow> Outcome" where
  "stats_command parse pretty sysNs cli rows =
     (let snaps = List.map_filter (\<lambda>r. if hr_status (fi_res r) = 200 then parse (hr_body (fi_res r)) else None) rows
      in case mergeFleetStats sysNs snaps of
           Inl e \<Rightarrow> run_failed e
         | Inr fleet \<Rightarrow> finish pretty cli (failIfAny rows 200 200) fleet)"

text \<open>The documents of the hosts that closed their rung, and whether any did not read.\<close>

definition host_document :: "(string \<Rightarrow> json option) \<Rightarrow> FanIn \<Rightarrow> json option" where
  "host_document parse r = Option.bind (parse (hr_body (fi_res r))) (set_key ''host'' (JStr (fi_host r)))"

definition rung_close_command :: "(string \<Rightarrow> json option) \<Rightarrow> (json \<Rightarrow> string option) \<Rightarrow> int \<Rightarrow> CtlOptions \<Rightarrow> FanIn list \<Rightarrow> Outcome" where
  "rung_close_command parse pretty sysNs cli rows =
     (let answered = filter (\<lambda>r. hr_status (fi_res r) = 200) rows;
          snaps = List.map_filter (host_document parse) answered;
          rc = (if list_ex (\<lambda>r. host_document parse r = None) answered then 1 else failIfAny rows 200 200)
      in case mergeFleetStats sysNs snaps of
           Inl e \<Rightarrow> run_failed e
         | Inr fleet \<Rightarrow>
             let fleet = jset ''per_host'' (JArr snaps) fleet
             in (case jlookup fleet ''warning'' of
                   None \<Rightarrow> finish pretty cli rc fleet
                 | Some (JStr s) \<Rightarrow> finish pretty cli (if rc = 0 then 1 else rc) fleet
                 | Some _ \<Rightarrow> Terminated))"

fun read_inputs :: "(string \<Rightarrow> json option) \<Rightarrow> (string \<Rightarrow> string option) \<Rightarrow> string list \<Rightarrow> Outcome + json list" where
  "read_inputs scan files [] = Inr []"
| "read_inputs scan files (path # paths) =
     (case files path of
        None \<Rightarrow> Inl (Exit 1 [])
      | Some text \<Rightarrow>
          (case scan text of
             None \<Rightarrow> Inl Terminated
           | Some j \<Rightarrow> map_sum id (\<lambda>js. j # js) (read_inputs scan files paths)))"

definition aggregate_command ::
  "(string \<Rightarrow> json option) \<Rightarrow> (json \<Rightarrow> string option) \<Rightarrow> (string \<Rightarrow> string option) \<Rightarrow> int \<Rightarrow> CtlOptions \<Rightarrow> Outcome" where
  "aggregate_command scan pretty files sysNs cli =
     (case cx_in cli of
        None \<Rightarrow> Exit 2 []
      | Some paths \<Rightarrow>
          (case read_inputs scan files paths of
             Inl out \<Rightarrow> out
           | Inr snaps \<Rightarrow>
               (case mergeFleetStats sysNs snaps of
                  Inl e \<Rightarrow> run_failed e
                | Inr fleet \<Rightarrow>
                    (case jlookup fleet ''warning'' of
                       None \<Rightarrow> finish pretty cli 0 fleet
                     | Some (JStr s) \<Rightarrow> finish pretty cli 1 fleet
                     | Some _ \<Rightarrow> Terminated))))"

definition host_commands :: "string set" where
  "host_commands = {''status'', ''stats'', ''add'', ''wait'', ''rung-open'', ''rung-close'', ''shutdown''}"

text \<open>One command over a list of hosts, after the check that there are any.\<close>

definition run_command ::
  "(nat \<Rightarrow> curl) \<Rightarrow> (string \<Rightarrow> json option) \<Rightarrow> (json \<Rightarrow> string option) \<Rightarrow> (json \<Rightarrow> string option) \<Rightarrow> (nat \<Rightarrow> int) \<Rightarrow> int \<Rightarrow> CtlOptions \<Rightarrow> string \<Rightarrow> string list \<Rightarrow> string \<Rightarrow>
     Outcome option" where
  "run_command perform parse dump pretty clock sysNs cli token hosts cmd =
     (let ask = fan (perform 0) hosts token in
      if cmd = ''status'' then
        (let rows = ask ''GET'' ''/v1/status'' [] in Some (Exit (failIfAny rows 200 200) [bodies rows]))
      else if cmd = ''stats'' then Some (stats_command parse pretty sysNs cli (ask ''GET'' ''/v1/stats'' []))
      else if cmd = ''add'' then
        (if cx_count cli < 1 then Some (Exit 2 [])
         else case dump (JObj [(''count'', jint (cx_count cli))]) of
                None \<Rightarrow> Some Terminated
              | Some body \<Rightarrow> (let rows = ask ''POST'' ''/v1/clients/add'' body in Some (Exit (failIfAny rows 202 202) [bodies rows])))
      else if cmd = ''wait'' then
        (case wait_command perform parse clock hosts token (cx_timeoutSec cli) (cx_activeDelta cli) of
           None \<Rightarrow> None
         | Some (Settled rc) \<Rightarrow> Some (Exit rc (if rc = 0 \<and> cx_stableSec cli > 0 then [Waited (cx_stableSec cli)] else []))
         | Some RoundUndefined \<Rightarrow> Some OutcomeUndefined
         | Some r \<Rightarrow> Some Terminated)
      else if cmd = ''rung-open'' then
        (let rung = (case cx_id cli of Some i \<Rightarrow> i | None \<Rightarrow> []) in
         if rung = [] then Some (Exit 2 [])
         else case dump (JObj [(''id'', JStr rung)]) of
                None \<Rightarrow> Some Terminated
              | Some body \<Rightarrow> (let rows = ask ''POST'' ''/v1/rung/open'' body in Some (Exit (failIfAny rows 200 200) [bodies rows])))
      else if cmd = ''rung-close'' then
        Some (rung_close_command parse pretty sysNs cli (ask ''POST'' ''/v1/rung/close'' ''{}''))
      else Some (Exit (failIfAny (ask ''POST'' ''/v1/shutdown'' ''{}'') 200 200) []))"

text \<open>\<open>parsed\<close>: the command line, unless it did not parse.\<close>

definition ctl_main ::
  "(nat \<Rightarrow> curl) \<Rightarrow> (string \<Rightarrow> json option) \<Rightarrow> (string \<Rightarrow> json option) \<Rightarrow> (json \<Rightarrow> string option) \<Rightarrow> (json \<Rightarrow> string option) \<Rightarrow> (nat \<Rightarrow> int) \<Rightarrow> int \<Rightarrow>
     (string \<Rightarrow> string option) \<Rightarrow> string option \<Rightarrow> CtlOptions option \<Rightarrow> Outcome option" where
  "ctl_main perform parse scan dump pretty clock sysNs files env parsed =
     (case parsed of
        None \<Rightarrow> Some (Exit 2 [])
      | Some cli \<Rightarrow>
          (case (cx_help cli, cx_command cli) of
             (False, Some cmd) \<Rightarrow>
               let token = envToken env (case cx_token cli of Some t \<Rightarrow> t | None \<Rightarrow> []);
                   extra = (case cx_host cli of Some hs \<Rightarrow> hs | None \<Rightarrow> [])
               in (case loadHosts files (case cx_hosts cli of Some p \<Rightarrow> p | None \<Rightarrow> []) extra of
                     None \<Rightarrow> Some (Exit 2 [])
                   | Some hosts \<Rightarrow>
                       if cmd \<in> host_commands then
                         if hosts = [] then Some (Exit 2 [])
                         else run_command perform parse dump pretty clock sysNs cli token hosts cmd
                       else if cmd = ''aggregate'' then Some (aggregate_command scan pretty files sysNs cli)
                       else Some (Exit 2 []))
           | (help, _) \<Rightarrow> Some (Exit (if help then 0 else 2) [Help])))"

section \<open>Facts\<close>

lemma wait_loop_exact:
  assumes "late k" "n \<le> k"
  shows "\<exists>m. n \<le> m \<and> m \<le> k \<and> (\<forall>i. n \<le> i \<and> i < m \<longrightarrow> rounds i = NotYet \<and> \<not> late i) \<and>
     (if rounds m = NotYet then late m \<and> wait_loop rounds late n = Some (Settled 3) else wait_loop rounds late n = Some (rounds m))"
  using assms(2)
proof (induction "k - n" arbitrary: n)
  case 0
  then have "n = k" by simp
  moreover have "wait_loop rounds late n = (case rounds n of NotYet \<Rightarrow> if late n then Some (Settled 3) else wait_loop rounds late (n + 1) | r \<Rightarrow> Some r)"
    by (rule wait_loop.simps)
  ultimately show ?case using assms(1) by (intro exI [of _ n]) (cases "rounds n"; auto)
next
  case (Suc d)
  show ?case
  proof (cases "rounds n = NotYet \<and> \<not> late n")
    case True
    have "d = k - Suc n" "Suc n \<le> k" using Suc.hyps(2) Suc.prems by simp_all
    from Suc.hyps(1) [OF this] obtain m where m: "Suc n \<le> m" "m \<le> k" "\<forall>i. Suc n \<le> i \<and> i < m \<longrightarrow> rounds i = NotYet \<and> \<not> late i"
      "if rounds m = NotYet then late m \<and> wait_loop rounds late (Suc n) = Some (Settled 3) else wait_loop rounds late (Suc n) = Some (rounds m)"
      by blast
    have "rounds i = NotYet \<and> \<not> late i" if "n \<le> i \<and> i < m" for i using that True m(3) by (cases "i = n") auto
    moreover have "wait_loop rounds late n = wait_loop rounds late (Suc n)" using True by (simp add: wait_loop.simps [of _ _ n])
    ultimately show ?thesis using m by (intro exI [of _ m]) auto
  next
    case False
    then show ?thesis using Suc.prems
      by (intro exI [of _ n]) (auto simp: wait_loop.simps [of _ _ n] split: Round.split)
  qed
qed

text \<open>What it means for a host to be done: its document, read the way the loop reads it.\<close>

definition host_settled :: "(string \<Rightarrow> json option) \<Rightarrow> int \<Rightarrow> FanIn \<Rightarrow> int \<times> int \<Rightarrow> bool" where
  "host_settled parse delta r base \<longleftrightarrow> row_ok 200 200 r \<and>
     (\<exists>st. parse (hr_body (fi_res r)) = Some st \<and> jvalue get_bool st ''busy'' False = Inr False \<and>
        jvalue get_string st ''add_error'' [] = Inr [] \<and>
        (delta > 0 \<longrightarrow> (\<exists>used active suspended. jvalue get_int st ''used'' 0 = Inr used \<and> jvalue get_int st ''active'' 0 = Inr active \<and>
           jvalue get_int st ''suspended'' 0 = Inr suspended \<and> fst base + delta \<le> used \<and> snd base + delta \<le> active + suspended)))"

lemma wait_row_done:
  assumes "wait_row parse delta (r, b) ws = Inr ws'" "ws_idle ws'" "ws_grown ws'" "\<not> ws_failed ws'"
  shows "ws_idle ws \<and> ws_grown ws \<and> \<not> ws_failed ws \<and> (row_ok 200 200 r \<longrightarrow> host_settled parse delta r b)"
  using assms
  by (cases b; cases "delta > 0")
    (auto simp: wait_row_def has_grown_def add_int_def host_settled_def ebind_Inr_iff split: option.splits if_splits)

lemma wait_rows_done:
  assumes "wait_rows parse delta rbs ws = Inr ws'" "ws_idle ws'" "ws_grown ws'" "\<not> ws_failed ws'" "(r, b) \<in> set rbs" "row_ok 200 200 r"
  shows "host_settled parse delta r b"
proof -
  have "ws_idle ws \<and> ws_grown ws \<and> \<not> ws_failed ws \<and> (\<forall>(r, b) \<in> set rbs. row_ok 200 200 r \<longrightarrow> host_settled parse delta r b)"
    using assms(1)
  proof (induction rbs arbitrary: ws)
    case (Cons rb rbs)
    obtain r b where rb: "rb = (r, b)" by (cases rb)
    from Cons.prems obtain v where v: "wait_row parse delta (r, b) ws = Inr v" "wait_rows parse delta rbs v = Inr ws'"
      by (auto simp: rb ebind_Inr_iff)
    show ?case using Cons.IH [OF v(2)] wait_row_done [OF v(1)] by (auto simp: rb)
  qed (use assms(2-4) in simp)
  with assms(5,6) show ?thesis by auto
qed

lemma wait_round_done:
  assumes "wait_round parse delta base rows = Settled 0" "length base = length rows" "i < length rows"
  shows "host_settled parse delta (rows ! i) (base ! i)"
proof -
  have ok: "list_all (row_ok 200 200) rows" using assms(1) by (auto simp: wait_round_def failIfAny_def split: if_splits)
  obtain ws where ws: "wait_rows parse delta (zip rows base) \<lparr>ws_idle = True, ws_grown = True, ws_failed = False\<rparr> = Inr ws"
    "ws_idle ws" "ws_grown ws" "\<not> ws_failed ws"
    using assms(1) by (auto simp: wait_round_def round_failed_def split: if_splits sum.splits)
  show ?thesis
    by (rule wait_rows_done [OF ws]) (use ok assms(2,3) in \<open>auto simp: set_zip list_all_length\<close>)
qed

lemma wait_bases_failed: "wait_bases parse delta rows = Inl e \<Longrightarrow> e = NoMeaning"
proof -
  have "wait_base parse r = Inl e \<Longrightarrow> e = NoMeaning" for r
    by (auto simp: wait_base_def split: option.splits sum.splits if_splits)
  then have "emap (wait_base parse) rows = Inl e \<Longrightarrow> e = NoMeaning"
    by (induction rows) (auto simp: ebind_Inl_iff)
  then show "wait_bases parse delta rows = Inl e \<Longrightarrow> e = NoMeaning" by (simp add: wait_bases_def split: if_splits)
qed

lemma wait_bases_length: "wait_bases parse delta rows = Inr base \<Longrightarrow> length base = length rows"
  by (auto simp: wait_bases_def emap_length split: if_splits)

section \<open>Properties\<close>



end
