(* ===== verification/Network.thy ===== *)
theory Network
  imports ControlServer Ctl
begin

text \<open>
  The driver and the control ports of a fleet on one network: what it takes for a request of
  \<^verbatim>\<open>src/ctl.cpp\<close> to be answered by a generator's \<^verbatim>\<open>src/ControlServer.cpp\<close>. Nodes pair a base URL
  with a generator's configuration and state; the network and the text of JSON are hypotheses.
\<close>

section \<open>Nodes\<close>

text \<open>
  \<open>reaches\<close>: a request of the driver to a host's base URL reaches that host's control port, and
  the port's answer reaches the driver.
\<close>

definition delivered :: "(HttpAnswer \<times> Harness) option \<Rightarrow> CurlResult" where
  "delivered r =
     (case r of Some (Answered code body, h') \<Rightarrow> CurlDone code body | Some (Unrouted, h') \<Rightarrow> CurlDone 404 []
      | None \<Rightarrow> CurlError ''connection lost'' [])"

definition asked_as :: "string \<Rightarrow> string \<Rightarrow> string \<Rightarrow> string \<Rightarrow> HttpRequest" where
  "asked_as token meth path body = \<lparr>hq_method = (if meth = ''POST'' then POST else GET), hq_path = path,
     hq_authorization = (if token \<noteq> [] then ''Bearer '' @ token else []), hq_body = body\<rparr>"

definition curl_request :: "string \<Rightarrow> string \<Rightarrow> string \<Rightarrow> string \<Rightarrow> CurlRequest" where
  "curl_request token meth url body = \<lparr>xr_post = (meth = ''POST''), xr_url = url,
     xr_headers = [''Accept: application/json'', ''Content-Type: application/json''] @
       (if token \<noteq> [] then [''Authorization: Bearer '' @ token] else []),
     xr_body = (if meth = ''POST'' then body else [])\<rparr>"

record Node =
  nd_url :: string
  nd_config :: Config
  nd_readings :: Readings
  nd_harness :: Harness

definition node_serve ::
  "json_parser \<Rightarrow> (json_error \<Rightarrow> string) \<Rightarrow> (json \<Rightarrow> string option) \<Rightarrow> string \<Rightarrow> string \<Rightarrow> string \<Rightarrow> string \<Rightarrow> Node \<Rightarrow> (HttpAnswer \<times> Harness) option" where
  "node_serve sparse what dump token meth path body n =
     serve sparse what dump (nd_config n) (cf_controlToken (nd_config n)) (nd_readings n) (asked_as token meth path body) (nd_harness n)"

definition reaches :: "json_parser \<Rightarrow> (json_error \<Rightarrow> string) \<Rightarrow> (json \<Rightarrow> string option) \<Rightarrow> string \<Rightarrow> curl \<Rightarrow> Node \<Rightarrow> bool" where
  "reaches sparse what dump token perform n \<longleftrightarrow>
     (\<forall>path body. perform (curl_request token ''POST'' (joinUrl (nd_url n) path) body) =
        delivered (node_serve sparse what dump token ''POST'' path body n))"

text \<open>The driver's parser: the value or nothing.\<close>

definition optional :: "json_parser \<Rightarrow> string \<Rightarrow> json option" where
  "optional parse text = (case parse text of Inr j \<Rightarrow> Some j | Inl e \<Rightarrow> None)"

definition admits :: "string \<Rightarrow> Node \<Rightarrow> bool" where
  "admits token n \<longleftrightarrow> cf_controlToken (nd_config n) = [] \<or> token = cf_controlToken (nd_config n)"

lemma http_curl: "http perform ''POST'' url token body =
   (case perform (curl_request token ''POST'' url body) of
      CurlInitFailed \<Rightarrow> \<lparr>hr_status = 0, hr_body = [], hr_error = ''curl_easy_init failed''\<rparr>
    | CurlError e received \<Rightarrow> \<lparr>hr_status = 0, hr_body = received, hr_error = e\<rparr>
    | CurlDone code received \<Rightarrow> \<lparr>hr_status = code, hr_body = received, hr_error = []\<rparr>)"
  by (simp add: http_def curl_request_def)

lemma bearer_admits: "admits token n \<Longrightarrow> bearerOk (asked_as token meth path body) (cf_controlToken (nd_config n))"
  by (auto simp: admits_def bearerOk_def asked_as_def)

lemma fan_nodes:
  assumes "\<forall>n \<in> set ns. reaches sparse what dump token perform n"
  shows "fan perform (map nd_url ns) token ''POST'' path body =
    map (\<lambda>n. \<lparr>fi_host = nd_url n, fi_res = (case delivered (node_serve sparse what dump token ''POST'' path body n) of
      CurlInitFailed \<Rightarrow> \<lparr>hr_status = 0, hr_body = [], hr_error = ''curl_easy_init failed''\<rparr>
    | CurlError e received \<Rightarrow> \<lparr>hr_status = 0, hr_body = received, hr_error = e\<rparr>
    | CurlDone code received \<Rightarrow> \<lparr>hr_status = code, hr_body = received, hr_error = []\<rparr>)\<rparr>) ns"
  using assms by (auto simp: fan_def http_curl reaches_def)

text \<open>The same for a poll of the status document, which changes nothing.\<close>

definition polled :: "json_parser \<Rightarrow> (json_error \<Rightarrow> string) \<Rightarrow> (json \<Rightarrow> string option) \<Rightarrow> string \<Rightarrow> curl \<Rightarrow> Node \<Rightarrow> bool" where
  "polled sparse what dump token perform n \<longleftrightarrow>
     perform (curl_request token ''GET'' (joinUrl (nd_url n) ''/v1/status'') []) =
       delivered (node_serve sparse what dump token ''GET'' ''/v1/status'' [] n)"

lemma node_status:
  assumes "admits token n"
  shows "node_serve sparse what dump token ''GET'' ''/v1/status'' body n =
     Some (jsonRes dump 200 (statusJson (nd_config n) (nd_harness n)), nd_harness n)"
proof -
  have "node_serve sparse what dump token ''GET'' ''/v1/status'' body n =
      dispatch sparse what dump (nd_config n) (nd_readings n) (asked_as token ''GET'' ''/v1/status'' body) (nd_harness n)"
    using bearer_admits [OF assms] by (simp add: node_serve_def serve_def routed_def) (simp add: asked_as_def)
  then show ?thesis by (simp add: dispatch_def asked_as_def)
qed

lemma polled_http:
  assumes "polled sparse what dump token perform n" "admits token n" "dump (statusJson (nd_config n) (nd_harness n)) = Some text"
  shows "http perform ''GET'' (joinUrl (nd_url n) ''/v1/status'') token [] = \<lparr>hr_status = 200, hr_body = text, hr_error = []\<rparr>"
  using assms node_status [OF assms(2)] by (simp add: http_def polled_def curl_request_def delivered_def jsonRes_def)

text \<open>A fleet of one, just created.\<close>

definition lone_node :: Node where
  "lone_node = \<lparr>nd_url = ''http://a'', nd_config = roster_config,
     nd_readings = \<lparr>rd_sysNs = 0, rd_steadyNs = 0, rd_writable = True, rd_used = 0\<rparr>, nd_harness = new_harness\<rparr>"

end
