(* ===== verification/Generator.thy ===== *)
theory Generator
  imports Harness
begin

text \<open>
  The generator's main thread (\<^verbatim>\<open>src/main.cpp\<close>): the loop that waits for the end of a run and
  watches that something is received, and the exit code. One turn of the loop is one
  observation: the flags read at its head, then the clock and the counters. A list of
  observations that runs out is a run that has not ended. Signals, start-up output and the
  clean-up of the HTTP library are not modelled.
\<close>

section \<open>The loop\<close>

record Observation =
  ob_stop :: bool
  ob_now :: int
  ob_active :: int
  ob_suspended :: int
  ob_txPackets :: u64
  ob_rxDatagrams :: u64

record Watch =
  wt_healthArmed :: bool
  wt_healthFrom :: int

definition Watch_init :: Watch where
  "Watch_init = \<lparr>wt_healthArmed = False, wt_healthFrom = 0\<rparr>"

datatype Ending = Stopped | DurationReached | RxHealthFailed

definition seconds_ns :: "int \<Rightarrow> int" where
  "seconds_ns s = s * 1000000000"

definition watch_arm :: "Observation \<Rightarrow> Watch \<Rightarrow> Watch" where
  "watch_arm ob w =
     (let live = ob_active ob + ob_suspended ob
      in if live > 1 \<and> \<not> wt_healthArmed w then w\<lparr>wt_healthArmed := True, wt_healthFrom := ob_now ob\<rparr> else w)"

definition rx_failed :: "Config \<Rightarrow> Observation \<Rightarrow> Watch \<Rightarrow> bool" where
  "rx_failed cfg ob w \<longleftrightarrow>
     cf_rxHealthTimeoutSec cfg > 0 \<and> wt_healthArmed w \<and>
     ob_now ob - wt_healthFrom w \<ge> seconds_ns (cf_rxHealthTimeoutSec cfg) \<and>
     ob_txPackets ob > 0 \<and> ob_rxDatagrams ob = 0"

definition duration_reached :: "Config \<Rightarrow> int \<Rightarrow> Observation \<Rightarrow> bool" where
  "duration_reached cfg testStart ob \<longleftrightarrow>
     cf_durationSec cfg > 0 \<and> ob_now ob - testStart \<ge> seconds_ns (cf_durationSec cfg)"

fun main_loop :: "Config \<Rightarrow> int \<Rightarrow> Observation list \<Rightarrow> Watch \<Rightarrow> Ending option" where
  "main_loop cfg testStart [] w = None"
| "main_loop cfg testStart (ob # obs) w =
     (if ob_stop ob then Some Stopped
      else if duration_reached cfg testStart ob then Some DurationReached
      else let w = watch_arm ob w
           in if rx_failed cfg ob w then Some RxHealthFailed else main_loop cfg testStart obs w)"

text \<open>\<open>started\<close>: what \<^verbatim>\<open>Harness::start\<close> returned; \<open>stopped\<close>: the signal flag after a failed start.\<close>

definition main_exit :: "Config \<Rightarrow> bool \<Rightarrow> bool \<Rightarrow> int \<Rightarrow> Observation list \<Rightarrow> int option" where
  "main_exit cfg started stopped testStart obs =
     (if \<not> started then Some (if stopped then 130 else 1)
      else case main_loop cfg testStart obs Watch_init of
             None \<Rightarrow> None
           | Some e \<Rightarrow> Some (if e = RxHealthFailed then 3 else 0))"

section \<open>Facts\<close>

text \<open>The watch as it is after the first \<open>j + 1\<close> observations.\<close>

definition watch_at :: "Observation list \<Rightarrow> nat \<Rightarrow> Watch \<Rightarrow> Watch" where
  "watch_at obs j w = fold watch_arm (take (Suc j) obs) w"

lemma watch_at_simps [simp]:
  "watch_at (ob # obs) 0 w = watch_arm ob w" "watch_at (ob # obs) (Suc j) w = watch_at obs j (watch_arm ob w)"
  by (simp_all add: watch_at_def)

lemma armed_stays: "wt_healthArmed w \<Longrightarrow> watch_at obs j w = w"
proof -
  assume "wt_healthArmed w"
  then have "fold watch_arm xs w = w" for xs by (induction xs) (simp_all add: watch_arm_def)
  then show ?thesis by (simp add: watch_at_def)
qed

definition lively :: "Observation \<Rightarrow> bool" where
  "lively ob \<longleftrightarrow> ob_active ob + ob_suspended ob > 1"

lemma watch_at_exact:
  "j < length obs \<Longrightarrow> \<not> wt_healthArmed w \<Longrightarrow>
     (wt_healthArmed (watch_at obs j w) \<and> wt_healthFrom (watch_at obs j w) = t \<longleftrightarrow>
      (\<exists>i \<le> j. lively (obs ! i) \<and> (\<forall>k < i. \<not> lively (obs ! k)) \<and> t = ob_now (obs ! i)))"
proof (induction obs arbitrary: j w)
  case (Cons ob obs)
  show ?case
  proof (cases "lively ob")
    case True
    then have w: "watch_arm ob w = w\<lparr>wt_healthArmed := True, wt_healthFrom := ob_now ob\<rparr>"
      using Cons.prems by (simp add: watch_arm_def lively_def)
    have "watch_at (ob # obs) j w = watch_arm ob w" by (cases j) (simp_all add: w armed_stays)
    moreover have "(\<exists>i \<le> j. lively ((ob # obs) ! i) \<and> (\<forall>k < i. \<not> lively ((ob # obs) ! k)) \<and> t = ob_now ((ob # obs) ! i)) \<longleftrightarrow> t = ob_now ob"
    proof
      assume "\<exists>i \<le> j. lively ((ob # obs) ! i) \<and> (\<forall>k < i. \<not> lively ((ob # obs) ! k)) \<and> t = ob_now ((ob # obs) ! i)"
      then obtain i where i: "\<forall>k < i. \<not> lively ((ob # obs) ! k)" "t = ob_now ((ob # obs) ! i)" by blast
      with True have "i = 0" by (cases i) auto
      with i show "t = ob_now ob" by simp
    next
      assume "t = ob_now ob"
      with True show "\<exists>i \<le> j. lively ((ob # obs) ! i) \<and> (\<forall>k < i. \<not> lively ((ob # obs) ! k)) \<and> t = ob_now ((ob # obs) ! i)"
        by (intro exI [of _ 0]) simp
    qed
    ultimately show ?thesis by (auto simp: w)
  next
    case False
    then have w: "watch_arm ob w = w" by (simp add: watch_arm_def lively_def)
    show ?thesis
    proof (cases j)
      case 0
      then show ?thesis using False Cons.prems by (auto simp: w)
    next
      case (Suc m)
      have "(\<exists>i \<le> Suc m. lively ((ob # obs) ! i) \<and> (\<forall>k < i. \<not> lively ((ob # obs) ! k)) \<and> t = ob_now ((ob # obs) ! i)) \<longleftrightarrow>
          (\<exists>i \<le> m. lively (obs ! i) \<and> (\<forall>k < i. \<not> lively (obs ! k)) \<and> t = ob_now (obs ! i))" (is "?a = ?b")
      proof
        assume ?a
        then obtain i where i: "i \<le> Suc m" "lively ((ob # obs) ! i)" "\<forall>k < i. \<not> lively ((ob # obs) ! k)" "t = ob_now ((ob # obs) ! i)" by blast
        with False obtain n where "i = Suc n" by (cases i) auto
        with i show ?b by (intro exI [of _ n]) (auto dest: spec [of _ "Suc k" for k])
      next
        assume ?b
        then obtain i where i: "i \<le> m" "lively (obs ! i)" "\<forall>k < i. \<not> lively (obs ! k)" "t = ob_now (obs ! i)" by blast
        with False show ?a by (intro exI [of _ "Suc i"]) (auto simp: nth_Cons less_Suc_eq_0_disj split: nat.splits)
      qed
      then show ?thesis using Cons.IH [of m w] Cons.prems by (simp add: Suc w)
    qed
  qed
qed simp

definition ends_early :: "Config \<Rightarrow> int \<Rightarrow> Observation \<Rightarrow> bool" where
  "ends_early cfg testStart ob \<longleftrightarrow> ob_stop ob \<or> duration_reached cfg testStart ob"

lemma main_loop_failed:
  "main_loop cfg t obs w = Some RxHealthFailed \<longleftrightarrow>
     (\<exists>j < length obs. rx_failed cfg (obs ! j) (watch_at obs j w) \<and> (\<forall>k \<le> j. \<not> ends_early cfg t (obs ! k)))"
proof (induction obs arbitrary: w)
  case (Cons ob obs)
  let ?P = "\<lambda>obs w j. rx_failed cfg (obs ! j) (watch_at obs j w) \<and> (\<forall>k \<le> j. \<not> ends_early cfg t (obs ! k))"
  have "(\<exists>j < length (ob # obs). ?P (ob # obs) w j) \<longleftrightarrow> \<not> ends_early cfg t ob \<and>
      (rx_failed cfg ob (watch_arm ob w) \<or> (\<exists>j < length obs. ?P obs (watch_arm ob w) j))" (is "?a = ?b")
  proof
    assume ?a
    then obtain j where j: "j < length (ob # obs)" "?P (ob # obs) w j" by blast
    then show ?b by (cases j) force+
  next
    assume b: ?b
    show ?a
    proof (cases "rx_failed cfg ob (watch_arm ob w)")
      case True
      with b show ?thesis by (intro exI [of _ 0]) simp
    next
      case False
      with b obtain j where "j < length obs" "?P obs (watch_arm ob w) j" by blast
      with b show ?thesis by (intro exI [of _ "Suc j"]) (auto simp: nth_Cons split: nat.splits)
    qed
  qed
  then show ?case using Cons.IH [of "watch_arm ob w"] by (auto simp: ends_early_def Let_def)
qed simp

lemma main_loop_ends: "ob \<in> set obs \<Longrightarrow> ends_early cfg t ob \<Longrightarrow> main_loop cfg t obs w \<noteq> None"
  by (induction obs arbitrary: w) (auto simp: ends_early_def Let_def)

section \<open>Properties\<close>

text \<open>
  C29. A started generator exits with code 3 exactly when, at some turn of the loop before the run
  was stopped or its duration reached, packets had been sent and nothing received although the
  configured number of seconds had passed since the first turn that saw more than one live
  client; without a timeout it never does. The loop ends no later than the first turn that sees
  the stop flag or the end of the configured duration.
\<close>

theorem rx_health_exact:
  "(main_exit cfg True stopped testStart obs = Some 3 \<longleftrightarrow>
     (\<exists>j < length obs. \<exists>i \<le> j. cf_rxHealthTimeoutSec cfg > 0 \<and>
        lively (obs ! i) \<and> (\<forall>k < i. \<not> lively (obs ! k)) \<and>
        ob_now (obs ! j) - ob_now (obs ! i) \<ge> seconds_ns (cf_rxHealthTimeoutSec cfg) \<and>
        ob_txPackets (obs ! j) > 0 \<and> ob_rxDatagrams (obs ! j) = 0 \<and>
        (\<forall>k \<le> j. \<not> ob_stop (obs ! k) \<and> \<not> duration_reached cfg testStart (obs ! k)))) \<and>
   (list_ex (\<lambda>ob. ob_stop ob \<or> duration_reached cfg testStart ob) obs \<longrightarrow> main_exit cfg True stopped testStart obs \<noteq> None)"
proof -
  have w: "\<not> wt_healthArmed Watch_init" by (simp add: Watch_init_def)
  have "rx_failed cfg (obs ! j) (watch_at obs j Watch_init) \<longleftrightarrow>
     (\<exists>i \<le> j. cf_rxHealthTimeoutSec cfg > 0 \<and> lively (obs ! i) \<and> (\<forall>k < i. \<not> lively (obs ! k)) \<and>
        ob_now (obs ! j) - ob_now (obs ! i) \<ge> seconds_ns (cf_rxHealthTimeoutSec cfg) \<and>
        ob_txPackets (obs ! j) > 0 \<and> ob_rxDatagrams (obs ! j) = 0)" if "j < length obs" for j
  proof -
    have "rx_failed cfg (obs ! j) (watch_at obs j Watch_init) \<longleftrightarrow>
       (\<exists>t. (wt_healthArmed (watch_at obs j Watch_init) \<and> wt_healthFrom (watch_at obs j Watch_init) = t) \<and>
          cf_rxHealthTimeoutSec cfg > 0 \<and> ob_now (obs ! j) - t \<ge> seconds_ns (cf_rxHealthTimeoutSec cfg) \<and>
          ob_txPackets (obs ! j) > 0 \<and> ob_rxDatagrams (obs ! j) = 0)"
      by (auto simp: rx_failed_def)
    then show ?thesis unfolding watch_at_exact [OF that w] by blast
  qed
  moreover have "main_exit cfg True stopped testStart obs = Some 3 \<longleftrightarrow> main_loop cfg testStart obs Watch_init = Some RxHealthFailed"
    by (auto simp: main_exit_def split: option.split)
  moreover have "main_exit cfg True stopped testStart obs \<noteq> None"
    if "list_ex (\<lambda>ob. ob_stop ob \<or> duration_reached cfg testStart ob) obs"
    using that main_loop_ends [of _ obs cfg testStart Watch_init]
    by (auto simp: main_exit_def list_ex_iff ends_early_def split: option.split)
  ultimately show ?thesis unfolding main_loop_failed ends_early_def by auto
qed

text \<open>Two clients, ten seconds, nothing received; then a run of five seconds.\<close>

theorem rx_health_exact_witness:
  "(let ob = (\<lambda>t. \<lparr>ob_stop = False, ob_now = t, ob_active = 2, ob_suspended = 0, ob_txPackets = 9, ob_rxDatagrams = 0\<rparr>) in
    main_exit sample_config True False 0 [ob 0, ob 10000000000] = Some 3 \<and>
    main_exit (sample_config\<lparr>cf_durationSec := 5\<rparr>) True False 0 [ob 5000000000] \<noteq> None)"
proof -
  let ?ob = "\<lambda>t. \<lparr>ob_stop = False, ob_now = t, ob_active = 2, ob_suspended = 0, ob_txPackets = 9, ob_rxDatagrams = 0\<rparr>"
  have c: "cf_rxHealthTimeoutSec sample_config = 10" "cf_durationSec sample_config = 0" by (simp_all add: sample_config_def Config_init_def)
  have "main_exit sample_config True False 0 [?ob 0, ?ob 10000000000] = Some 3"
    by (rule rx_health_exact [THEN conjunct1, THEN iffD2], rule exI [of _ 1], simp, rule exI [of _ 0])
      (auto simp: c lively_def seconds_ns_def duration_reached_def less_Suc_eq_le le_Suc_eq)
  moreover have "main_exit (sample_config\<lparr>cf_durationSec := 5\<rparr>) True False 0 [?ob 5000000000] \<noteq> None"
    by (rule rx_health_exact [THEN conjunct2, THEN mp]) (simp add: duration_reached_def seconds_ns_def)
  ultimately show ?thesis unfolding Let_def by (rule conjI)
qed

end
