(* ===== verification/Transport.thy ===== *)
theory Transport
  imports GraphQL
begin

text \<open>
  The GraphQL client down to the transfer (\<^verbatim>\<open>GraphQLClient\<close> in \<^verbatim>\<open>src/GraphQLClient.hpp\<close>,
  \<^verbatim>\<open>src/GraphQLClient.cpp\<close>): the options it sets, the bytes it collects, and its exceptions with
  their text. The transfer itself (libcurl) is a parameter, a function from the options to what
  comes back; so are the parser and the printer of JSON, which raises on a string that is not
  well-formed UTF-8. The abstract client of \<^verbatim>\<open>GraphQL\<close>, on
  which the provisioner is built, is shown to be what this one implements; a client for which
  libcurl has no handle raises before any request, and so does a request that does not print; the
  abstract client always has a handle and its requests always print.
\<close>

section \<open>Transfers\<close>

record Easy =
  ez_url :: string
  ez_post :: bool
  ez_postFields :: string
  ez_postFieldSize :: nat
  ez_headers :: "string list"
  ez_timeoutMs :: int
  ez_connectTimeoutMs :: int
  ez_followLocation :: bool
  ez_maxRedirs :: int
  ez_protocols :: "string list"
  ez_noSignal :: bool
  ez_verifyPeer :: bool
  ez_verifyHost :: bool

text \<open>
  \<open>tf_failed\<close>: the text of the error when the transfer is not \<^verbatim>\<open>CURLE_OK\<close>; \<open>tf_chunks\<close>: the pieces
  of the body, as they are handed to the write function.
\<close>

record Transfer =
  tf_failed :: "string option"
  tf_httpCode :: int
  tf_chunks :: "string list"

definition writeCb :: "string \<Rightarrow> string \<Rightarrow> nat \<times> string" where
  "writeCb ptr out = (length ptr, out @ ptr)"

definition collected :: "Transfer \<Rightarrow> string" where
  "collected t = fold (\<lambda>ptr out. snd (writeCb ptr out)) (tf_chunks t) []"

text \<open>A string handed over by \<^verbatim>\<open>c_str\<close> ends at its first zero octet.\<close>

definition c_str :: "string \<Rightarrow> string" where
  "c_str s = takeWhile (\<lambda>c. c \<noteq> CHR 0x00) s"

section \<open>The client\<close>

record GraphQLClient =
  gq_url :: string
  gq_tlsInsecure :: bool

datatype Raised = RaisedGraphQL string string bool | RaisedJson json_error

text \<open>\<open>ok\<close>: \<^verbatim>\<open>curl_easy_init\<close> returned a handle.\<close>

definition new_client :: "bool \<Rightarrow> string \<Rightarrow> bool \<Rightarrow> Raised + GraphQLClient" where
  "new_client ok url tlsInsecure =
     (if ok then Inr \<lparr>gq_url = graphqlEndpoint url, gq_tlsInsecure = tlsInsecure\<rparr>
      else Inl (RaisedGraphQL ''curl_easy_init failed'' [] True))"

definition easy_options :: "GraphQLClient \<Rightarrow> string \<Rightarrow> string \<Rightarrow> string list \<Rightarrow> Easy" where
  "easy_options cl payload bearer extraHeaders =
     \<lparr>ez_url = c_str (gq_url cl), ez_post = True, ez_postFields = payload, ez_postFieldSize = length payload,
      ez_headers = [''Content-Type: application/json''] @
        (if bearer \<noteq> [] then [c_str (''Authorization: Bearer '' @ bearer)] else []) @ map c_str extraHeaders,
      ez_timeoutMs = 30000, ez_connectTimeoutMs = 10000, ez_followLocation = False, ez_maxRedirs = 0,
      ez_protocols = [''https'', ''http''], ez_noSignal = True,
      ez_verifyPeer = (\<not> gq_tlsInsecure cl), ez_verifyHost = (\<not> gq_tlsInsecure cl)\<rparr>"

definition raised :: "json_error + 'a \<Rightarrow> Raised + 'a" where
  "raised r = map_sum RaisedJson id r"

text \<open>What is thrown for a document whose \<^verbatim>\<open>errors\<close> has a first element.\<close>

definition raise_first :: "json \<Rightarrow> Raised" where
  "raise_first first =
     (case raised (jvalue get_string first ''message'' ''unknown GraphQL error'') of
        Inl e \<Rightarrow> e
      | Inr message \<Rightarrow>
          (case jlookup first ''extensions'' of
             Some ext \<Rightarrow>
               if is_object ext
               then (case raised (jvalue get_string ext ''code'' []) of
                       Inl e \<Rightarrow> e
                     | Inr code \<Rightarrow> RaisedGraphQL message code False)
               else RaisedGraphQL message [] False
           | None \<Rightarrow> RaisedGraphQL message [] False))"

definition client_body :: "string \<Rightarrow> json \<Rightarrow> json" where
  "client_body query variables = JObj [(''query'', JStr query), (''variables'', variables)]"

text \<open>What a transfer means.\<close>

definition client_result :: "(string \<Rightarrow> string + json) \<Rightarrow> string \<Rightarrow> Transfer \<Rightarrow> Raised + json" where
  "client_result parse url t =
     (let response = collected t;
          httpCode = tf_httpCode t;
          transport = (\<lambda>text. Inl (RaisedGraphQL text [] True))
      in case tf_failed t of
           Some why \<Rightarrow> transport (''HTTP request to '' @ url @ '' failed: '' @ why)
         | None \<Rightarrow>
             (case parse response of
                Inl _ \<Rightarrow> transport (''non-JSON response (HTTP '' @ dec_int httpCode @ '') from '' @ url @ '': '' @ take 300 response)
              | Inr parsed \<Rightarrow>
                  (case jlookup parsed ''errors'' of
                     Some (JArr (first # _)) \<Rightarrow> Inl (raise_first first)
                   | _ \<Rightarrow>
                       if httpCode < 200 \<or> httpCode \<ge> 300
                       then transport (''HTTP '' @ dec_int httpCode @ '' from '' @ url @ '': '' @ take 300 response)
                       else (case jlookup parsed ''data'' of
                               None \<Rightarrow> transport (''GraphQL response missing data from '' @ url)
                             | Some d \<Rightarrow>
                                 if d = JNull then transport (''GraphQL response missing data from '' @ url)
                                 else Inr d))))"

text \<open>The transfer that is made, if any, and the result.\<close>

definition client_request ::
  "(Easy \<Rightarrow> Transfer) \<Rightarrow> (string \<Rightarrow> string + json) \<Rightarrow> (json \<Rightarrow> string option) \<Rightarrow> GraphQLClient \<Rightarrow> string \<Rightarrow> json \<Rightarrow> string \<Rightarrow>
     string list \<Rightarrow> Easy option \<times> (Raised + json)" where
  "client_request perform parse dump cl query variables bearer extraHeaders =
     (case dump (client_body query variables) of
        None \<Rightarrow> (None, Inl (RaisedJson (TypeError 316)))
      | Some payload \<Rightarrow>
          let ez = easy_options cl payload bearer extraHeaders
          in (Some ez, client_result parse (gq_url cl) (perform ez)))"

section \<open>The abstract client\<close>

text \<open>What the abstract client sees of a transfer.\<close>

definition http_answer :: "(string \<Rightarrow> string + json) \<Rightarrow> Transfer \<Rightarrow> Http" where
  "http_answer parse t =
     (if tf_failed t \<noteq> None then HFailed
      else HAnswer (tf_httpCode t) (case parse (collected t) of Inl _ \<Rightarrow> None | Inr j \<Rightarrow> Some j))"

text \<open>The text of a message, from what it names and the transfer it is about.\<close>

definition message_text :: "string \<Rightarrow> Transfer \<Rightarrow> message \<Rightarrow> string" where
  "message_text url t m =
     (case m of
        ApiSays s \<Rightarrow> s
      | CurlFailed \<Rightarrow> ''HTTP request to '' @ url @ '' failed: '' @ the (tf_failed t)
      | NonJson n \<Rightarrow> ''non-JSON response (HTTP '' @ dec_int n @ '') from '' @ url @ '': '' @ take 300 (collected t)
      | HttpStatus n \<Rightarrow> ''HTTP '' @ dec_int n @ '' from '' @ url @ '': '' @ take 300 (collected t)
      | MissingData \<Rightarrow> ''GraphQL response missing data from '' @ url
      | _ \<Rightarrow> [])"

definition concrete :: "string \<Rightarrow> Transfer \<Rightarrow> Exn + json \<Rightarrow> Raised + json" where
  "concrete url t r =
     (case r of
        Inr d \<Rightarrow> Inr d
      | Inl (GraphQLError m code transport) \<Rightarrow> Inl (RaisedGraphQL (message_text url t m) code transport)
      | Inl (JsonError e) \<Rightarrow> Inl (RaisedJson e)
      | Inl Undefined \<Rightarrow> Inl (RaisedJson NoMeaning)
      | Inl _ \<Rightarrow> Inl (RaisedGraphQL [] [] False))"

lemma collected_concat: "collected t = concat (tf_chunks t)"
proof -
  have "fold (\<lambda>ptr out. snd (writeCb ptr out)) xs s = s @ concat xs" for xs s
    by (induction xs arbitrary: s) (simp_all add: writeCb_def)
  then show ?thesis by (simp add: collected_def)
qed

lemma raise_first_concrete: "concrete url t (Inl (first_error (first # rest))) = Inl (raise_first first)"
proof (cases "jvalue get_string first ''message'' ''unknown GraphQL error''")
  case (Inl e)
  then show ?thesis by (simp add: first_error_def raise_first_def raised_def concrete_def exn_of_json_def)
next
  case message: (Inr message)
  show ?thesis
  proof (cases "jlookup first ''extensions''")
    case None
    then show ?thesis using message
      by (simp add: first_error_def raise_first_def jerr_def raised_def concrete_def message_text_def)
  next
    case (Some ext)
    then show ?thesis using message
      by (cases "jvalue get_string ext ''code'' []")
         (simp_all add: first_error_def raise_first_def raised_def concrete_def message_text_def exn_of_json_def)
  qed
qed

lemma concrete_simps [simp]:
  "concrete url t (Inr d) = Inr d"
  "concrete url t (Inl (GraphQLError m code transport)) = Inl (RaisedGraphQL (message_text url t m) code transport)"
  by (simp_all add: concrete_def)

lemma message_text_simps [simp]:
  "message_text url t CurlFailed = ''HTTP request to '' @ url @ '' failed: '' @ the (tf_failed t)"
  "message_text url t (NonJson n) = ''non-JSON response (HTTP '' @ dec_int n @ '') from '' @ url @ '': '' @ take 300 (collected t)"
  "message_text url t (HttpStatus n) = ''HTTP '' @ dec_int n @ '' from '' @ url @ '': '' @ take 300 (collected t)"
  "message_text url t MissingData = ''GraphQL response missing data from '' @ url"
  by (simp_all add: message_text_def)

lemma result_concrete: "client_result parse url t = concrete url t (interpret_answer (http_answer parse t))"
proof (cases "tf_failed t")
  case ok: None
  show ?thesis
  proof (cases "parse (collected t)")
    case (Inr parsed)
    show ?thesis
    proof (cases "\<exists>first rest. jlookup parsed ''errors'' = Some (JArr (first # rest))")
      case True
      then show ?thesis using ok Inr
        by (auto simp: client_result_def http_answer_def interpret_answer_def raise_first_concrete Let_def)
    next
      case False
      then show ?thesis using ok Inr
        by (auto simp: client_result_def http_answer_def interpret_answer_def Let_def simp del: append.simps
            split: option.split json.split list.split)
    qed
  qed (simp add: ok client_result_def http_answer_def interpret_answer_def Let_def)
qed (simp add: client_result_def http_answer_def interpret_answer_def Let_def)

section \<open>What a request promises\<close>

text \<open>
  \<open>replied\<close>: the transfer went through and its body, the pieces in order, is this document;
  \<open>has_errors\<close>: the document names an error; \<open>served\<close>: it has data under a status of success.
\<close>

definition replied :: "(string \<Rightarrow> string + json) \<Rightarrow> Transfer \<Rightarrow> json \<Rightarrow> bool" where
  "replied parse t j \<longleftrightarrow> tf_failed t = None \<and> parse (concat (tf_chunks t)) = Inr j"

definition has_errors :: "json \<Rightarrow> bool" where
  "has_errors j \<longleftrightarrow> (\<exists>e es. jlookup j ''errors'' = Some (JArr (e # es)))"

definition served :: "Transfer \<Rightarrow> json \<Rightarrow> json \<Rightarrow> bool" where
  "served t j d \<longleftrightarrow> 200 \<le> tf_httpCode t \<and> tf_httpCode t < 300 \<and> jlookup j ''data'' = Some d \<and> d \<noteq> JNull"

lemma raised_Inl: "raised r = Inl x \<longleftrightarrow> (\<exists>e. r = Inl e \<and> x = RaisedJson e)"
  by (cases r) (auto simp: raised_def)

lemma raise_first_not_transport: "raise_first e \<noteq> RaisedGraphQL m c True"
  by (auto simp: raise_first_def raised_Inl split: sum.split option.split)

lemma result_cases:
  "\<not> (\<exists>j. replied parse t j) \<Longrightarrow> \<exists>m. client_result parse url t = Inl (RaisedGraphQL m [] True)"
  "replied parse t j \<Longrightarrow> jlookup j ''errors'' = Some (JArr (e # es)) \<Longrightarrow> client_result parse url t = Inl (raise_first e)"
  "replied parse t j \<Longrightarrow> \<not> has_errors j \<Longrightarrow> served t j d \<Longrightarrow> client_result parse url t = Inr d"
  "replied parse t j \<Longrightarrow> \<not> has_errors j \<Longrightarrow> \<not> (\<exists>d. served t j d) \<Longrightarrow>
     \<exists>m. client_result parse url t = Inl (RaisedGraphQL m [] True)"
  by (auto simp: client_result_def replied_def has_errors_def served_def collected_concat Let_def
      split: option.split sum.split json.split list.split)

lemma result_data: "client_result parse url t = Inr d \<longleftrightarrow> (\<exists>j. replied parse t j \<and> \<not> has_errors j \<and> served t j d)"
proof
  assume r: "client_result parse url t = Inr d"
  then obtain j where j: "replied parse t j" using result_cases(1) [of parse t url] by (cases "\<exists>j. replied parse t j") auto
  moreover have "\<not> has_errors j" using r result_cases(2) [OF j] by (auto simp: has_errors_def)
  moreover obtain d' where "served t j d'" 
    using r result_cases(4) [OF j \<open>\<not> has_errors j\<close>, of url] by (cases "\<exists>d. served t j d") auto
  ultimately show "\<exists>j. replied parse t j \<and> \<not> has_errors j \<and> served t j d" using r result_cases(3) by fastforce
qed (auto intro: result_cases(3))

lemma result_transport:
  "(\<exists>m. client_result parse url t = Inl (RaisedGraphQL m [] True)) \<longleftrightarrow>
     (\<forall>j. replied parse t j \<longrightarrow> \<not> has_errors j \<and> \<not> (\<exists>d. served t j d))"
proof (cases "\<exists>j. replied parse t j")
  case True
  then obtain j where j: "replied parse t j" by blast
  then have unique: "replied parse t i \<longleftrightarrow> i = j" for i by (auto simp: replied_def)
  consider e es where "jlookup j ''errors'' = Some (JArr (e # es))" "has_errors j" | d where "\<not> has_errors j" "served t j d"
    | "\<not> has_errors j" "\<not> (\<exists>d. served t j d)"
    unfolding has_errors_def by blast
  then show ?thesis
  proof cases
    case 1
    then show ?thesis using result_cases(2) [OF j, of _ _ url] raise_first_not_transport by (simp add: unique)
  next
    case 2
    then show ?thesis using result_cases(3) [OF j, of _ url] by (auto simp: unique)
  next
    case 3
    then show ?thesis using result_cases(4) [OF j, of url] by (simp add: unique)
  qed
qed (use result_cases(1) in blast)

lemma result_error:
  assumes "replied parse t j" "jlookup j ''errors'' = Some (JArr (e # es))" "jlookup e ''message'' = Some (JStr m)"
    and "jlookup e ''extensions'' = Some (JObj kvs)" "map_of kvs ''code'' = Some (JStr c)"
  shows "client_result parse url t = Inl (RaisedGraphQL m c False)"
proof -
  have "jvalue get_string e ''message'' d = Inr m" for d using assms(3) by (cases e) (simp_all add: jlookup_def)
  then show ?thesis unfolding result_cases(2) [OF assms(1,2)] using assms(4,5) by (simp add: raise_first_def raised_def)
qed

section \<open>Properties\<close>

text \<open>
  C34. A request does what it says. It is one POST, of a document that reads back as exactly the
  query and the variables, to the address the world records and to no other, since redirects
  are never followed; the token goes in the one header for it, if there is a token, and the
  certificate is checked unless the configuration says otherwise. The caller gets data just when
  the transfer went through, its body is a JSON document without errors, the status is one of
  success and the data is there and not null; an error of the API is raised with its message and
  code, whatever the status; every other failure, and only such a one, is a transport failure, which
  is what the retries go by. The abstract request has the same outcome over a world whose next
  answer is that of the transfer. A request that does not print raises before any transfer.
\<close>

theorem client_request_refines:
  assumes "new_client ok base insecure = Inr cl"
    and "dump (client_body (query_text q) variables) = None \<or> reads_back parse dump (client_body (query_text q) variables)"
    and "made = client_request perform parse dump cl (query_text q) variables bearer hs"
  shows "\<exists>rq r'. request base q variables bearer hs w = (r', w\<lparr>wo_sent := wo_sent w @ [rq]\<rparr>) \<and>
     (case made of
        (None, r) \<Rightarrow> dump (client_body (query_text q) variables) = None \<and> r = Inl (RaisedJson (TypeError 316))
      | (Some ez, r) \<Rightarrow>
          (\<exists>doc. parse (ez_postFields ez) = Inr doc \<and> jlookup doc ''query'' = Some (JStr (query_text (rs_query rq))) \<and>
             jlookup doc ''variables'' = Some (canon (rs_variables rq))) \<and>
          rs_query rq = q \<and> rs_variables rq = variables \<and>
          ez_post ez \<and> ez_postFieldSize ez = length (ez_postFields ez) \<and>
          ez_url ez = c_str (rs_url rq) \<and> ez_headers ez = map c_str (rs_headers rq) \<and>
          ez_headers ez = [''Content-Type: application/json''] @
            (if bearer = [] then [] else [''Authorization: Bearer '' @ c_str bearer]) @ map c_str hs \<and>
          \<not> ez_followLocation ez \<and> ez_maxRedirs ez = 0 \<and> set (ez_protocols ez) = {''https'', ''http''} \<and>
          ez_timeoutMs ez = 30000 \<and> ez_connectTimeoutMs ez = 10000 \<and>
          ez_verifyPeer ez = (\<not> insecure) \<and> ez_verifyHost ez = (\<not> insecure) \<and>
          (\<forall>d. r = Inr d \<longleftrightarrow> (\<exists>j. replied parse (perform ez) j \<and> \<not> has_errors j \<and> served (perform ez) j d)) \<and>
          ((\<exists>m. r = Inl (RaisedGraphQL m [] True)) \<longleftrightarrow>
             (\<forall>j. replied parse (perform ez) j \<longrightarrow> \<not> has_errors j \<and> \<not> (\<exists>d. served (perform ez) j d))) \<and>
          (\<forall>j e es m kvs c. replied parse (perform ez) j \<and> jlookup j ''errors'' = Some (JArr (e # es)) \<and>
             jlookup e ''message'' = Some (JStr m) \<and> jlookup e ''extensions'' = Some (JObj kvs) \<and> map_of kvs ''code'' = Some (JStr c) \<longrightarrow>
             r = Inl (RaisedGraphQL m c False)) \<and>
          (wo_http w (length (wo_sent w)) = http_answer parse (perform ez) \<longrightarrow> r = concrete (rs_url rq) (perform ez) r'))"
proof -
  let ?auth = "if bearer \<noteq> [] then [''Authorization: Bearer '' @ bearer] else []" and ?body = "client_body (query_text q) variables"
  let ?rq = "\<lparr>rs_url = graphqlEndpoint base, rs_query = q, rs_variables = variables, rs_bearer = bearer,
     rs_headers = [''Content-Type: application/json''] @ ?auth @ hs\<rparr>"
  have cl: "gq_url cl = graphqlEndpoint base" "gq_tlsInsecure cl = insecure"
    using assms(1) by (auto simp: new_client_def split: if_splits)
  have r: "request base q variables bearer hs w = (interpret_answer (wo_http w (length (wo_sent w))), w\<lparr>wo_sent := wo_sent w @ [?rq]\<rparr>)"
    by (simp add: request_def post_def)
  show ?thesis
  proof (cases "dump ?body")
    case None
    then have "made = (None, Inl (RaisedJson (TypeError 316)))" by (simp add: assms(3) client_request_def)
    then show ?thesis using None r by (intro exI [of _ ?rq] exI conjI) (rule r, simp)
  next
    case (Some payload)
    let ?ez = "easy_options cl payload bearer hs"
    have made: "made = (Some ?ez, client_result parse (graphqlEndpoint base) (perform ?ez))"
      by (simp add: assms(3) client_request_def Some cl(1) Let_def)
    have doc: "parse payload = Inr (canon ?body)" using assms(2) Some by (auto simp: reads_back_def)
    have wire: "jlookup (canon ?body) ''query'' = Some (JStr (query_text q))" "jlookup (canon ?body) ''variables'' = Some (canon variables)"
      by (simp_all add: client_body_def del: canon.simps) simp
    have ez: "ez_postFields ?ez = payload" "ez_post ?ez" "ez_postFieldSize ?ez = length payload" "ez_url ?ez = c_str (rs_url ?rq)"
      "ez_headers ?ez = map c_str (rs_headers ?rq)" "\<not> ez_followLocation ?ez" "ez_maxRedirs ?ez = 0"
      "set (ez_protocols ?ez) = {''https'', ''http''}" "ez_timeoutMs ?ez = 30000" "ez_connectTimeoutMs ?ez = 10000"
      "ez_verifyPeer ?ez = (\<not> insecure)" "ez_verifyHost ?ez = (\<not> insecure)"
      "ez_headers ?ez = [''Content-Type: application/json''] @
         (if bearer = [] then [] else [''Authorization: Bearer '' @ c_str bearer]) @ map c_str hs"
      by (simp_all add: easy_options_def cl) (simp_all add: c_str_def)
    have docs: "\<exists>doc. parse (ez_postFields ?ez) = Inr doc \<and> jlookup doc ''query'' = Some (JStr (query_text (rs_query ?rq))) \<and>
        jlookup doc ''variables'' = Some (canon (rs_variables ?rq))"
      unfolding ez(1) using doc wire by (intro exI [of _ "canon ?body"] conjI) simp_all
    have rq: "rs_query ?rq = q" "rs_variables ?rq = variables" and size: "ez_postFieldSize ?ez = length (ez_postFields ?ez)"
      using ez(1,3) by simp_all
    let ?t = "perform ?ez" and ?r = "client_result parse (graphqlEndpoint base) (perform ?ez)"
    have errors: "\<forall>j e es m kvs c. replied parse ?t j \<and> jlookup j ''errors'' = Some (JArr (e # es)) \<and>
        jlookup e ''message'' = Some (JStr m) \<and> jlookup e ''extensions'' = Some (JObj kvs) \<and> map_of kvs ''code'' = Some (JStr c) \<longrightarrow>
        ?r = Inl (RaisedGraphQL m c False)"
      by (blast intro: result_error)
    have abstract: "wo_http w (length (wo_sent w)) = http_answer parse ?t \<longrightarrow>
        ?r = concrete (rs_url ?rq) ?t (interpret_answer (wo_http w (length (wo_sent w))))"
      using result_concrete [of parse "graphqlEndpoint base" ?t] by simp
    show ?thesis unfolding made prod.case option.case
      by (rule exI [of _ ?rq], rule exI, intro conjI)
        (rule r docs rq size ez errors abstract allI result_data result_transport)+
  qed
qed

text \<open>A library that prints and reads the one request, and an answer without success.\<close>

definition probe_body :: json where
  "probe_body = client_body ''query'' (JObj [(''appId'', JStr ''1'')])"

definition probe_parse :: "string \<Rightarrow> string + json" where
  "probe_parse text = (if text = ''{}'' then Inr (JObj []) else if text = ''probe'' then Inr (canon probe_body) else Inl [])"

definition probe_dump :: "json \<Rightarrow> string option" where
  "probe_dump j = (if j = probe_body then Some ''probe'' else None)"

theorem client_request_refines_witness:
  "\<exists>cl ez m. new_client True ''http://a/'' False = Inr cl \<and>
     client_request (\<lambda>_. \<lparr>tf_failed = None, tf_httpCode = 503, tf_chunks = [''{'', ''}'']\<rparr>) probe_parse probe_dump cl
       ''query'' (JObj [(''appId'', JStr ''1'')]) [] [] = (Some ez, Inl (RaisedGraphQL m [] True)) \<and>
     ez_post ez \<and> ez_url ez = ''http://a/graphql''"
proof -
  let ?vars = "JObj [(''appId'', JStr ''1'')]" and ?t = "\<lparr>tf_failed = None, tf_httpCode = 503, tf_chunks = [''{'', ''}'']\<rparr>"
  let ?w = "\<lparr>wo_http = \<lambda>_. HFailed, wo_steady = \<lambda>_. 0, wo_system = \<lambda>_. 0, wo_sent = []\<rparr>"
  let ?cl = "\<lparr>gq_url = graphqlEndpoint ''http://a/'', gq_tlsInsecure = False\<rparr>"
  have c: "new_client True ''http://a/'' False = Inr ?cl" by (simp add: new_client_def)
  have b: "probe_dump (client_body ((\<lambda>_. ''query'') BOOTSTRAP_QUERY) ?vars) = None \<or>
      reads_back probe_parse probe_dump (client_body ((\<lambda>_. ''query'') BOOTSTRAP_QUERY) ?vars)"
    by (simp add: reads_back_def probe_dump_def probe_body_def probe_parse_def)
  obtain ez where made: "client_request (\<lambda>_. ?t) probe_parse probe_dump ?cl ''query'' ?vars [] [] =
      (Some ez, client_result probe_parse (gq_url ?cl) ?t)"
    by (simp add: client_request_def probe_dump_def probe_body_def Let_def)
  note spec = client_request_refines [where perform = "\<lambda>_. ?t" and w = ?w and query_text = "\<lambda>_. ''query''" and q = BOOTSTRAP_QUERY and bearer = "[]" and hs = "[]",
      OF c b refl, unfolded made prod.case option.case]
  then obtain rq r' where r: "request ''http://a/'' BOOTSTRAP_QUERY ?vars [] [] ?w = (r', ?w\<lparr>wo_sent := wo_sent ?w @ [rq]\<rparr>)"
    and ez: "ez_post ez" "ez_url ez = c_str (rs_url rq)"
    and m: "(\<exists>m. client_result probe_parse (gq_url ?cl) ?t = Inl (RaisedGraphQL m [] True)) \<longleftrightarrow>
      (\<forall>j. replied probe_parse ?t j \<longrightarrow> \<not> has_errors j \<and> \<not> (\<exists>d. served ?t j d))"
    by - (elim exE conjE, rule that)
  have "rs_url rq = ''http://a/graphql''" using r by (auto simp: request_def post_def graphqlEndpoint_def trimSlash_def Let_def)
  then have "ez_url ez = ''http://a/graphql''" using ez by (simp add: c_str_def)
  moreover obtain why where "client_result probe_parse (gq_url ?cl) ?t = Inl (RaisedGraphQL why [] True)"
    using m by (auto simp: replied_def has_errors_def served_def probe_parse_def)
  ultimately show ?thesis using c made ez(1) by (intro exI [of _ ?cl] exI [of _ ez] exI [of _ why]) simp
qed

end
