(* ===== verification/Custody.thy ===== *)
theory Custody
  imports Harness
begin

text \<open>
  Who looks after a suspended client. A client leaves \<open>SUSPENDED\<close> only when its worker reads an
  answer of the control thread, so every suspended client needs a request in the queue, in the
  control thread's hands, or an answer on its way. The history of failed answers is carried
  along a run (\<open>custody\<close>): they are the only reason for a client to stay suspended for good.
\<close>

section \<open>Within one worker\<close>

definition asked_for :: "int \<Rightarrow> nat \<Rightarrow> ControlRequest \<Rightarrow> bool" where
  "asked_for i slot r \<longleftrightarrow> rq_workerIndex r = i \<and> rq_clientIndex r = slot"

text \<open>In the middle of a turn: suspended clients are asked for in the queue, those of \<open>E\<close> apart.\<close>

definition attended :: "(nat \<Rightarrow> bool) \<Rightarrow> int \<Rightarrow> nat \<Rightarrow> Worker \<Rightarrow> bool" where
  "attended E i n w \<longleftrightarrow> length (wk_clients w) = n \<and> wk_index w = i \<and>
     (\<forall>slot < n. sc_state (client slot w) = SUSPENDED \<longrightarrow>
        E slot \<or> list_ex (asked_for i slot) (cq_queue (wk_control w)))"

lemma attended_frame:
  "attended E i n w \<Longrightarrow> wk_clients w' = wk_clients w \<Longrightarrow> wk_index w' = wk_index w \<Longrightarrow>
     cq_queue (wk_control w') = cq_queue (wk_control w) @ new \<Longrightarrow> attended E i n w'"
  by (auto simp: attended_def client_def)

lemma attended_on_client:
  "attended E i n w \<Longrightarrow>
     sc_state (f (client slot w)) = SUSPENDED \<Longrightarrow> sc_state (client slot w) = SUSPENDED \<Longrightarrow>
     attended E i n (on_client slot f w)"
  by (cases "slot < n") (auto simp: attended_def on_client_def client_def nth_list_update)

lemma attended_awake:
  "attended E i n w \<Longrightarrow> sc_state (f (client slot w)) \<noteq> SUSPENDED \<Longrightarrow> attended E i n (on_client slot f w)"
  by (cases "slot < n") (auto simp: attended_def on_client_def client_def nth_list_update)

lemma attended_same_state:
  "attended E i n w \<Longrightarrow> sc_state (f (client slot w)) = sc_state (client slot w) \<Longrightarrow> attended E i n (on_client slot f w)"
  by (metis attended_awake attended_on_client)

lemma attended_on_stats [simp]: "attended E i n (on_stats g w) = attended E i n w"
  by (simp add: attended_def)

lemma attended_push: "attended E i n w \<Longrightarrow> attended E i n (w\<lparr>wk_control := queue_push r (wk_control w)\<rparr>)"
  by (erule attended_frame [where new = "[r]"]) (simp_all add: queue_push_def)

lemma attended_suspend:
  assumes w: "attended E i n w" and slot: "slot < n"
  shows "attended E i n (suspendClient kind slot w)"
proof (cases "sc_state (client slot w) = SUSPENDED")
  case True
  then show ?thesis using w by (simp add: suspendClient_def)
next
  case False
  have "slot < length (wk_clients w)" using w slot by (simp add: attended_def)
  from suspendClient_alt [OF this False] this w show ?thesis
    by (auto simp: attended_def asked_for_def queue_push_def on_client_def on_stats_def client_def nth_list_update)
qed

interpretation attending: worker_turn "attended E i n" "{..<n}" for E i n
proof
  fix w s f
  assume w: "attended E i n w" and s: "s \<in> {..<n}"
  then show "s < length (wk_clients w)" by (simp add: attended_def)
  show "kept (client s w) (f (client s w)) \<Longrightarrow> attended E i n (on_client s f w)"
    using w by (rule attended_same_state) (simp add: kept_def)
  show "attended E i n (suspendClient REASSIGN s w)" using w s by (simp add: attended_suspend)
  have "attended E i n (on_client s (\<lambda>c. c\<lparr>sc_refreshRequested := True\<rparr>) w)" using w by (rule attended_same_state) simp
  then show "attended E i n (suspendClient REFRESH s (on_client s (\<lambda>c. c\<lparr>sc_refreshRequested := True\<rparr>) w))"
    using s by (simp add: attended_suspend)
next
  fix w s v
  assume w: "attended E i n w" and "s \<in> {..<n}" and v: "v = on_client s (\<lambda>c. c\<lparr>sc_refreshRequested := True\<rparr>) w"
  have "attended E i n v" unfolding v using w by (rule attended_same_state) simp
  from attended_push [OF this]
  show "attended E i n (v\<lparr>wk_control := queue_push \<lparr>rq_workerIndex = wk_index w, rq_clientIndex = s, rq_kind = REFRESH,
      rq_creds = sc_creds (client s w)\<rparr> (wk_control w)\<rparr>)" by (simp add: v)
next
  fix w
  assume "attended E i n w"
  then show "{..<n} = {..<length (wk_clients w)}" by (simp add: attended_def)
qed (auto intro: attended_awake)

section \<open>The beginning of a turn\<close>

text \<open>Before the inbox is read, a good answer in it counts as well.\<close>

definition answered :: "ClientUpdate list \<Rightarrow> nat \<Rightarrow> bool" where
  "answered us slot \<longleftrightarrow> list_ex (\<lambda>u. cu_clientIndex u = slot \<and> \<not> cu_failed u) us"

lemma attended_update:
  assumes w: "attended (\<lambda>s. G s \<or> answered (u # us) s) i n w" and u: "cu_clientIndex u < n"
  shows "attended (\<lambda>s. G s \<or> answered us s) i n (apply_update cfg u w)"
proof (cases "cu_failed u")
  case True
  then show ?thesis using w by (simp add: apply_update_def Let_def answered_def)
next
  case False
  have "cu_clientIndex u < length (wk_clients w)" using w u by (simp add: attended_def)
  then show ?thesis using w False
    by (auto simp: apply_update_def Let_def attended_def answered_def on_client_def on_stats_def client_def
        nth_list_update rebuildTemplate_def)
qed

lemma attended_updates:
  assumes "attended (\<lambda>s. G s \<or> answered us s) i n w" "list_all (\<lambda>u. cu_clientIndex u < n) us"
  shows "attended G i n (fold (apply_update cfg) us w)"
  using assms
proof (induction us arbitrary: w)
  case Nil
  then show ?case by (simp add: answered_def)
next
  case (Cons u us)
  from Cons.prems have "attended (\<lambda>s. G s \<or> answered us s) i n (apply_update cfg u w)" by (intro attended_update) simp_all
  from Cons.IH [OF this] Cons.prems show ?case by simp
qed

lemma attended_pending:
  assumes "attended E i n w"
  shows "attended E i (n + length (wk_pending w)) (applyPendingClients w)"
proof -
  have "attended E i (n + length ps) (fold push_client ps v)" if "attended E i n v" for ps v
    using that
  proof (induction ps arbitrary: n v)
    case (Cons p ps)
    then have "attended E i (Suc n) (push_client p v)"
      by (auto simp: attended_def push_client_def Let_def client_def nth_append SimClient_init_def less_Suc_eq)
    from Cons.IH [OF this] show ?case by simp
  qed simp
  from this [of "w\<lparr>wk_pending := []\<rparr>" "wk_pending w"] assms show ?thesis
    by (simp add: applyPendingClients_def attended_def client_def)
qed

lemma attended_tick:
  assumes w: "attended (\<lambda>s. G s \<or> answered (wk_inbox w) s) i n w"
    and inbox: "list_all (\<lambda>u. cu_clientIndex u < n) (wk_inbox w)"
    and events: "\<forall>(slot, rs) \<in> set (tk_events tk). slot < length (wk_clients w) + length (wk_pending w)"
    and t: "worker_tick hm at2 cfg tk w = Some w'"
  shows "attended G i (n + length (wk_pending w)) w'"
proof -
  let ?n = "n + length (wk_pending w)" and ?v = "applyPendingClients w"
  have v: "wk_inbox ?v = wk_inbox w" using pending_identities [of w] by simp
  have "attended (\<lambda>s. G s \<or> answered (wk_inbox w) s) i ?n (?v\<lparr>wk_inbox := []\<rparr>)"
    using attended_pending [OF w] by (simp add: attended_def client_def)
  then have "attended G i ?n (applyPendingUpdates cfg ?v)"
    unfolding applyPendingUpdates_def v by (rule attended_updates) (use inbox in \<open>auto simp: list_all_iff\<close>)
  moreover from t obtain a b where "activateDueClients cfg tk (applyPendingUpdates cfg ?v) = Some a"
    "sendDueUpdates hm at2 cfg tk a = Some b" "w' = fold (\<lambda>(slot, rs). drainSocket hm cfg slot rs) (tk_events tk) b"
    by (auto simp: worker_tick_def split: option.splits)
  moreover have "\<forall>(slot, rs) \<in> set (tk_events tk). slot \<in> {..<?n}" using events w by (auto simp: attended_def)
  ultimately show ?thesis using attending.turn by blast
qed

section \<open>Within the generator\<close>

definition looked_after :: "Harness \<Rightarrow> nat \<Rightarrow> nat \<Rightarrow> bool" where
  "looked_after h i slot \<longleftrightarrow> list_ex (asked_for (int i) slot) (cq_queue (hn_controlQueue h)) \<or>
     (\<exists>r. hn_control h = Some r \<and> asked_for (int i) slot r) \<or> answered (wk_inbox (hn_workers h ! i)) slot"

definition failed_answers :: "Harness \<Rightarrow> (nat \<times> nat) set" where
  "failed_answers h = {(i, slot). i < length (hn_workers h) \<and>
     list_ex (\<lambda>u. cu_clientIndex u = slot \<and> cu_failed u) (wk_inbox (hn_workers h ! i))}"

definition suspended_at :: "Harness \<Rightarrow> nat \<Rightarrow> nat \<Rightarrow> bool" where
  "suspended_at h i slot \<longleftrightarrow> i < length (hn_workers h) \<and> slot < length (wk_clients (hn_workers h ! i)) \<and>
     sc_state (client slot (hn_workers h ! i)) = SUSPENDED"

definition cared_for :: "(nat \<times> nat) set \<Rightarrow> Harness \<Rightarrow> bool" where
  "cared_for F h \<longleftrightarrow> failed_answers h \<subseteq> F \<and>
     (\<forall>i slot. suspended_at h i slot \<longrightarrow> (i, slot) \<in> F \<or> looked_after h i slot)"

text \<open>What custody looks at; every step but those of workers and control thread leaves it alone.\<close>

definition view :: "Harness \<Rightarrow> (SimClient list \<times> ClientUpdate list) list \<times> ControlRequest list \<times> ControlRequest option" where
  "view h = (map (\<lambda>w. (wk_clients w, wk_inbox w)) (hn_workers h), cq_queue (hn_controlQueue h), hn_control h)"

lemma view_worker:
  assumes "view h' = view h"
  shows "length (hn_workers h') = length (hn_workers h)"
    "i < length (hn_workers h) \<Longrightarrow> wk_clients (hn_workers h' ! i) = wk_clients (hn_workers h ! i)"
    "i < length (hn_workers h) \<Longrightarrow> wk_inbox (hn_workers h' ! i) = wk_inbox (hn_workers h ! i)"
proof -
  have m: "map (\<lambda>w. (wk_clients w, wk_inbox w)) (hn_workers h') = map (\<lambda>w. (wk_clients w, wk_inbox w)) (hn_workers h)"
    using assms by (simp add: view_def)
  show len: "length (hn_workers h') = length (hn_workers h)" using m by (rule map_eq_imp_length_eq)
  assume i: "i < length (hn_workers h)"
  have "(wk_clients (hn_workers h' ! i), wk_inbox (hn_workers h' ! i)) = (wk_clients (hn_workers h ! i), wk_inbox (hn_workers h ! i))"
    using arg_cong [OF m, of "\<lambda>xs. xs ! i"] i len by simp
  then show "wk_clients (hn_workers h' ! i) = wk_clients (hn_workers h ! i)" "wk_inbox (hn_workers h' ! i) = wk_inbox (hn_workers h ! i)"
    by simp_all
qed

lemma view_cares:
  assumes v: "view h' = view h" and F: "cared_for F h"
  shows "cared_for (F \<union> failed_answers h') h'"
proof -
  have "suspended_at h' i slot = suspended_at h i slot" for i slot
    using view_worker [OF v] by (auto simp: suspended_at_def client_def)
  moreover have "looked_after h' i slot = looked_after h i slot" if "i < length (hn_workers h)" for i slot
    using v view_worker(3) [OF v that] by (simp add: looked_after_def view_def)
  ultimately show ?thesis using F by (auto simp: cared_for_def suspended_at_def)
qed

lemma map_update_same: "f x = f (xs ! k) \<Longrightarrow> map f (xs[k := x]) = map f xs"
  by (cases "k < length xs") (simp_all add: map_update list_update_same_conv list_update_beyond)

lemma view_add_one: "view (add_one cfg n t creds i h) = view h"
  by (simp add: view_def add_one_def distribute_one_def Let_def map_update_same addClient_def)

lemma view_observe: "observeEndOfRun cfg wr h = Some h' \<Longrightarrow> view h' = view h"
  by (auto simp: view_def observeEndOfRun_def recordReplayLoggingAtEnd_def writeRungFile_def Let_def split: option.splits if_splits)

section \<open>Steps\<close>

lemma tick_cares:
  assumes ok: "harness_ok cfg h" and i: "i < length (hn_workers h)" and F: "cared_for F h"
    and events: "\<forall>(slot, rs) \<in> set (tk_events tk). slot < length (wk_clients (worker_of i h)) + length (wk_pending (worker_of i h))"
    and t: "worker_tick hm at2 cfg tk (worker_of i h) = Some w"
  shows "cared_for (F \<union> failed_answers (put_worker i w h)) (put_worker i w h)"
proof -
  let ?w = "hn_workers h ! i" and ?h = "put_worker i w h"
  have m: "crew_member cfg i ?w" using ok i by (simp add: harness_ok_def crew_ok_def)
  then have inbox: "list_all (\<lambda>u. cu_clientIndex u < length (wk_clients ?w)) (wk_inbox ?w)"
    by (auto simp: crew_member_def update_names_def names_def list_all_iff)
  have tag: "tagged (ids ?w @ waiting_ids ?w) (int i) (hn_controlQueue h) w"
    using tick_identities [OF t _ events] m by (simp add: crew_member_def)
  then obtain new where new: "cq_queue (wk_control w) = cq_queue (hn_controlQueue h) @ new" and none: "wk_inbox w = []"
    by (auto simp: tagged_def own_requests_def)
  define G where "G = (\<lambda>slot. (i, slot) \<in> F \<or> (\<exists>r. hn_control h = Some r \<and> asked_for (int i) slot r))"
  have "attended (\<lambda>s. G s \<or> answered (wk_inbox ?w) s) (int i) (length (wk_clients ?w)) (worker_of i h)"
    using F i m by (auto simp: attended_def G_def cared_for_def suspended_at_def looked_after_def client_def crew_member_def)
  from attended_tick [OF _ _ events t, of G "int i"] this inbox
  have "attended G (int i) (length (wk_clients ?w) + length (wk_pending ?w)) w" by simp
  then have mine: "suspended_at ?h i slot \<Longrightarrow> (i, slot) \<in> F \<or> looked_after ?h i slot" for slot
    using i by (auto simp: attended_def G_def suspended_at_def looked_after_def)
  have "suspended_at ?h j slot \<Longrightarrow> (j, slot) \<in> F \<or> looked_after ?h j slot" if "j \<noteq> i" for j slot
  proof -
    assume "suspended_at ?h j slot"
    then have "suspended_at h j slot" using that by (simp add: suspended_at_def)
    then have "(j, slot) \<in> F \<or> looked_after h j slot" using F by (simp add: cared_for_def)
    then show ?thesis using that new by (auto simp: looked_after_def)
  qed
  with mine show ?thesis by (metis UnI1 cared_for_def sup_ge2)
qed

lemma take_cares:
  assumes "control_take h = Some h'" "hn_control h = None" "cared_for F h"
  shows "cared_for (F \<union> failed_answers h') h'"
proof -
  from assms(1) obtain r q where q: "cq_queue (hn_controlQueue h) = r # cq_queue q"
    and h': "h' = h\<lparr>hn_control := Some r, hn_controlQueue := q\<rparr>"
    by (auto simp: control_take_def queue_pop_Popped split: pop_result.splits)
  have "suspended_at h' = suspended_at h" "looked_after h' = looked_after h"
    using assms(2) q by (auto simp: fun_eq_iff suspended_at_def looked_after_def h')
  then show ?thesis using assms(3) by (auto simp: cared_for_def)
qed

lemma post_cares:
  assumes ok: "harness_ok cfg h" and req: "hn_control h = Some req" and F: "cared_for F h"
    and c: "control_post cfg down req p h = Some h'"
  shows "cared_for (F \<union> failed_answers h') h'"
proof -
  let ?i = "nat (rq_workerIndex req)"
  from c obtain u st q where a: "control_answer cfg down req (hn_stats h) p = Some (u, st, q)"
    and h': "h' = put_worker ?i (postUpdate u (worker_of ?i (h\<lparr>hn_stats := st, hn_provisioner := Some q, hn_control := None\<rparr>)))
        (h\<lparr>hn_stats := st, hn_provisioner := Some q, hn_control := None\<rparr>)"
    by (auto simp: control_post_def Let_def split: option.splits)
  have r: "0 \<le> rq_workerIndex req" "?i < length (hn_workers h)" using ok req by (auto simp: harness_ok_def crew_ok_def request_ok_def)
  have ws: "hn_workers h' = (hn_workers h)[?i := postUpdate u (worker_of ?i (h\<lparr>hn_stats := st, hn_provisioner := Some q, hn_control := None\<rparr>))]"
    and hc: "hn_control h' = None" and hq: "hn_controlQueue h' = hn_controlQueue h"
    by (simp_all add: h') (simp add: postUpdate_def)
  have inbox: "wk_inbox (hn_workers h' ! j) = wk_inbox (hn_workers h ! j) @ (if j = ?i then [u] else [])"
    and clients: "wk_clients (hn_workers h' ! j) = wk_clients (hn_workers h ! j)" if "j < length (hn_workers h)" for j
    using that r by (auto simp: ws nth_list_update postUpdate_def)
  have len: "length (hn_workers h') = length (hn_workers h)" by (simp add: ws)
  have "(j, slot) \<in> F \<union> failed_answers h' \<or> looked_after h' j slot" if s: "suspended_at h' j slot" for j slot
  proof -
    have j: "j < length (hn_workers h)" and "suspended_at h j slot"
      using s clients len by (auto simp: suspended_at_def client_def)
    then have "(j, slot) \<in> F \<or> looked_after h j slot" using F by (simp add: cared_for_def)
    moreover have "(j, slot) \<in> failed_answers h' \<or> looked_after h' j slot" if "asked_for (int j) slot req"
    proof -
      have "j = ?i" "cu_clientIndex u = slot" using that r control_answer_frame(1) [OF a] by (auto simp: asked_for_def)
      then show ?thesis using inbox [OF j] j len by (cases "cu_failed u") (auto simp: failed_answers_def looked_after_def answered_def)
    qed
    ultimately show ?thesis using req hq inbox [OF j] by (auto simp: looked_after_def answered_def)
  qed
  then show ?thesis by (auto simp: cared_for_def)
qed

lemma step_cares:
  assumes step: "harness_step hm at2 cfg h h'" and ok: "harness_ok cfg h" and F: "cared_for F h"
  shows "cared_for (F \<union> failed_answers h') h'"
  using step
proof (cases rule: harness_step.cases)
  case (tick i tk w)
  then show ?thesis using tick_cares [OF ok] F by simp
next
  case take
  then show ?thesis using take_cares F by simp
next
  case (answer req p down w)
  then show ?thesis using post_cares [OF ok] F by simp
next
  case (queue_add n t creds i)
  then show ?thesis using view_cares [OF view_add_one F] by simp
next
  case (observe_end wr)
  then show ?thesis using view_cares [OF view_observe F] by simp
next
  case (finish_stop wr lines)
  then show ?thesis by (auto simp: stop_finish_def Let_def split: option.splits prod.splits intro: view_cares [OF view_observe F])
qed (auto intro!: view_cares [OF _ F] simp: view_def requestAdd_def add_begin_def add_failed_def put_range_def add_joined_def add_done_def
      openRung_def closeRung_def writeRungFile_def on_hstats_def requestShutdown_def stop_begin_def queue_shutdown_def Let_def
      split: if_splits sum.splits)

section \<open>Runs\<close>

text \<open>A new generator has no clients in its workers yet, and no answers.\<close>

definition untouched :: "Harness \<Rightarrow> bool" where
  "untouched h \<longleftrightarrow> set (map (\<lambda>w. (wk_clients w, wk_inbox w)) (hn_workers h)) \<subseteq> {([], [])}"

lemma untouched_view: "view h' = view h \<Longrightarrow> untouched h' = untouched h"
  by (simp add: untouched_def view_def)

lemma untouched_cared_for: "untouched h \<Longrightarrow> cared_for {} h"
proof -
  assume "untouched h"
  then have "wk_clients (hn_workers h ! i) = [] \<and> wk_inbox (hn_workers h ! i) = []" if "i < length (hn_workers h)" for i
    using nth_mem [OF that] by (auto simp: untouched_def)
  then show ?thesis by (auto simp: cared_for_def failed_answers_def suspended_at_def)
qed

lemma setup_untouched: "start_setup cfg fl w stop new_harness = Some (True, h) \<Longrightarrow> untouched h"
  by (auto simp: start_setup_def Let_def new_harness_def untouched_def new_worker_def split: sum.splits Exn.splits prod.splits option.splits)

lemma view_distribute: "view (distribute cfg t creds h) = view h"
proof -
  have one: "view (distribute_one cfg t i c h) = view h" for i c h
    by (simp add: view_def distribute_one_def Let_def map_update_same addClient_def)
  have "view (fold (\<lambda>(i, c). distribute_one cfg t i c) ics h) = view h" for ics
    by (induction ics arbitrary: h) (simp_all add: one case_prod_beta)
  then show ?thesis by (simp add: distribute_def)
qed

lemma view_finish: "view (start_finish sysNs steadyNs h) = view h"
  by (simp add: view_def start_finish_def on_hstats_def)

lemma start_untouched:
  assumes "harness_start cfg new_harness True h"
  shows "untouched h"
  using assms
proof (cases rule: harness_start.cases)
  case (no_clients fl w stop h' sysNs steadyNs)
  have "untouched (start_mark h') = untouched h'" by (rule untouched_view) (simp add: view_def start_mark_def)
  then show ?thesis using setup_untouched [OF no_clients(2)] by (simp add: no_clients(1) untouched_view [OF view_finish])
next
  case (provisioned fl w stop h' p creds stop' p' sysNs steadyNs rampStart)
  let ?v = "h'\<lparr>hn_provisioner := Some p', hn_externalStop := stop'\<rparr>"
  have "view (start_population cfg rampStart creds ?v) = view h'"
    by (simp add: start_population_def view_distribute) (simp add: view_def start_mark_def)
  then show ?thesis using setup_untouched [OF provisioned(2)]
    unfolding provisioned(1) untouched_view [OF view_finish] by (metis untouched_view)
qed simp_all

text \<open>A run with the clients, by worker and slot, for which a failed answer was ever posted.\<close>

inductive custody ::
  "hmac_fn \<Rightarrow> (double \<Rightarrow> double \<Rightarrow> double) \<Rightarrow> Config \<Rightarrow> Harness \<Rightarrow> (nat \<times> nat) set \<Rightarrow> Harness \<Rightarrow> bool" for hm at2 cfg h0 where
  start: "custody hm at2 cfg h0 {} h0"
| moved: "custody hm at2 cfg h0 F h \<Longrightarrow> harness_step hm at2 cfg h h' \<Longrightarrow> custody hm at2 cfg h0 (F \<union> failed_answers h') h'"

lemma custody_reaches: "custody hm at2 cfg h0 F h \<Longrightarrow> (harness_step hm at2 cfg)\<^sup>*\<^sup>* h0 h"
  by (induction rule: custody.induct) auto

lemma custody_cares:
  assumes "custody hm at2 cfg h0 F h" "validate cfg = Inr []" "harness_start cfg new_harness True h0"
  shows "cared_for F h"
  using assms(1)
proof (induction rule: custody.induct)
  case start
  show ?case by (intro untouched_cared_for start_untouched) (rule assms(3))
next
  case (moved F h h')
  have "harness_ok cfg h" using run_ok [OF assms(2,3) custody_reaches [OF moved.hyps(1)]] .
  then show ?case by (rule step_cares [OF moved.hyps(2) _ moved.IH])
qed

text \<open>
  C2. No client is stranded. Along every run of a generator with an accepted configuration, a
  suspended client is always waited for: a request that names its worker and slot is in the
  control queue or in the control thread's hands, or a successful answer for it lies in its
  worker's inbox; the only exceptions are clients for which a failed answer was posted earlier.
  So when the control thread's work is done and nothing failed, no client is suspended and the
  gauge reads zero.
\<close>

theorem no_client_stranded:
  assumes "validate cfg = Inr []" "harness_start cfg new_harness True h0" "custody hm at2 cfg h0 F h"
  shows "(\<forall>i < length (hn_workers h). \<forall>slot < length (wk_clients (hn_workers h ! i)).
       sc_state (client slot (hn_workers h ! i)) = SUSPENDED \<longrightarrow> (i, slot) \<in> F \<or>
         (\<exists>r. (r \<in> set (cq_queue (hn_controlQueue h)) \<or> hn_control h = Some r) \<and>
            rq_workerIndex r = int i \<and> rq_clientIndex r = slot) \<or>
         (\<exists>u \<in> set (wk_inbox (hn_workers h ! i)). cu_clientIndex u = slot \<and> \<not> cu_failed u)) \<and>
     (F = {} \<and> owed h = 0 \<longrightarrow> st_suspendedClients (hn_stats h) = 0)"
proof -
  have F: "cared_for F h" by (rule custody_cares [OF assms(3,1,2)])
  then have waited: "suspended_at h i slot \<Longrightarrow> (i, slot) \<in> F \<or> looked_after h i slot" for i slot by (simp add: cared_for_def)
  have gauge: "st_suspendedClients (hn_stats h) = headcount SUSPENDED h"
    using run_ok [OF assms(1,2) custody_reaches [OF assms(3)]] by (simp add: harness_ok_def crew_ok_def)
  have "headcount SUSPENDED h = 0" if quiet: "F = {}" "owed h = 0"
  proof -
    have "\<not> suspended_at h i slot" if "i < length (hn_workers h)" for i slot
      using waited [of i slot] quiet nth_mem [OF that] by (auto simp: owed_def looked_after_def answered_def split: if_splits)
    then have "filter (\<lambda>c. sc_state c = SUSPENDED) (wk_clients w) = []" if "w \<in> set (hn_workers h)" for w
      using that by (auto simp: filter_empty_conv in_set_conv_nth suspended_at_def client_def)
    then have "count_state SUSPENDED w = 0" if "w \<in> set (hn_workers h)" for w using that by (simp add: count_state_def)
    then show ?thesis by (simp add: headcount_def cong: map_cong)
  qed
  moreover have "(i, slot) \<in> F \<or>
      (\<exists>r. (r \<in> set (cq_queue (hn_controlQueue h)) \<or> hn_control h = Some r) \<and> rq_workerIndex r = int i \<and> rq_clientIndex r = slot) \<or>
      (\<exists>u \<in> set (wk_inbox (hn_workers h ! i)). cu_clientIndex u = slot \<and> \<not> cu_failed u)"
    if "suspended_at h i slot" for i slot
    using waited [OF that] unfolding looked_after_def asked_for_def answered_def list_ex_iff by metis
  ultimately show ?thesis using gauge by (simp add: suspended_at_def)
qed

text \<open>A worker whose first client finds no socket.\<close>

definition refusing_tick :: "int \<Rightarrow> Tick" where
  "refusing_tick now = sample_tick\<lparr>tk_now := now,
     tk_open := (\<lambda>_. \<lparr>oa_socket = -1, oa_pton = True, oa_setsockopt = True, oa_connect = True, oa_epoll = True\<rparr>)\<rparr>"

lemma refused_activation:
  assumes "wk_clients w = []" "wk_inbox w = []" "wk_pending w = [p]"
  shows "\<exists>now w'. worker_tick hm at2 cfg (refusing_tick now) w = Some w' \<and> length (wk_clients w') = 1 \<and>
     sc_state (client 0 w') = SUSPENDED"
proof -
  define now where "now = max (pa_activateAt p) (cr_udpReadyAt (pa_creds p))"
  let ?tk = "refusing_tick now" and ?v = "applyPendingUpdates cfg (applyPendingClients w)"
  have v: "wk_clients ?v = [SimClient_init (pa_creds p) (pa_activateAt p)]"
    using assms by (simp add: applyPendingUpdates_def applyPendingClients_def push_client_def Let_def)
  have "list_ex (\<lambda>(x, y, z). \<not> len2 x y < too_short \<and> \<not> len3 x y z < too_short) (dr_dirs sample_draws)"
    using sample_direction by (simp add: sample_draws_def)
  from init_total [OF this] obtain c where c: "initSimulation cfg sample_draws (tk_nowSec ?tk) (client 0 ?v) = Some c" by blast
  have "sc_uuid (client 0 ?v) ! 0 = 0" "sc_state (client 0 ?v) = WAITING" "\<not> now < sc_activateAt (client 0 ?v)"
    "\<not> now < cr_udpReadyAt (sc_creds (client 0 ?v))"
    using v by (simp_all add: client_def SimClient_init_def now_def)
  with c have a: "activate_client cfg ?tk 0 ?v =
      Some (suspendClient REASSIGN 0 (on_client 0 (\<lambda>_. arm_client now (tk_nowSec ?tk) c) ?v))"
    by (simp add: activate_client_def Let_def refusing_tick_def sample_tick_def openSocket_def)
  let ?x = "suspendClient REASSIGN 0 (on_client 0 (\<lambda>_. arm_client now (tk_nowSec ?tk) c) ?v)"
  have x: "length (wk_clients ?x) = 1" "sc_state (client 0 ?x) = SUSPENDED" using v by (simp_all add: suspended_after)
  then have "worker_tick hm at2 cfg ?tk w = Some ?x"
    using a v by (simp add: worker_tick_def activateDueClients_def sendDueUpdates_def send_client_def)
      (simp add: refusing_tick_def sample_tick_def)
  with x show ?thesis by blast
qed

text \<open>The sample run, one turn on: its only client is suspended.\<close>

lemma suspended_run:
  "\<exists>h0 h. harness_start roster_config new_harness True h0 \<and>
     custody (\<lambda>k m. None) (\<lambda>x y. 0) roster_config h0 {} h \<and> length (hn_workers h) = 1 \<and>
     wk_clients (hn_workers h ! 0) \<noteq> [] \<and> suspended_at h 0 0 \<and> hn_control h = None \<and> wk_inbox (hn_workers h ! 0) = []"
proof -
  obtain h0 where s: "harness_start roster_config new_harness True h0" "hn_used h0 = 1" "hn_adding h0 = NoAdd"
    "hn_running h0" "hn_control h0 = None" using roster_start by blast
  have cfg: "cf_threads roster_config = 1" "cf_indexBase roster_config = 0"
    by (simp_all add: roster_config_def sample_config_def Config_init_def)
  have "harness_ok roster_config h0" by (rule run_ok [OF roster_valid s(1), of "\<lambda>k m. None" "\<lambda>x y. 0"]) simp
  then have len: "length (hn_workers h0) = 1" and "population h0 = mset_set {0..<1}"
    using s(2,3) cfg by (simp_all add: harness_ok_def crew_ok_def books_ok_def queued_def)
  then have size: "size (population h0) = 1" by simp
  obtain w where ws: "hn_workers h0 = [w]" using len by (auto simp: length_Suc_conv)
  moreover have w: "wk_clients w = []" "wk_inbox w = []" using start_untouched [OF s(1)] by (simp_all add: untouched_def ws)
  ultimately have "length (wk_pending w) = 1"
    using size by (simp add: population_def members_def ids_def waiting_ids_def)
  then obtain p where "wk_pending w = [p]" by (auto simp: length_Suc_conv)
  then obtain now v where v: "worker_tick (\<lambda>k m. None) (\<lambda>x y. 0) roster_config (refusing_tick now) (worker_of 0 h0) = Some v"
    "length (wk_clients v) = 1" "sc_state (client 0 v) = SUSPENDED"
    using refused_activation [of "worker_of 0 h0" p "\<lambda>k m. None" "\<lambda>x y. 0" roster_config] w ws by auto
  have events: "tk_events (refusing_tick now) = []" by (simp add: refusing_tick_def sample_tick_def)
  have step: "harness_step (\<lambda>k m. None) (\<lambda>x y. 0) roster_config h0 (put_worker 0 v h0)"
    by (rule harness_step.tick [OF s(4) _ _ v(1)]) (simp_all add: len events)
  have inbox: "wk_inbox v = []" using tick_identities [OF v(1)] w ws by (simp add: events tagged_def)
  then have "failed_answers (put_worker 0 v h0) = {}" by (auto simp: failed_answers_def ws)
  then have "custody (\<lambda>k m. None) (\<lambda>x y. 0) roster_config h0 {} (put_worker 0 v h0)"
    using custody.moved [OF custody.start step] by simp
  then show ?thesis using s v ws inbox
    by (intro exI [of _ h0] exI [of _ "put_worker 0 v h0"]) (auto simp: suspended_at_def)
qed

theorem no_client_stranded_witness:
  "\<exists>h :: Harness. suspended_at h 0 0 \<and>
     (\<exists>r \<in> set (cq_queue (hn_controlQueue h)). rq_workerIndex r = 0 \<and> rq_clientIndex r = 0)"
proof -
  obtain h0 h where h: "harness_start roster_config new_harness True h0"
    "custody (\<lambda>k m. None) (\<lambda>x y. 0) roster_config h0 {} h" "length (hn_workers h) = 1"
    "wk_clients (hn_workers h ! 0) \<noteq> []" "suspended_at h 0 0" "hn_control h = None" "wk_inbox (hn_workers h ! 0) = []"
    using suspended_run by blast
  from no_client_stranded [OF roster_valid h(1,2)] h(3-7) show ?thesis
    by (intro exI [of _ h]) (fastforce simp: suspended_at_def)
qed

end
