(* ===== verification/Ranges.thy ===== *)
theory Ranges
  imports Harness
begin

text \<open>
  The machine types behind the model's integers. The development reads \<^verbatim>\<open>int\<close> as a HOL integer;
  here it is shown that the values a loaded configuration and a running generator hold stay in
  the range of that type, so that no addition among them overflows.
\<close>

section \<open>Configuration\<close>

definition fits_i64 :: "int \<Rightarrow> bool" where
  "fits_i64 n \<longleftrightarrow> - (2 ^ 63) \<le> n \<and> n < 2 ^ 63"

text \<open>The fields of type \<^verbatim>\<open>int\<close> (and \<^verbatim>\<open>sparseRangeChunks\<close>, which is read as one).\<close>

definition config_ints :: "Config \<Rightarrow> int list" where
  "config_ints c =
     [cf_clients c, cf_threads c, cf_updateHz c, cf_spawnRadiusChunks c, cf_distance c, cf_volumeChunks c,
      cf_sparseRangeChunks c, cf_sparseGroup c, cf_volumeBaseUp c, cf_permWindowRadiusChunks c, cf_permReloadGraceMs c,
      cf_decay c, cf_indexBase c, cf_indexLimit c, cf_indexWidth c, cf_rampBatchSize c, cf_rampIntervalMs c,
      cf_rxSilentReassignSec c, cf_provisionConcurrency c, cf_durationSec c, cf_statsIntervalSec c,
      cf_socketRcvbufBytes c, cf_capsIntervalSec c, cf_sessionSettleMs c, cf_rxHealthTimeoutSec c,
      cf_tokenRefreshLeadSec c]"

definition config_typed :: "Config \<Rightarrow> bool" where
  "config_typed c \<longleftrightarrow> list_all fits_int (config_ints c) \<and> fits_i64 (cf_appId c)"

text \<open>cxxopts parses \<^verbatim>\<open>--app-id\<close> as \<^verbatim>\<open>int64_t\<close> and every other integer option as \<^verbatim>\<open>int\<close>.\<close>

definition cli_typed :: "Cli \<Rightarrow> bool" where
  "cli_typed cli \<longleftrightarrow> (\<forall>name n. cl_int cli name = Some n \<longrightarrow> (if name = ''app-id'' then fits_i64 n else fits_int n))"

lemmas typed_defs = config_typed_def config_ints_def

lemma stoi_fits: "stoi s = Inr n \<Longrightarrow> fits_int n"
  by (auto simp: stoi_def parse_integer_def fits_int_def int_max_def Let_def split: if_splits)

lemma stoll_fits: "stoll s = Inr n \<Longrightarrow> fits_i64 n"
  by (auto simp: stoll_def parse_integer_def fits_i64_def Let_def split: if_splits)

text \<open>One assignment of \<^verbatim>\<open>load\<close>, from a layer or from the command line.\<close>

definition keeps_typed :: "(Config \<Rightarrow> config_error + Config) \<Rightarrow> bool" where
  "keeps_typed step \<longleftrightarrow> (\<forall>c c'. config_typed c \<longrightarrow> step c = Inr c' \<longrightarrow> config_typed c')"

lemma typed_str: "(\<And>c v. config_typed c \<Longrightarrow> config_typed (upd (\<lambda>_. v) c)) \<Longrightarrow> keeps_typed (layer_str l n sel upd)"
  by (auto simp: keeps_typed_def layer_defs)

lemma typed_bool: "(\<And>c v. config_typed c \<Longrightarrow> config_typed (upd (\<lambda>_. v) c)) \<Longrightarrow> keeps_typed (layer_bool l n sel upd)"
  by (auto simp: keeps_typed_def layer_defs)

lemma typed_double: "(\<And>c v. config_typed c \<Longrightarrow> config_typed (upd (\<lambda>_. v) c)) \<Longrightarrow> keeps_typed (layer_double sd l n sel upd)"
  by (auto simp: keeps_typed_def layer_defs ebind_Inr_iff)

lemma typed_int:
  "(\<And>c. config_typed c \<Longrightarrow> fits_int (sel c)) \<Longrightarrow> (\<And>c v. config_typed c \<Longrightarrow> fits_int v \<Longrightarrow> config_typed (upd (\<lambda>_. v) c)) \<Longrightarrow>
     keeps_typed (layer_int l n sel upd)"
  by (auto simp: keeps_typed_def layer_defs ebind_Inr_iff lgetInt_def Let_def split: if_splits dest: stoi_fits)

lemma typed_i64:
  "(\<And>c. config_typed c \<Longrightarrow> fits_i64 (sel c)) \<Longrightarrow> (\<And>c v. config_typed c \<Longrightarrow> fits_i64 v \<Longrightarrow> config_typed (upd (\<lambda>_. v) c)) \<Longrightarrow>
     keeps_typed (layer_i64 l n sel upd)"
  by (auto simp: keeps_typed_def layer_defs ebind_Inr_iff lgetI64_def Let_def split: if_splits dest: stoll_fits)

lemma layers_typed: "list_all keeps_typed (layer_steps sd l)"
  unfolding layer_steps_def list.pred_inject
  by (intro conjI TrueI typed_str typed_bool typed_double typed_int typed_i64) (simp_all add: typed_defs)

lemma foldl_typed:
  "foldl ebind (Inr c) steps = Inr c' \<Longrightarrow> list_all keeps_typed steps \<Longrightarrow> config_typed c \<Longrightarrow> config_typed c'"
proof (induction steps arbitrary: c)
  case (Cons s steps)
  then show ?case by (cases "s c") (auto simp: foldl_ebind_Inl keeps_typed_def)
qed simp

lemma cli_steps_typed:
  assumes "cli_typed cli"
  shows "list_all (\<lambda>step. \<forall>c. config_typed c \<longrightarrow> config_typed (step c)) (cli_steps cli)"
proof -
  have i: "fits_int n" if "cl_int cli name = Some n" "name \<noteq> ''app-id''" for name n
    using assms that by (auto simp: cli_typed_def)
  have a: "fits_i64 n" if "cl_int cli ''app-id'' = Some n" for n
    using assms that by (auto simp: cli_typed_def)
  show ?thesis unfolding cli_steps_def list.pred_inject
    by (intro conjI) (auto simp: typed_defs cli_defs dest: a i split: option.split)
qed

lemma init_typed: "config_typed Config_init"
  by (simp add: typed_defs Config_init_def fits_int_def int_max_def fits_i64_def)

lemma defaults_typed: "config_typed c \<Longrightarrow> config_typed (load_defaults hostname c)"
  by (simp add: load_defaults_def typed_defs Let_def)

lemma load_typed:
  assumes "load sd env hostname (Some cli) = Inr c" "cli_typed cli"
  shows "config_typed c"
proof -
  from assms(1) obtain kv d where d: "foldl ebind (Inr Config_init) (layer_steps sd \<lparr>ly_env = env, ly_file = kv\<rparr>) = Inr d"
    and c: "c = load_defaults hostname (fold (\<lambda>step c. step c) (cli_steps cli) d)"
    by (auto simp: load_def ebind_Inr_iff Let_def split: if_splits)
  have "config_typed d" by (rule foldl_typed [OF d layers_typed init_typed])
  then have "config_typed (fold (\<lambda>step c. step c) (cli_steps cli) d)"
    using cli_steps_typed [OF assms(2)] by (intro fold_preserves [where P = config_typed]) (auto simp: list_all_iff)
  then show ?thesis unfolding c by (rule defaults_typed)
qed

section \<open>A running generator\<close>

lemma fits_between: "0 \<le> n \<Longrightarrow> n \<le> int_max \<Longrightarrow> fits_int n"
  by (simp add: fits_int_def int_max_def)

text \<open>The two gauges count different clients.\<close>

lemma gauges_bounded:
  "0 \<le> headcount ACTIVE h \<and> 0 \<le> headcount SUSPENDED h \<and>
   headcount ACTIVE h + headcount SUSPENDED h \<le> int (size (population h))"
proof -
  have "0 \<le> headcount s h" "0 \<le> arriving h" for s
    by (auto simp: headcount_def arriving_def count_state_def intro!: sum_list_nonneg)
  then show ?thesis using size_population [of h] by simp
qed

lemma members_subset: "w \<in> set (hn_workers h) \<Longrightarrow> members w \<subseteq># population h"
proof -
  have "w \<in> set ws \<Longrightarrow> members w \<subseteq># sum_list (map members ws)" for ws
    by (induction ws) (auto intro: subset_mset.add_increasing subset_mset.add_increasing2)
  then show "w \<in> set (hn_workers h) \<Longrightarrow> members w \<subseteq># population h" by (simp add: population_def)
qed

lemma worker_bounded: "w \<in> set (hn_workers h) \<Longrightarrow> int (length (wk_clients w)) \<le> int (size (population h))"
  using size_mset_mono [OF members_subset [of w h]] by (simp add: members_def)

text \<open>What the books say of the numbers of an add in flight.\<close>

lemma adding_bounds:
  assumes "books_ok cfg h" "hn_adding h = Starting n g \<or> (\<exists>r. hn_adding h = Provisioning n g r)"
  shows "1 \<le> n \<and> g = cf_indexBase cfg + hn_used h \<and> hn_used h + n \<le> cf_indexLimit cfg"
  using assms by (auto simp: books_ok_def add_ok_def claimed_def)

text \<open>
  C22. Machine integers. Whatever the layers and the command line hold, each \<^verbatim>\<open>int\<close> field of an
  accepted configuration holds an \<^verbatim>\<open>int\<close>, the application id a 64-bit one; and in every state the
  generator can reach so do the count of used indices, that count with an add in flight, the two
  gauges and their sum, the numbers of clients per worker, and the count of an add. The
  indices themselves, and the first index, the last index and the end of an add, are values of \<^verbatim>\<open>int\<close> if
  the configured range of indices ends within \<^verbatim>\<open>int\<close>, which \<^verbatim>\<open>validate\<close> does not check.
\<close>

theorem ints_in_range:
  assumes "load sd env hostname (Some cli) = Inr cfg" "cli_typed cli"
    and "harness_start cfg new_harness True h0" "(harness_step hm at2 cfg)\<^sup>*\<^sup>* h0 h"
  shows "config_typed cfg \<and>
     list_all fits_int [hn_used h, hn_used h + queued h, st_activeClients (hn_stats h), st_suspendedClients (hn_stats h),
       st_activeClients (hn_stats h) + st_suspendedClients (hn_stats h)] \<and>
     (\<forall>w \<in> set (hn_workers h). fits_int (int (length (wk_clients w)))) \<and>
     (\<forall>n g. hn_adding h = Starting n g \<or> (\<exists>r. hn_adding h = Provisioning n g r) \<longrightarrow> list_all fits_int [n, hn_used h + n]) \<and>
     (cf_indexBase cfg + cf_indexLimit cfg \<le> int_max \<longrightarrow>
        (\<forall>w \<in> set (hn_workers h). \<forall>x \<in> set (ids w @ waiting_ids w). 0 \<le> x \<and> fits_int x) \<and>
        (\<forall>n g. hn_adding h = Starting n g \<or> (\<exists>r. hn_adding h = Provisioning n g r) \<longrightarrow> list_all fits_int [g, g + n - 1, g + n]))"
proof -
  have v: "validate cfg = Inr []" using assms(1) by (auto elim!: load_InrD)
  note r = valid_ranges [OF v]
  have typed: "config_typed cfg" by (rule load_typed [OF assms(1,2)])
  then have l: "cf_indexLimit cfg \<le> int_max" by (simp add: typed_defs fits_int_def)
  have crew: "crew_ok cfg h" and books: "books_ok cfg h" using run_ok [OF v assms(3,4)] by (simp_all add: harness_ok_def)
  have pop: "population h = mset_set {cf_indexBase cfg..<cf_indexBase cfg + hn_used h + queued h}" and u: "0 \<le> hn_used h"
    using books by (simp_all add: books_ok_def)
  have q: "0 \<le> queued h" "hn_used h + queued h \<le> cf_indexLimit cfg"
    using books by (auto simp: books_ok_def add_ok_def queued_def claimed_def split: AddThread.splits)
  have size: "int (size (population h)) = hn_used h + queued h" using u q by (simp add: pop)
  have x: "0 \<le> x \<and> fits_int x"
    if "w \<in> set (hn_workers h)" "x \<in> set (ids w @ waiting_ids w)" "cf_indexBase cfg + cf_indexLimit cfg \<le> int_max" for w x
  proof -
    have "x \<in># members w" using that(2) by (simp add: members_def)
    then have "x \<in># population h" by (rule mset_subset_eqD [OF members_subset [OF that(1)]])
    then show ?thesis using q that(3) r by (simp add: pop fits_int_def int_max_def)
  qed
  have "fits_int (int (length (wk_clients w)))" if "w \<in> set (hn_workers h)" for w
    using worker_bounded [OF that] size q l by (intro fits_between) simp_all
  moreover have "list_all fits_int [n, hn_used h + n] \<and>
      (cf_indexBase cfg + cf_indexLimit cfg \<le> int_max \<longrightarrow> list_all fits_int [g, g + n - 1, g + n])"
    if "hn_adding h = Starting n g \<or> (\<exists>r. hn_adding h = Provisioning n g r)" for n g
    using adding_bounds [OF books that] u l r by (auto simp: fits_int_def int_max_def)
  moreover have "st_activeClients (hn_stats h) = headcount ACTIVE h" "st_suspendedClients (hn_stats h) = headcount SUSPENDED h"
    using crew by (simp_all add: crew_ok_def)
  then have "list_all fits_int [hn_used h, hn_used h + queued h, st_activeClients (hn_stats h), st_suspendedClients (hn_stats h),
       st_activeClients (hn_stats h) + st_suspendedClients (hn_stats h)]"
    using gauges_bounded [of h] size u q l by (auto simp: fits_int_def int_max_def)
  ultimately show ?thesis using typed x by blast
qed

text \<open>The command line that gives the sample run its configuration.\<close>

definition roster_cli :: Cli where
  "roster_cli = sample_cli\<lparr>cl_int := [''clients'' \<mapsto> 1, ''index-limit'' \<mapsto> 25],
     cl_str := [''roster'' \<mapsto> ''roster.json''], cl_bool := [''roster-required'' \<mapsto> True]\<rparr>"

lemma roster_load: "load sd sample_env None (Some roster_cli) = Inr roster_config"
proof -
  have "cl_config roster_cli = Some (Some ''LT_EMAIL=other@example.com'')" "\<not> cl_help roster_cli"
    by (simp_all add: roster_cli_def sample_cli_def)
  moreover have "load_defaults None (fold (\<lambda>step c. step c) (cli_steps roster_cli) sample_layered) = roster_config"
    by (simp add: cli_steps_def cli_defs roster_cli_def sample_cli_def)
       (simp add: load_defaults_def sample_layered_def Config_init_def sample_config_def roster_config_def defaultInstanceId_def)
  ultimately show ?thesis by (simp add: load_def sample_kv sample_layers roster_valid)
qed

theorem ints_in_range_witness:
  "config_typed roster_config \<and> (\<exists>h. hn_used h = 1 \<and> fits_int (hn_used h + queued h) \<and> fits_int (st_activeClients (hn_stats h)))"
proof -
  obtain h0 where h0: "harness_start roster_config new_harness True h0" "hn_used h0 = 1" using roster_start by blast
  have cli: "cli_typed roster_cli" by (simp add: cli_typed_def roster_cli_def fits_int_def int_max_def)
  have "config_typed roster_config \<and>
     list_all fits_int [hn_used h0, hn_used h0 + queued h0, st_activeClients (hn_stats h0), st_suspendedClients (hn_stats h0),
       st_activeClients (hn_stats h0) + st_suspendedClients (hn_stats h0)]"
    using ints_in_range [OF roster_load [of "\<lambda>_. Inl InvalidArgument"] cli h0(1), of "\<lambda>k m. None" "\<lambda>x y. 0" h0] by blast
  then show ?thesis using h0(2) by auto
qed

end
