(* ===== verification/Reporter.thy ===== *)
theory Reporter
  imports Stats
begin

text \<open>
  The reporter's thread (\<^verbatim>\<open>StatsReporter\<close> in \<^verbatim>\<open>src/Stats.hpp\<close>, \<^verbatim>\<open>src/Stats.cpp\<close>): its files, its loop
  around \<open>reporter_turn\<close>, and the text of the rows it appends. A round is what one pass of the
  loop meets: the flag at the three places that read it, the clocks, and the statistics as the
  other threads have left them. The text of a floating-point number and of a JSON document are
  parameters. A round that runs out of the list is a thread that still waits.
\<close>

section \<open>Files\<close>

record StatsReporter =
  sr_intervalSec :: int
  sr_csvPath :: string
  sr_jsonlPath :: string
  sr_instanceId :: string
  sr_running :: bool

definition new_reporter :: "int \<Rightarrow> string \<Rightarrow> string \<Rightarrow> string \<Rightarrow> StatsReporter" where
  "new_reporter intervalSec csvPath jsonlPath instanceId =
     \<lparr>sr_intervalSec = intervalSec, sr_csvPath = csvPath, sr_jsonlPath = jsonlPath,
      sr_instanceId = instanceId, sr_running = False\<rparr>"

text \<open>What the paths name: the text there, and whether opening it succeeds.\<close>

record Disk =
  dk_csv :: string
  dk_csvReadable :: bool
  dk_csvWritable :: bool
  dk_jsonl :: string
  dk_jsonlWritable :: bool

fun join_with :: "string \<Rightarrow> string list \<Rightarrow> string" where
  "join_with sep [] = []"
| "join_with sep [s] = s"
| "join_with sep (s # ss) = s @ sep @ join_with sep ss"

definition csv_header_text :: string where
  "csv_header_text = join_with '','' csv_header @ [CHR 0x0A]"

definition cell_text :: "(double \<Rightarrow> string) \<Rightarrow> cell \<Rightarrow> string" where
  "cell_text show_double x =
     (case x of CStr s \<Rightarrow> s | CU64 n \<Rightarrow> dec (unat n) | CInt i \<Rightarrow> dec_int i | CDouble d \<Rightarrow> show_double d)"

definition csv_row_text :: "(double \<Rightarrow> string) \<Rightarrow> cell list \<Rightarrow> string" where
  "csv_row_text show_double row = join_with '','' (map (cell_text show_double) row) @ [CHR 0x0A]"

text \<open>Opening the CSV file: the header goes into a file that cannot be read or is empty.\<close>

definition csv_open :: "string \<Rightarrow> Disk \<Rightarrow> bool \<times> Disk" where
  "csv_open path dk =
     (if path = [] then (False, dk)
      else let writeHeader = (\<not> dk_csvReadable dk \<or> dk_csv dk = [])
           in if dk_csvWritable dk
              then (True, if writeHeader then dk\<lparr>dk_csv := dk_csv dk @ csv_header_text\<rparr> else dk)
              else (False, dk))"

definition jsonl_open :: "string \<Rightarrow> Disk \<Rightarrow> bool" where
  "jsonl_open path dk \<longleftrightarrow> path \<noteq> [] \<and> dk_jsonlWritable dk"

section \<open>The loop\<close>

record Wakeup =
  rn_head :: bool
  rn_polls :: "nat \<Rightarrow> bool"
  rn_after :: bool
  rn_now :: int
  rn_sysNs :: int
  rn_later :: int
  rn_stats :: Stats

text \<open>The sleeps of 100 ms before a turn, at most \<open>k\<close> of them from the \<open>i\<close>-th on.\<close>

fun naps :: "(nat \<Rightarrow> bool) \<Rightarrow> nat \<Rightarrow> nat \<Rightarrow> nat" where
  "naps polls i 0 = 0"
| "naps polls i (Suc k) = (if polls i then Suc (naps polls (Suc i) k) else 0)"

definition round_naps :: "StatsReporter \<Rightarrow> Wakeup \<Rightarrow> nat" where
  "round_naps sr rn = naps (rn_polls rn) 0 (nat (sr_intervalSec sr * 10))"

definition write_report :: "(double \<Rightarrow> string) \<Rightarrow> (json \<Rightarrow> string) \<Rightarrow> Report \<Rightarrow> Disk \<Rightarrow> Disk" where
  "write_report show_double dump ro dk =
     (let dk = (case ro_csv ro of None \<Rightarrow> dk
                | Some row \<Rightarrow> dk\<lparr>dk_csv := dk_csv dk @ csv_row_text show_double row\<rparr>)
      in case ro_jsonl ro of None \<Rightarrow> dk
         | Some doc \<Rightarrow> dk\<lparr>dk_jsonl := dk_jsonl dk @ dump doc @ [CHR 0x0A]\<rparr>)"

fun reporter_loop ::
  "(double \<Rightarrow> string) \<Rightarrow> (json \<Rightarrow> string) \<Rightarrow> Wakeup list \<Rightarrow> Reporter \<Rightarrow> Disk \<Rightarrow> Report list \<times> Reporter \<times> Disk" where
  "reporter_loop show_double dump [] rp dk = ([], rp, dk)"
| "reporter_loop show_double dump (rn # rns) rp dk =
     (if \<not> rn_head rn \<or> \<not> rn_after rn then ([], rp, dk)
      else let (ro, rp, st) = reporter_turn (rn_now rn) (rn_sysNs rn) (rn_later rn) rp (rn_stats rn);
               dk = write_report show_double dump ro dk;
               (ros, rp, dk) = reporter_loop show_double dump rns rp dk
           in (ro # ros, rp, dk))"

text \<open>\<open>run\<close>: \<open>prev\<close> and \<open>prevTime\<close> are the snapshot and the clock read before the loop.\<close>

definition reporter_run ::
  "(double \<Rightarrow> string) \<Rightarrow> (json \<Rightarrow> string) \<Rightarrow> StatsReporter \<Rightarrow> CounterSnap \<Rightarrow> int \<Rightarrow> Wakeup list \<Rightarrow> Disk \<Rightarrow>
     Report list \<times> Reporter \<times> Disk" where
  "reporter_run show_double dump sr prev prevTime rounds dk =
     (let (csv, dk) = csv_open (sr_csvPath sr) dk;
          jsonl = jsonl_open (sr_jsonlPath sr) dk
      in reporter_loop show_double dump rounds
           \<lparr>rp_csv = csv, rp_jsonl = jsonl, rp_instanceId = sr_instanceId sr, rp_prev = prev, rp_prevTime = prevTime\<rparr> dk)"

definition reporter_start :: "StatsReporter \<Rightarrow> StatsReporter" where
  "reporter_start sr = sr\<lparr>sr_running := True\<rparr>"

text \<open>\<open>stop\<close> says whether there is a thread to join; a second one finds none.\<close>

definition reporter_stop :: "StatsReporter \<Rightarrow> bool \<times> StatsReporter" where
  "reporter_stop sr = (sr_running sr, sr\<lparr>sr_running := False\<rparr>)"

section \<open>The loop's results\<close>

text \<open>The rounds that report: those before the flag is found cleared.\<close>

definition turns :: "Wakeup list \<Rightarrow> Wakeup list" where
  "turns rounds = takeWhile (\<lambda>rn. rn_head rn \<and> rn_after rn) rounds"

lemma turn_frame:
  "reporter_turn now sysNs later rp st = (ro, rp', st') \<Longrightarrow>
     rp_csv rp' = rp_csv rp \<and> rp_jsonl rp' = rp_jsonl rp \<and> rp_instanceId rp' = rp_instanceId rp \<and>
     rp_prev rp' = loadLifetime st \<and> rp_prevTime rp' = now"
  by (auto simp: reporter_turn_def Let_def)

lemma write_report_simps [simp]:
  "dk_csv (write_report sd dump ro dk) = dk_csv dk @ (case ro_csv ro of None \<Rightarrow> [] | Some row \<Rightarrow> csv_row_text sd row)"
  "dk_jsonl (write_report sd dump ro dk) = dk_jsonl dk @ (case ro_jsonl ro of None \<Rightarrow> [] | Some doc \<Rightarrow> dump doc @ [CHR 0x0A])"
  by (simp_all add: write_report_def Let_def split: option.split)

definition written :: "(double \<Rightarrow> string) \<Rightarrow> Report list \<Rightarrow> string" where
  "written sd ros = concat (map (\<lambda>ro. case ro_csv ro of None \<Rightarrow> [] | Some row \<Rightarrow> csv_row_text sd row) ros)"

lemma loop_written:
  "reporter_loop sd dump rounds rp dk = (ros, rp', dk') \<Longrightarrow>
     dk_csv dk' = dk_csv dk @ written sd ros \<and> length ros = length (turns rounds)"
proof (induction rounds arbitrary: rp dk ros)
  case (Cons rn rounds)
  then show ?case
    by (auto simp: turns_def written_def Let_def split: if_splits prod.splits)
qed (simp add: written_def turns_def)

text \<open>The snapshot and the time a turn starts from: what the turn before it read.\<close>

definition reading :: "CounterSnap \<Rightarrow> Wakeup list \<Rightarrow> nat \<Rightarrow> CounterSnap" where
  "reading prev rounds k = (if k = 0 then prev else loadLifetime (rn_stats (rounds ! (k - 1))))"

definition reading_time :: "int \<Rightarrow> Wakeup list \<Rightarrow> nat \<Rightarrow> int" where
  "reading_time prevTime rounds k = (if k = 0 then prevTime else rn_now (rounds ! (k - 1)))"

lemma reading_Cons:
  "reading prev (rn # rounds) (Suc k) = reading (loadLifetime (rn_stats rn)) rounds k"
  "reading_time t (rn # rounds) (Suc k) = reading_time (rn_now rn) rounds k"
  by (cases k; simp add: reading_def reading_time_def)+

lemma loop_turn:
  assumes "reporter_loop sd dump rounds rp dk = (ros, rp', dk')" "k < length ros"
  shows "\<exists>rp1 rp2 st. reporter_turn (rn_now (rounds ! k)) (rn_sysNs (rounds ! k)) (rn_later (rounds ! k)) rp1 (rn_stats (rounds ! k)) =
       (ros ! k, rp2, st) \<and>
     rp_csv rp1 = rp_csv rp \<and> rp_jsonl rp1 = rp_jsonl rp \<and> rp_instanceId rp1 = rp_instanceId rp \<and>
     rp_prev rp1 = reading (rp_prev rp) rounds k \<and> rp_prevTime rp1 = reading_time (rp_prevTime rp) rounds k"
  using assms
proof (induction rounds arbitrary: rp dk ros k)
  case (Cons rn rounds)
  from Cons.prems obtain ro rp1 st ros' where go: "rn_head rn" "rn_after rn"
    and t: "reporter_turn (rn_now rn) (rn_sysNs rn) (rn_later rn) rp (rn_stats rn) = (ro, rp1, st)"
    and r: "reporter_loop sd dump rounds rp1 (write_report sd dump ro dk) = (ros', rp', dk')" and ros: "ros = ro # ros'"
    by (auto simp: Let_def split: if_splits prod.splits)
  show ?case
  proof (cases k)
    case 0
    then show ?thesis using t ros by (auto simp: reading_def reading_time_def)
  next
    case (Suc m)
    then have "m < length ros'" using Cons.prems(2) ros by simp
    from Cons.IH [OF r this] turn_frame [OF t] show ?thesis by (simp add: Suc ros reading_Cons)
  qed
qed simp

lemma sum_telescope: "sum_list (map (\<lambda>k. g (Suc k) - g k) [0..<n]) = g n - (g 0 :: u64)"
  by (induction n) simp_all

section \<open>Rows\<close>

definition commas :: "string \<Rightarrow> nat" where
  "commas s = count_list s (CHR '','')"

text \<open>The fields a reader of the file sees in a line.\<close>

definition columns :: "string \<Rightarrow> nat" where
  "columns s = Suc (commas s)"

lemma commas_append [simp]: "commas (s @ t) = commas s + commas t"
  by (simp add: commas_def)

lemma columns_join: "ss \<noteq> [] \<Longrightarrow> columns (join_with '','' ss) = length ss + sum_list (map commas ss)"
proof (induction "'','' :: string" ss rule: join_with.induct)
  case (3 s t ss)
  then show ?case by (simp add: columns_def) (simp add: commas_def)
qed (simp_all add: columns_def)

text \<open>Numbers hold neither a comma nor a line end.\<close>

definition separator :: "char \<Rightarrow> bool" where
  "separator c \<longleftrightarrow> c = CHR '','' \<or> c = CHR 0x0A"

lemma digits_plain: "c \<in> set (dec n) \<Longrightarrow> 48 \<le> (of_char c :: nat)"
proof (induction n rule: dec.induct)
  case (1 n)
  then show ?case by (subst (asm) (2) dec.simps) (auto simp: of_char_digit split: if_splits)
qed

lemma separator_small: "separator c \<Longrightarrow> (of_char c :: nat) < 45"
  by (auto simp: separator_def)

lemma dec_plain: "separator c \<Longrightarrow> c \<notin> set (dec n)" "separator c \<Longrightarrow> c \<notin> set (dec_int i)"
proof -
  show d: "separator c \<Longrightarrow> c \<notin> set (dec n)" for n using digits_plain [of c n] separator_small [of c] by fastforce
  have "separator c \<Longrightarrow> c \<noteq> CHR ''-''" by (auto simp: separator_def)
  then show "separator c \<Longrightarrow> c \<notin> set (dec_int i)" using d by (simp add: dec_int_def)
qed

lemma commas_none: "CHR '','' \<notin> set s \<Longrightarrow> commas s = 0"
  by (simp add: commas_def count_list_0_iff)

lemma commas_dec [simp]: "commas (dec n) = 0" "commas (dec_int i) = 0"
  by (simp_all add: commas_none dec_plain separator_def)

lemma set_join: "set (join_with sep ss) \<subseteq> set sep \<union> \<Union> (set ` set ss)"
  by (induction sep ss rule: join_with.induct) auto

lemma header_line: "columns (join_with '','' csv_header) = 19 \<and> CHR 0x0A \<notin> set (join_with '','' csv_header)"
  by (simp add: csv_header_def columns_def commas_def)

lemma row_columns:
  assumes "\<forall>x. CHR '','' \<notin> set (sd x)"
  shows "columns (join_with '','' (map (cell_text sd) (csv_row inst rid a b iv cur win))) = 19 + commas inst + commas rid"
  using assms by (subst columns_join) (simp_all add: csv_row_def cell_text_def commas_none)

lemma row_line:
  assumes "\<forall>x. CHR 0x0A \<notin> set (sd x)"
  shows "CHR 0x0A \<in> set (join_with '','' (map (cell_text sd) (csv_row inst rid a b iv cur win))) \<longleftrightarrow>
     CHR 0x0A \<in> set inst \<or> CHR 0x0A \<in> set rid"
  using assms by (auto simp: csv_row_def cell_text_def dec_plain separator_def)

text \<open>What a turn reports, in terms of the snapshot and the time it starts from.\<close>

definition turn_rates :: "CounterSnap \<Rightarrow> int \<Rightarrow> Wakeup \<Rightarrow> IntervalRates" where
  "turn_rates prev prevTime rn = interval_rates (loadLifetime (rn_stats rn)) prev (rn_now rn - prevTime) (rn_sysNs rn)"

lemma turn_report:
  assumes "reporter_turn (rn_now rn) (rn_sysNs rn) (rn_later rn) rp (rn_stats rn) = (ro, rp', st')"
  shows "ro_console ro = console_line (st_activeClients (rn_stats rn)) (st_suspendedClients (rn_stats rn))
       (turn_rates (rp_prev rp) (rp_prevTime rp) rn) (loadLifetime (rn_stats rn)) (loadWindow (rn_stats rn))"
    "rp_csv rp \<Longrightarrow> ro_csv ro = Some (csv_row (rp_instanceId rp) (st_rungId (rn_stats rn))
       (st_activeClients (rn_stats rn)) (st_suspendedClients (rn_stats rn))
       (turn_rates (rp_prev rp) (rp_prevTime rp) rn) (loadLifetime (rn_stats rn)) (loadWindow (rn_stats rn)))"
proof -
  have "loadWindow (setInterval iv st) = loadWindow st" "st_activeClients (setInterval iv st) = st_activeClients st"
    "st_suspendedClients (setInterval iv st) = st_suspendedClients st" "st_rungId (setInterval iv st) = st_rungId st" for iv st
    by (simp_all add: setInterval_def loadWindow_def loadLifetime_def)
  note frame = this
  show "ro_console ro = console_line (st_activeClients (rn_stats rn)) (st_suspendedClients (rn_stats rn))
       (turn_rates (rp_prev rp) (rp_prevTime rp) rn) (loadLifetime (rn_stats rn)) (loadWindow (rn_stats rn))"
    "rp_csv rp \<Longrightarrow> ro_csv ro = Some (csv_row (rp_instanceId rp) (st_rungId (rn_stats rn))
       (st_activeClients (rn_stats rn)) (st_suspendedClients (rn_stats rn))
       (turn_rates (rp_prev rp) (rp_prevTime rp) rn) (loadLifetime (rn_stats rn)) (loadWindow (rn_stats rn)))"
    using assms by (auto simp: reporter_turn_def Let_def turn_rates_def frame)
qed

section \<open>Properties\<close>

text \<open>
  C30. The rows of the CSV file. A reporter on a file it can read and append to leaves what was
  there, puts the header first into an empty file and into no other, and appends exactly one row
  per turn. The header has 19 columns. A row has 19 as well, in one line, if neither the instance
  id nor the rung id in force holds a comma or a line end; a comma in one of them shifts the
  columns behind it, since nothing is quoted and \<^verbatim>\<open>Harness::openRung\<close> takes any id.
\<close>

theorem csv_columns:
  assumes "reporter_run sd dump sr prev t rounds dk = (ros, rp', dk')"
    and "sr_csvPath sr \<noteq> []" "dk_csvReadable dk" "dk_csvWritable dk" "\<forall>x. CHR '','' \<notin> set (sd x) \<and> CHR 0x0A \<notin> set (sd x)"
  shows "\<exists>rows. dk_csv dk' = (if dk_csv dk = [] then csv_header_text else dk_csv dk) @ concat (map (\<lambda>row. row @ [CHR 0x0A]) rows) \<and>
     (\<exists>header. csv_header_text = header @ [CHR 0x0A] \<and> columns header = 19) \<and>
     length rows = length (turns rounds) \<and>
     (\<forall>k < length rows. columns (rows ! k) = 19 + commas (sr_instanceId sr) + commas (st_rungId (rn_stats (rounds ! k))) \<and>
        (CHR 0x0A \<in> set (rows ! k) \<longleftrightarrow> CHR 0x0A \<in> set (sr_instanceId sr) \<or> CHR 0x0A \<in> set (st_rungId (rn_stats (rounds ! k)))))"
proof -
  let ?dk = "if dk_csv dk = [] then dk\<lparr>dk_csv := dk_csv dk @ csv_header_text\<rparr> else dk"
  let ?rp = "\<lparr>rp_csv = True, rp_jsonl = jsonl_open (sr_jsonlPath sr) ?dk, rp_instanceId = sr_instanceId sr, rp_prev = prev, rp_prevTime = t\<rparr>"
  have loop: "reporter_loop sd dump rounds ?rp ?dk = (ros, rp', dk')"
    using assms(1-4) by (simp add: reporter_run_def csv_open_def Let_def split: if_splits)
  let ?row = "\<lambda>k. join_with '','' (map (cell_text sd) (the (ro_csv (ros ! k))))"
  have row: "\<exists>a b iv cur win. ro_csv (ros ! k) = Some (csv_row (sr_instanceId sr) (st_rungId (rn_stats (rounds ! k))) a b iv cur win)"
    if "k < length ros" for k
  proof -
    from loop_turn [OF loop that] obtain rp1 rp2 st where
      t: "reporter_turn (rn_now (rounds ! k)) (rn_sysNs (rounds ! k)) (rn_later (rounds ! k)) rp1 (rn_stats (rounds ! k)) = (ros ! k, rp2, st)"
      "rp_csv rp1" "rp_instanceId rp1 = sr_instanceId sr" by auto
    from turn_report(2) [OF t(1,2)] show ?thesis unfolding t(3) by blast
  qed
  then have "ro_csv ro = Some (the (ro_csv ro))" if "ro \<in> set ros" for ro using that by (fastforce simp: in_set_conv_nth)
  then have "written sd ros = concat (map (\<lambda>ro. csv_row_text sd (the (ro_csv ro))) ros)"
    unfolding written_def by (metis (no_types, lifting) map_cong option.case(2))
  also have "\<dots> = concat (map (\<lambda>row. row @ [CHR 0x0A]) (map (\<lambda>ro. join_with '','' (map (cell_text sd) (the (ro_csv ro)))) ros))"
    by (simp add: csv_row_text_def comp_def)
  finally have "dk_csv dk' = (if dk_csv dk = [] then csv_header_text else dk_csv dk) @
      concat (map (\<lambda>row. row @ [CHR 0x0A]) (map (\<lambda>ro. join_with '','' (map (cell_text sd) (the (ro_csv ro)))) ros))"
    using loop_written [OF loop] by simp
  moreover have "columns (?row k) = 19 + commas (sr_instanceId sr) + commas (st_rungId (rn_stats (rounds ! k))) \<and>
      (CHR 0x0A \<in> set (?row k) \<longleftrightarrow> CHR 0x0A \<in> set (sr_instanceId sr) \<or> CHR 0x0A \<in> set (st_rungId (rn_stats (rounds ! k))))"
    if "k < length ros" for k
    using row [OF that] row_columns [of sd] row_line [of sd] assms(5) by auto
  ultimately show ?thesis using loop_written [OF loop] header_line
    by (intro exI [of _ "map (\<lambda>ro. join_with '','' (map (cell_text sd) (the (ro_csv ro)))) ros"]) (auto simp: csv_header_text_def)
qed

text \<open>One turn on an empty file, in a rung whose name holds a comma.\<close>

definition sample_round :: Wakeup where
  "sample_round = \<lparr>rn_head = True, rn_polls = (\<lambda>_. True), rn_after = True, rn_now = 5, rn_sysNs = 5, rn_later = 6,
     rn_stats = Stats_init\<lparr>st_rungId := ''a,b'', st_txPackets := 9\<rparr>\<rparr>"

definition sample_disk :: Disk where
  "sample_disk = \<lparr>dk_csv = [], dk_csvReadable = True, dk_csvWritable = True, dk_jsonl = [], dk_jsonlWritable = False\<rparr>"

theorem csv_columns_witness:
  "\<exists>ros rp' dk' row. reporter_run (\<lambda>_. ''0'') (\<lambda>_. []) (new_reporter 5 ''out.csv'' [] ''host'') CounterSnap_init 0 [sample_round] sample_disk =
     (ros, rp', dk') \<and> dk_csv dk' = csv_header_text @ row @ [CHR 0x0A] \<and> columns row = 20"
proof -
  obtain ros rp' dk' where r: "reporter_run (\<lambda>_. ''0'') (\<lambda>_. []) (new_reporter 5 ''out.csv'' [] ''host'') CounterSnap_init 0 [sample_round] sample_disk =
     (ros, rp', dk')" by (metis prod_cases3)
  have t: "turns [sample_round] = [sample_round]" by (simp add: turns_def sample_round_def)
  have rung: "st_rungId (rn_stats sample_round) = ''a,b''" by (simp add: sample_round_def)
  from csv_columns [OF r] obtain rows where
    "dk_csv dk' = csv_header_text @ concat (map (\<lambda>row. row @ [CHR 0x0A]) rows)" "length rows = 1"
    "columns (rows ! 0) = 19 + commas ''host'' + commas ''a,b''"
    using rung by (auto simp: new_reporter_def sample_disk_def t)
  then show ?thesis using r by (auto simp: length_Suc_conv commas_def)
qed

text \<open>
  C31. The intervals of a reporter follow each other without gap or overlap. The rates of every
  report are those between the counters and the clock it read and the ones the report before it
  read (the first: those read when the thread began); so for every counter, the increments over
  which the rates are taken add up to what it counted in all, whatever the reader's times were.
\<close>

theorem reporter_intervals:
  assumes "reporter_run sd dump sr prev t rounds dk = (ros, rp', dk')"
  shows "length ros = length (turns rounds) \<and>
     (\<forall>k < length ros. ro_console (ros ! k) =
        console_line (st_activeClients (rn_stats (rounds ! k))) (st_suspendedClients (rn_stats (rounds ! k)))
          (interval_rates (reading prev rounds (Suc k)) (reading prev rounds k)
             (reading_time t rounds (Suc k) - reading_time t rounds k) (rn_sysNs (rounds ! k)))
          (reading prev rounds (Suc k)) (loadWindow (rn_stats (rounds ! k)))) \<and>
     (\<forall>f. (\<forall>k < length ros. f (reading prev rounds k) \<le> f (reading prev rounds (Suc k))) \<longrightarrow>
        sum_list (map (\<lambda>k. satSub (f (reading prev rounds (Suc k))) (f (reading prev rounds k))) [0..<length ros]) =
          f (reading prev rounds (length ros)) - f prev)"
proof -
  obtain rp dk1 where loop: "reporter_loop sd dump rounds rp dk1 = (ros, rp', dk')" and rp: "rp_prev rp = prev" "rp_prevTime rp = t"
    using assms by (auto simp: reporter_run_def Let_def split: prod.splits)
  have "ro_console (ros ! k) = console_line (st_activeClients (rn_stats (rounds ! k))) (st_suspendedClients (rn_stats (rounds ! k)))
          (interval_rates (reading prev rounds (Suc k)) (reading prev rounds k)
             (reading_time t rounds (Suc k) - reading_time t rounds k) (rn_sysNs (rounds ! k)))
          (reading prev rounds (Suc k)) (loadWindow (rn_stats (rounds ! k)))" if "k < length ros" for k
  proof -
    from loop_turn [OF loop that] rp obtain rp1 rp2 st where
      t: "reporter_turn (rn_now (rounds ! k)) (rn_sysNs (rounds ! k)) (rn_later (rounds ! k)) rp1 (rn_stats (rounds ! k)) = (ros ! k, rp2, st)"
      and r: "rp_prev rp1 = reading prev rounds k" "rp_prevTime rp1 = reading_time t rounds k" by blast
    from turn_report(1) [OF t] show ?thesis by (simp add: turn_rates_def r) (simp add: reading_def reading_time_def)
  qed
  moreover have "sum_list (map (\<lambda>k. satSub (f (reading prev rounds (Suc k))) (f (reading prev rounds k))) [0..<length ros]) =
      f (reading prev rounds (length ros)) - f prev"
    if "\<forall>k < length ros. f (reading prev rounds k) \<le> f (reading prev rounds (Suc k))" for f
  proof -
    have "map (\<lambda>k. satSub (f (reading prev rounds (Suc k))) (f (reading prev rounds k))) [0..<length ros] =
        map (\<lambda>k. f (reading prev rounds (Suc k)) - f (reading prev rounds k)) [0..<length ros]"
      using that by (simp add: satSub_def)
    then show ?thesis by (simp only: sum_telescope [of "\<lambda>k. f (reading prev rounds k)"]) (simp add: reading_def)
  qed
  ultimately show ?thesis using loop_written [OF loop] by blast
qed

theorem reporter_intervals_witness:
  "\<exists>ros rp' dk'. reporter_run (\<lambda>_. ''0'') (\<lambda>_. []) (new_reporter 5 ''out.csv'' [] ''host'') CounterSnap_init 0 [sample_round] sample_disk =
     (ros, rp', dk') \<and> length ros = 1 \<and>
     sum_list (map (\<lambda>k. satSub (cs_txPackets (reading CounterSnap_init [sample_round] (Suc k)))
       (cs_txPackets (reading CounterSnap_init [sample_round] k))) [0..<length ros]) = 9"
proof -
  obtain ros rp' dk' where r: "reporter_run (\<lambda>_. ''0'') (\<lambda>_. []) (new_reporter 5 ''out.csv'' [] ''host'') CounterSnap_init 0 [sample_round] sample_disk =
     (ros, rp', dk')" by (metis prod_cases3)
  have t: "turns [sample_round] = [sample_round]" by (simp add: turns_def sample_round_def)
  have z: "cs_txPackets (reading CounterSnap_init [sample_round] 0) = 0" "cs_txPackets (reading CounterSnap_init [sample_round] 1) = 9"
    by (simp_all add: reading_def sample_round_def loadLifetime_def CounterSnap_init_def)
  note R = reporter_intervals [OF r]
  have n: "length ros = 1" using conjunct1 [OF R] t by simp
  have "(\<forall>k < length ros. cs_txPackets (reading CounterSnap_init [sample_round] k) \<le> cs_txPackets (reading CounterSnap_init [sample_round] (Suc k))) \<longrightarrow>
        sum_list (map (\<lambda>k. satSub (cs_txPackets (reading CounterSnap_init [sample_round] (Suc k)))
            (cs_txPackets (reading CounterSnap_init [sample_round] k))) [0..<length ros]) =
          cs_txPackets (reading CounterSnap_init [sample_round] (length ros)) - cs_txPackets CounterSnap_init"
    using R by blast
  moreover have "cs_txPackets CounterSnap_init = 0" by (simp add: CounterSnap_init_def)
  ultimately show ?thesis using r z n by (intro exI [of _ ros] exI [of _ rp'] exI [of _ dk']) simp
qed

end
