(* ===== verification/FleetWait.thy ===== *)
theory FleetWait
  imports Network
begin

text \<open>
  \<^verbatim>\<open>wait\<close> against generators: what the loop of \<^verbatim>\<open>src/ctl.cpp\<close> concludes from the status documents
  that \<^verbatim>\<open>Harness::statusJson\<close> writes, in terms of the states of the fleet at each poll.
\<close>

section \<open>One poll\<close>

definition live_clients :: "Harness \<Rightarrow> int" where
  "live_clients h = st_activeClients (hn_stats h) + st_suspendedClients (hn_stats h)"

definition status_fits :: "Harness \<Rightarrow> bool" where
  "status_fits h \<longleftrightarrow> is_int32 (hn_used h) \<and> is_int32 (st_activeClients (hn_stats h)) \<and>
     is_int32 (st_suspendedClients (hn_stats h)) \<and> is_int32 (live_clients h)"

text \<open>What the driver compares with: as many more than there are.\<close>

definition growth_fits :: "int \<Rightarrow> Harness \<Rightarrow> bool" where
  "growth_fits delta h \<longleftrightarrow> delta > 0 \<longrightarrow> is_int32 (hn_used h + delta) \<and> is_int32 (live_clients h + delta)"

text \<open>A generator that has what was waited for, compared with how it was at the first poll.\<close>

definition node_settled :: "int \<Rightarrow> Node \<Rightarrow> Node \<Rightarrow> bool" where
  "node_settled delta n0 n \<longleftrightarrow> \<not> hn_busy (nd_harness n) \<and>
     (delta > 0 \<longrightarrow> hn_used (nd_harness n0) + delta \<le> hn_used (nd_harness n) \<and>
        live_clients (nd_harness n0) + delta \<le> live_clients (nd_harness n))"

definition fleet_outcome :: "int \<Rightarrow> Node list \<Rightarrow> Node list \<Rightarrow> Round" where
  "fleet_outcome delta ns0 ns =
     (if list_ex (\<lambda>n. hn_addError (nd_harness n) \<noteq> []) ns then Settled 1
      else if list_all2 (node_settled delta) ns0 ns then Settled 0 else NotYet)"

lemma status_read:
  assumes "status_fits h"
  shows "jvalue get_bool (canon (statusJson cfg h)) ''busy'' False = Inr (hn_busy h)"
    "jvalue get_int (canon (statusJson cfg h)) ''active'' 0 = Inr (st_activeClients (hn_stats h))"
    "jvalue get_int (canon (statusJson cfg h)) ''suspended'' 0 = Inr (st_suspendedClients (hn_stats h))"
    "jvalue get_int (canon (statusJson cfg h)) ''used'' 0 = Inr (hn_used h)"
    "jvalue get_string (canon (statusJson cfg h)) ''add_error'' [] = Inr (hn_addError h)"
    "add_int (st_activeClients (hn_stats h)) (st_suspendedClients (hn_stats h)) = Inr (live_clients h)"
  using assms by (simp_all add: jvalue_canon, simp_all add: statusJson_def Let_def status_fits_def get_int_jint_ok add_int_def live_clients_def)

definition status_row :: "(json \<Rightarrow> string option) \<Rightarrow> Node \<Rightarrow> FanIn" where
  "status_row dump n = \<lparr>fi_host = nd_url n,
     fi_res = \<lparr>hr_status = 200, hr_body = the (dump (statusJson (nd_config n) (nd_harness n))), hr_error = []\<rparr>\<rparr>"

definition readable :: "json_parser \<Rightarrow> (json \<Rightarrow> string option) \<Rightarrow> Node \<Rightarrow> bool" where
  "readable parse dump n \<longleftrightarrow> reads_back parse dump (statusJson (nd_config n) (nd_harness n)) \<and> status_fits (nd_harness n)"

lemma readable_row:
  "readable parse dump n \<Longrightarrow> optional parse (hr_body (fi_res (status_row dump n))) = Some (canon (statusJson (nd_config n) (nd_harness n)))"
  by (auto simp: readable_def reads_back_def optional_def status_row_def)

definition node_grown :: "int \<Rightarrow> int \<times> int \<Rightarrow> Node \<Rightarrow> bool" where
  "node_grown delta b n \<longleftrightarrow> (delta > 0 \<longrightarrow> fst b + delta \<le> hn_used (nd_harness n) \<and> snd b + delta \<le> live_clients (nd_harness n))"

lemma wait_row_node:
  assumes "readable parse dump n" "delta > 0 \<longrightarrow> is_int32 (bu + delta) \<and> is_int32 (bl + delta)"
  shows "wait_row (optional parse) delta (status_row dump n, bu, bl) ws =
     Inr (ws\<lparr>ws_idle := ws_idle ws \<and> \<not> hn_busy (nd_harness n), ws_grown := ws_grown ws \<and> node_grown delta (bu, bl) n,
        ws_failed := ws_failed ws \<or> hn_addError (nd_harness n) \<noteq> []\<rparr>)"
proof -
  have f: "status_fits (nd_harness n)" using assms(1) by (simp add: readable_def)
  note r = status_read [OF f]
  have g: "(if delta > 0 then has_grown delta bu bl (live_clients (nd_harness n)) (canon (statusJson (nd_config n) (nd_harness n))) else Inr True) =
      Inr (node_grown delta (bu, bl) n)"
    using assms(2) by (simp add: has_grown_def r add_int_def node_grown_def not_less)
  show ?thesis
    by (simp add: wait_row_def readable_row [OF assms(1)] r g del: if_split)
qed

lemma wait_rows_nodes:
  assumes "list_all (readable parse dump) ns" "length base = length ns"
    and "delta > 0 \<longrightarrow> list_all (\<lambda>b. is_int32 (fst b + delta) \<and> is_int32 (snd b + delta)) base"
  shows "wait_rows (optional parse) delta (zip (map (status_row dump) ns) base) ws =
     Inr (ws\<lparr>ws_idle := ws_idle ws \<and> list_all (\<lambda>n. \<not> hn_busy (nd_harness n)) ns,
        ws_grown := ws_grown ws \<and> list_all2 (node_grown delta) base ns,
        ws_failed := ws_failed ws \<or> list_ex (\<lambda>n. hn_addError (nd_harness n) \<noteq> []) ns\<rparr>)"
  using assms(2,1,3)
proof (induction base ns arbitrary: ws rule: list_induct2)
  case (Cons b base n ns)
  obtain bu bl where b: "b = (bu, bl)" by (cases b)
  show ?case using Cons wait_row_node [of parse dump n delta bu bl ws] by (auto simp: b)
qed simp

definition node_base :: "Node \<Rightarrow> int \<times> int" where
  "node_base n = (hn_used (nd_harness n), live_clients (nd_harness n))"

definition bases :: "int \<Rightarrow> Node list \<Rightarrow> (int \<times> int) list" where
  "bases delta ns = (if delta > 0 then map node_base ns else replicate (length ns) (0, 0))"

lemma bases_nodes:
  assumes "list_all (readable parse dump) ns"
  shows "wait_bases (optional parse) delta (map (status_row dump) ns) = Inr (bases delta ns)"
proof -
  have "wait_base (optional parse) (status_row dump n) = Inr (node_base n)" if "n \<in> set ns" for n
  proof -
    have r: "readable parse dump n" using assms that by (simp add: list_all_iff)
    then have "status_fits (nd_harness n)" by (simp add: readable_def)
    then show ?thesis by (simp add: wait_base_def readable_row [OF r] status_read node_base_def)
  qed
  then have "emap (wait_base (optional parse) \<circ> status_row dump) ns = Inr (map node_base ns)" by (intro emap_total) simp
  then show ?thesis by (simp add: wait_bases_def bases_def emap_map)
qed

lemma round_nodes:
  assumes "list_all (readable parse dump) ns" "length ns0 = length ns" "list_all (\<lambda>n. growth_fits delta (nd_harness n)) ns0"
  shows "wait_round (optional parse) delta (bases delta ns0) (map (status_row dump) ns) = fleet_outcome delta ns0 ns"
proof -
  have ok: "failIfAny (map (status_row dump) ns) 200 200 = 0" by (simp add: failIfAny_def list_all_iff row_ok_def status_row_def)
  have "delta > 0 \<longrightarrow> list_all (\<lambda>b. is_int32 (fst b + delta) \<and> is_int32 (snd b + delta)) (bases delta ns0)"
    using assms(3) by (simp add: bases_def list_all_iff growth_fits_def node_base_def)
  moreover have "length (bases delta ns0) = length ns" using assms(2) by (simp add: bases_def)
  moreover have "(list_all (\<lambda>n. \<not> hn_busy (nd_harness n)) ns \<and> list_all2 (node_grown delta) (bases delta ns0) ns) \<longleftrightarrow>
     list_all2 (node_settled delta) ns0 ns"
    using assms(2)
    by (cases "delta > 0") (auto simp: list_all2_conv_all_nth list_all_length node_settled_def node_grown_def bases_def node_base_def)
  ultimately show ?thesis using wait_rows_nodes [OF assms(1), of "bases delta ns0" delta]
    by (simp add: wait_round_def ok fleet_outcome_def)
qed

section \<open>Waiting for a fleet\<close>

text \<open>
  C7. \<^verbatim>\<open>wait\<close> tells the truth about the fleet. Over generators whose control ports the driver
  reaches and is admitted to at every poll, in whatever states they are then, the command ends
  at the first poll that finds an add error (code 1), or every generator idle and, if growth was
  asked for, with at least so many more used and so many more live clients than it had at the
  first poll (code 0); with code 3 at the first poll that is past the deadline without either;
  and never by an exception, since the driver reads every document a generator writes. The
  hypotheses are the network, the JSON library reading back what it prints (numbers without a
  sign as unsigned), and that what the driver adds up, live clients and the figures it waits for,
  stays in \<^verbatim>\<open>int\<close>.
\<close>

theorem fleet_wait_exact:
  assumes "\<forall>i. list_all (\<lambda>n. polled parse what dump token (perform i) n \<and> admits token n \<and> readable parse dump n) (nodes i)"
    and "list_all (\<lambda>n. growth_fits delta (nd_harness n)) (nodes 0)"
    and "\<forall>i. map nd_url (nodes i) = hosts" "1 \<le> k" "wait_late clock timeout k"
  shows "\<exists>m r. 1 \<le> m \<and> m \<le> k \<and> wait_command perform (optional parse) clock hosts token timeout delta = Some r \<and>
     (\<forall>i. 1 \<le> i \<and> i < m \<longrightarrow> fleet_outcome delta (nodes 0) (nodes i) = NotYet \<and> \<not> wait_late clock timeout i) \<and>
     (if fleet_outcome delta (nodes 0) (nodes m) = NotYet then wait_late clock timeout m \<and> r = Settled 3
      else r = fleet_outcome delta (nodes 0) (nodes m))"
proof -
  have readable: "list_all (readable parse dump) (nodes i)" for i using assms(1) by (auto simp: list_all_iff)
  have status: "wait_status perform hosts token i = map (status_row dump) (nodes i)" for i
  proof -
    have "http (perform i) ''GET'' (joinUrl (nd_url n) ''/v1/status'') token [] = fi_res (status_row dump n)" if n: "n \<in> set (nodes i)" for n
    proof -
      obtain body where "dump (statusJson (nd_config n) (nd_harness n)) = Some body"
        using readable [of i] n unfolding list_all_iff readable_def reads_back_def by blast
      then show ?thesis using assms(1) n polled_http [of parse what dump token "perform i" n body]
        by (auto simp: status_row_def list_all_iff)
    qed
    moreover have "hosts = map nd_url (nodes i)" using assms(3) by simp
    ultimately show ?thesis by (auto simp: wait_status_def fan_def status_row_def)
  qed
  have len: "length (nodes i) = length hosts" for i using assms(3) by (metis length_map)
  have rounds: "wait_round (optional parse) delta (bases delta (nodes 0)) (wait_status perform hosts token i) =
      fleet_outcome delta (nodes 0) (nodes i)" for i
    unfolding status by (rule round_nodes [OF readable _ assms(2)]) (simp add: len)
  have "failIfAny (wait_status perform hosts token 0) 200 200 = 0"
    by (simp add: status failIfAny_def list_all_iff row_ok_def status_row_def)
  then have "wait_command perform (optional parse) clock hosts token timeout delta =
      wait_loop (\<lambda>i. fleet_outcome delta (nodes 0) (nodes i)) (wait_late clock timeout) 1"
    by (simp add: wait_command_def Let_def rounds) (simp add: status bases_nodes [OF readable] rounds [unfolded status])
  moreover obtain m where "1 \<le> m" "m \<le> k"
    "\<forall>i. 1 \<le> i \<and> i < m \<longrightarrow> fleet_outcome delta (nodes 0) (nodes i) = NotYet \<and> \<not> wait_late clock timeout i"
    "if fleet_outcome delta (nodes 0) (nodes m) = NotYet
     then wait_late clock timeout m \<and> wait_loop (\<lambda>i. fleet_outcome delta (nodes 0) (nodes i)) (wait_late clock timeout) 1 = Some (Settled 3)
     else wait_loop (\<lambda>i. fleet_outcome delta (nodes 0) (nodes i)) (wait_late clock timeout) 1 = Some (fleet_outcome delta (nodes 0) (nodes m))"
    using wait_loop_exact [of "wait_late clock timeout" k 1 "\<lambda>i. fleet_outcome delta (nodes 0) (nodes i)"] assms(4,5) by blast
  ultimately show ?thesis
    by (intro exI [of _ m] exI [of _ "if fleet_outcome delta (nodes 0) (nodes m) = NotYet then Settled 3 else fleet_outcome delta (nodes 0) (nodes m)"])
       (simp split: if_splits)
qed

text \<open>One host, busy at the first two polls and idle from the third on.\<close>

definition growing_node :: "nat \<Rightarrow> Node" where
  "growing_node i = lone_node\<lparr>nd_harness := (if i < 2 then new_harness\<lparr>hn_busy := True\<rparr> else new_harness)\<rparr>"

definition busy_text :: "json \<Rightarrow> string option" where
  "busy_text j = (case jlookup j ''busy'' of Some (JBool b) \<Rightarrow> Some (if b then ''1'' else ''2'') | _ \<Rightarrow> None)"

definition busy_parse :: json_parser where
  "busy_parse text = (if text = ''1'' then Inr (canon (statusJson roster_config (new_harness\<lparr>hn_busy := True\<rparr>)))
     else if text = ''2'' then Inr (canon (statusJson roster_config new_harness)) else Inl ''parse error'')"

definition growing_perform :: "nat \<Rightarrow> curl" where
  "growing_perform i xr = delivered (node_serve busy_parse (\<lambda>_. []) busy_text [] ''GET'' (drop 8 (xr_url xr)) [] (growing_node i))"

theorem fleet_wait_exact_witness:
  "wait_command growing_perform (optional busy_parse) (\<lambda>i. int i * 1000000000) [''http://a''] [] 5 0 = Some (Settled 0)"
proof -
  let ?c = "\<lambda>i. int i * 1000000000"
  have late: "wait_late ?c 5 i \<longleftrightarrow> 5 \<le> i" for i by (auto simp: wait_late_def)
  have polled: "polled busy_parse (\<lambda>_. []) busy_text [] (growing_perform i) (growing_node i)" for i
    by (simp add: polled_def growing_perform_def curl_request_def joinUrl_def growing_node_def lone_node_def)
  have admits: "admits [] (growing_node i)" for i
    by (simp add: admits_def growing_node_def lone_node_def roster_config_def sample_config_def Config_init_def)
  have busy: "jlookup (statusJson roster_config h) ''busy'' = Some (JBool (hn_busy h))" for h by (simp add: statusJson_def Let_def)
  have prints: "busy_text (statusJson roster_config h) = Some (if hn_busy h then ''1'' else ''2'')" for h by (simp add: busy_text_def busy)
  have "reads_back busy_parse busy_text (statusJson roster_config (nd_harness (growing_node i)))" for i
    unfolding reads_back_def prints by (simp add: growing_node_def busy_parse_def) (simp add: new_harness_def)
  then have readable: "readable busy_parse busy_text (growing_node i)" for i
    by (simp add: readable_def status_fits_def live_clients_def growing_node_def lone_node_def new_harness_def Stats_init_def is_int32_def)
  have outcome: "fleet_outcome 0 [growing_node 0] [growing_node i] = (if i < 2 then NotYet else Settled 0)" for i
    by (simp add: fleet_outcome_def node_settled_def growing_node_def new_harness_def)
  have "\<forall>i. list_all (\<lambda>n. polled busy_parse (\<lambda>_. []) busy_text [] (growing_perform i) n \<and> admits [] n \<and>
      readable busy_parse busy_text n) [growing_node i]" by (simp add: polled admits readable)
  moreover have "\<forall>i. map nd_url [growing_node i] = [''http://a'']" by (simp add: growing_node_def lone_node_def)
  ultimately obtain m r where "1 \<le> m" "wait_command growing_perform (optional busy_parse) ?c [''http://a''] [] 5 0 = Some r"
    "if fleet_outcome 0 [growing_node 0] [growing_node m] = NotYet then wait_late ?c 5 m \<and> r = Settled 3
     else r = fleet_outcome 0 [growing_node 0] [growing_node m]"
    using fleet_wait_exact [of busy_parse "\<lambda>_. []" busy_text "[]" growing_perform "\<lambda>i. [growing_node i]" 0 "[''http://a'']" 5 ?c 5] late
    by (fastforce simp: growth_fits_def)
  then show ?thesis by (auto simp: outcome late split: if_splits)
qed

end
