(* ===== verification/Process.thy ===== *)
theory Process
  imports ControlServer Generator
begin

text \<open>
  The generator's process from \<^verbatim>\<open>main\<close> to its exit code (\<^verbatim>\<open>src/main.cpp\<close>), around the running
  harness: loading, starting, the watching loop whose readings are those of the states the other
  threads pass through, and the order in which the run is taken down. Log output, signal
  handlers and the HTTP library's own start and stop are not modelled; a signal is a step of the
  harness relation, which sets the flag.
\<close>

section \<open>Watching\<close>

text \<open>
  One turn of the loop reads the flags, then each counter, while the other threads go on.
\<close>

inductive watched ::
  "hmac_fn \<Rightarrow> (double \<Rightarrow> double \<Rightarrow> double) \<Rightarrow> Config \<Rightarrow> Harness \<Rightarrow> Observation list \<Rightarrow> Harness \<Rightarrow> bool"
  for hm at2 cfg where
  start: "watched hm at2 cfg h [] h"
| look: "watched hm at2 cfg h obs g1 \<Longrightarrow> (harness_step hm at2 cfg)\<^sup>*\<^sup>* g1 ga \<Longrightarrow> (harness_step hm at2 cfg)\<^sup>*\<^sup>* ga gb \<Longrightarrow>
     (harness_step hm at2 cfg)\<^sup>*\<^sup>* gb gc \<Longrightarrow> (harness_step hm at2 cfg)\<^sup>*\<^sup>* gc gd \<Longrightarrow> (harness_step hm at2 cfg)\<^sup>*\<^sup>* gd ge \<Longrightarrow>
     watched hm at2 cfg h (obs @ [\<lparr>ob_stop = (hn_externalStop ga \<or> hn_shutdown ga), ob_now = now,
       ob_active = st_activeClients (hn_stats gb), ob_suspended = st_suspendedClients (hn_stats gc),
       ob_txPackets = st_txPackets (hn_stats gd), ob_rxDatagrams = st_rxDatagrams (hn_stats ge)\<rparr>]) ge"

section \<open>The process\<close>

text \<open>\<open>Aborted\<close>: an exception nobody catches. A run that got going keeps its last state.\<close>

datatype Process_end = Aborted | Exited int "Harness option"

definition load_end :: "config_error \<Rightarrow> Process_end" where
  "load_end e =
     (case e of
        CannotOpenFile \<Rightarrow> Exited 2 None
      | CommandLineError \<Rightarrow> Exited 2 None
      | Invalid _ \<Rightarrow> Exited 2 None
      | HelpShown \<Rightarrow> Exited 0 None
      | InvalidArgument \<Rightarrow> Aborted
      | OutOfRange \<Rightarrow> Aborted)"

inductive main_run ::
  "hmac_fn \<Rightarrow> (double \<Rightarrow> double \<Rightarrow> double) \<Rightarrow> (string \<Rightarrow> config_error + double) \<Rightarrow> (string \<rightharpoonup> string) \<Rightarrow> string option \<Rightarrow>
     Cli option \<Rightarrow> Process_end \<Rightarrow> bool"
  for hm at2 sd env hostname parsed where
  refused: "load sd env hostname parsed = Inl e \<Longrightarrow> main_run hm at2 sd env hostname parsed (load_end e)"
| unstarted: "load sd env hostname parsed = Inr cfg \<Longrightarrow> harness_start cfg new_harness False h \<Longrightarrow>
     main_exit cfg False (hn_externalStop h) testStart [] = Some code \<Longrightarrow>
     main_run hm at2 sd env hostname parsed (Exited code None)"
| ran: "load sd env hostname parsed = Inr cfg \<Longrightarrow> harness_start cfg new_harness True g0 \<Longrightarrow>
     watched hm at2 cfg g0 obs g1 \<Longrightarrow> main_loop cfg testStart (butlast obs) Watch_init = None \<Longrightarrow>
     main_exit cfg True False testStart obs = Some code \<Longrightarrow>
     (harness_step hm at2 cfg)\<^sup>*\<^sup>* g1 g2 \<Longrightarrow> observeEndOfRun cfg writable g2 = Some g3 \<Longrightarrow>
     (harness_step hm at2 cfg)\<^sup>*\<^sup>* g3 g4 \<Longrightarrow> (harness_step hm at2 cfg)\<^sup>*\<^sup>* (stop_begin g4) g5 \<Longrightarrow>
     queue_pop (hn_controlQueue g5) = ShutDown \<Longrightarrow> hn_control g5 = None \<Longrightarrow> hn_adding g5 = NoAdd \<Longrightarrow>
     stop_finish cfg writable g5 = Some (lines, g6) \<Longrightarrow> main_run hm at2 sd env hostname parsed (Exited code (Some g6))"

section \<open>Facts\<close>

lemma watched_reaches: "watched hm at2 cfg h obs h' \<Longrightarrow> (harness_step hm at2 cfg)\<^sup>*\<^sup>* h h'"
  by (induction rule: watched.induct) (auto dest: rtranclp_trans)

text \<open>The flags along a run: threads run only in a started harness, and a shutdown is not taken back.\<close>

definition flags_ok :: "Harness \<Rightarrow> Harness \<Rightarrow> bool" where
  "flags_ok h h' \<longleftrightarrow> (hn_running h = hn_started h \<longrightarrow> hn_running h' = hn_started h') \<and>
     (\<not> hn_started h \<longrightarrow> \<not> hn_started h') \<and> (hn_shutdown h \<longrightarrow> hn_shutdown h') \<and> (hn_endObserved h \<longrightarrow> hn_endObserved h')"

lemma flags_same:
  "hn_running h' = hn_running h \<Longrightarrow> hn_started h' = hn_started h \<Longrightarrow> hn_shutdown h' = hn_shutdown h \<Longrightarrow>
     hn_endObserved h' = hn_endObserved h \<Longrightarrow> flags_ok h h'"
  by (simp add: flags_ok_def)

lemma sync_flags [simp]:
  "hn_started (syncSignIn h) = hn_started h" "hn_shutdown (syncSignIn h) = hn_shutdown h"
  "hn_endObserved (syncSignIn h) = hn_endObserved h"
  by (simp_all add: syncSignIn_def on_hstats_def split: option.split)

lemma put_flags [simp]:
  "hn_started (put_worker i w h) = hn_started h" "hn_shutdown (put_worker i w h) = hn_shutdown h"
  "hn_endObserved (put_worker i w h) = hn_endObserved h"
  by (simp_all add: put_worker_def)

lemma observe_flags:
  assumes "observeEndOfRun cfg writable h = Some h'"
  shows "flags_ok h h'" "hn_provisioner h \<noteq> None \<Longrightarrow> hn_endObserved h'"
  using assms
  by (auto simp: observeEndOfRun_def flags_ok_def recordReplayLoggingAtEnd_def writeRungFile_def Let_def split: option.splits if_splits)

lemma observe_stopped:
  "observeEndOfRun cfg writable h = Some h' \<Longrightarrow> hn_running h' = hn_running h \<and> hn_control h' = hn_control h \<and>
     hn_controlQueue h' = hn_controlQueue h \<and> hn_adding h' = hn_adding h \<and> hn_started h' = hn_started h"
  by (auto simp: observeEndOfRun_def recordReplayLoggingAtEnd_def writeRungFile_def Let_def split: option.splits if_splits)

lemma step_flags:
  assumes "harness_step hm at2 cfg h h'"
  shows "flags_ok h h'"
  using assms
proof (cases rule: harness_step.cases)
  case (answer req p down w)
  then show ?thesis
    by (intro flags_same) (auto simp: control_post_def Let_def split: option.splits)
next
  case (finish_stop wr lines)
  then show ?thesis
    by (auto simp: stop_finish_def Let_def split: option.splits prod.splits dest: observe_flags)
next
  case (observe_end wr)
  then show ?thesis by (simp add: observe_flags(1))
qed (auto simp: flags_ok_def control_take_def requestAdd_def add_begin_def add_failed_def put_range_def add_joined_def add_one_def
    add_done_def distribute_one_def openRung_def closeRung_def writeRungFile_def on_hstats_def requestShutdown_def stop_begin_def Let_def
    split: pop_result.splits if_splits sum.splits)

lemma run_flags: "(harness_step hm at2 cfg)\<^sup>*\<^sup>* h h' \<Longrightarrow> flags_ok h h'"
  by (induction rule: rtranclp_induct) (auto simp: flags_ok_def dest!: step_flags)

lemma start_flags: "harness_start cfg new_harness True h \<Longrightarrow> hn_running h \<and> hn_started h"
  by (erule harness_start.cases) (simp_all add: start_finish_def)

lemma loop_after:
  "main_loop cfg t xs w = None \<Longrightarrow> main_loop cfg t (xs @ ys) w = main_loop cfg t ys (fold watch_arm xs w)"
  by (induction xs arbitrary: w) (auto simp: Let_def split: if_splits)

lemma shutdown_seen: "watched hm at2 cfg h obs h' \<Longrightarrow> hn_shutdown h \<Longrightarrow> list_all ob_stop obs"
proof (induction rule: watched.induct)
  case (look h obs g1 ga gb gc gd ge now)
  have "(harness_step hm at2 cfg)\<^sup>*\<^sup>* h ga" using watched_reaches [OF look.hyps(1)] look.hyps(2) by simp
  then have "hn_shutdown ga" using run_flags look.prems by (auto simp: flags_ok_def)
  then show ?case using look.IH look.prems by simp
qed simp

text \<open>A complete run goes through reachable states only, and its last one has come to rest.\<close>

lemma run_ends:
  assumes "harness_start cfg new_harness True g0" "validate cfg = Inr []" "(harness_step hm at2 cfg)\<^sup>*\<^sup>* g0 g2"
    and "observeEndOfRun cfg writable g2 = Some g3" "(harness_step hm at2 cfg)\<^sup>*\<^sup>* g3 g4" "(harness_step hm at2 cfg)\<^sup>*\<^sup>* (stop_begin g4) g5"
    and "queue_pop (hn_controlQueue g5) = ShutDown" "hn_control g5 = None" "hn_adding g5 = NoAdd"
    and "stop_finish cfg writable g5 = Some (lines, g6)"
  shows "(harness_step hm at2 cfg)\<^sup>*\<^sup>* g0 g6 \<and> \<not> hn_running g6 \<and> \<not> hn_started g6 \<and> hn_endObserved g6 \<and>
     hn_control g6 = None \<and> hn_adding g6 = NoAdd \<and> hn_controlQueue g6 = hn_controlQueue g5"
proof -
  have "harness_step hm at2 cfg g2 g3" by (rule harness_step.observe_end [OF assms(4)])
  with assms(3,5) have r4: "(harness_step hm at2 cfg)\<^sup>*\<^sup>* g0 g4" by (meson rtranclp.rtrancl_into_rtrancl rtranclp_trans)
  moreover have "harness_step hm at2 cfg g4 (stop_begin g4)" by (rule harness_step.begin_stop)
  ultimately have r5: "(harness_step hm at2 cfg)\<^sup>*\<^sup>* g0 g5" using assms(6) by (meson rtranclp.rtrancl_into_rtrancl rtranclp_trans)
  have "hn_running g4 = hn_started g4" using run_flags [OF r4] start_flags [OF assms(1)] by (simp add: flags_ok_def)
  then have "\<not> hn_started (stop_begin g4) \<and> hn_running (stop_begin g4) = hn_started (stop_begin g4)" by (simp add: stop_begin_def)
  with run_flags [OF assms(6)] have off: "\<not> hn_running g5" "\<not> hn_started g5" by (auto simp: flags_ok_def)
  have r6: "harness_step hm at2 cfg g5 g6" by (rule harness_step.finish_stop [OF off(1) assms(7-10)])
  have o: "observeEndOfRun cfg writable g5 = Some g6" using assms(10) by (auto simp: stop_finish_def Let_def split: option.splits prod.splits)
  have "harness_ok cfg g5" by (rule run_ok [OF assms(2,1) r5])
  then have "hn_endObserved g6" using observe_flags(2) [OF o] by (auto simp: harness_ok_def books_ok_def)
  moreover have "\<not> hn_started g6" using off step_flags [OF r6] by (simp add: flags_ok_def)
  ultimately show ?thesis using r5 r6 off observe_stopped [OF o] assms(8,9) by auto
qed

section \<open>Properties\<close>

text \<open>
  C5. A run that gets going and ends, ends in order, whatever its threads, the services and the
  callers of its control port did: its configuration was accepted, its exit code is 0 or 3, no
  thread is left, no request is unanswered, no add is half done, the end of the run has been
  observed, the workers hold exactly the clients counted as used, and the gauges in the final
  summary are exact.
\<close>

theorem process_ends_clean:
  assumes "main_run hm at2 sd env hostname parsed (Exited code (Some h))"
  shows "\<exists>cfg. load sd env hostname parsed = Inr cfg \<and> validate cfg = Inr [] \<and> (code = 0 \<or> code = 3) \<and>
     \<not> hn_running h \<and> \<not> hn_started h \<and> hn_endObserved h \<and>
     cq_queue (hn_controlQueue h) = [] \<and> hn_control h = None \<and> hn_adding h = NoAdd \<and> \<not> hn_busy h \<and>
     population h = mset_set {cf_indexBase cfg..<cf_indexBase cfg + hn_used h} \<and>
     st_activeClients (hn_stats h) = headcount ACTIVE h \<and> st_suspendedClients (hn_stats h) = headcount SUSPENDED h"
  using assms
proof (cases rule: main_run.cases)
  case (refused e)
  then show ?thesis by (auto simp: load_end_def split: config_error.splits)
next
  case (ran cfg g0 obs g1 testStart g2 writable g3 g4 g5 lines)
  have v: "validate cfg = Inr []" using ran(1) by (auto elim!: load_InrD)
  have "(harness_step hm at2 cfg)\<^sup>*\<^sup>* g0 g2" using watched_reaches [OF ran(3)] ran(6) by simp
  note e = run_ends [OF ran(2) v this ran(7-13)]
  have "harness_ok cfg h" using e run_ok [OF v ran(2)] by blast
  moreover have "cq_queue (hn_controlQueue g5) = []" using ran(10) by (simp add: queue_pop_def split: list.splits if_splits)
  moreover have "code = 0 \<or> code = 3" using ran(5) by (auto simp: main_exit_def split: option.splits if_splits)
  ultimately show ?thesis using ran(1) v e
    by (auto simp: harness_ok_def crew_ok_def books_ok_def queued_def add_ok_def)
qed

text \<open>
  C27. A shutdown request ends the run at the next look. The loop reads the flags at the head of a
  turn, before it sleeps; so when the control port has answered an authorized
  \<^verbatim>\<open>POST /v1/shutdown\<close>, one turn may still be under way whose flags were read before. That turn ends
  the run itself, by its own readings, just when the duration is reached (code 0) or the
  receive-health check fails (code 3). Otherwise, whatever happens meanwhile, the next turn ends it
  before it reads a counter, and the process exits with code 0.
\<close>

theorem shutdown_ends_run:
  assumes "serve parse what dump cfg token rd req h = Some (a, h')" "routed req" "bearerOk req token" "hq_path req = ''/v1/shutdown''"
    and "(harness_step hm at2 cfg)\<^sup>*\<^sup>* h' g" "watched hm at2 cfg g obs g'" "obs \<noteq> []"
    and "main_loop cfg testStart before Watch_init = None"
    and "under_way = [] \<or> (\<exists>ob. under_way = [ob] \<and> \<not> ob_stop ob)" "w = fold watch_arm (before @ under_way) Watch_init"
    and "ending = (if under_way = [] then Stopped else if duration_reached cfg testStart (hd under_way) then DurationReached
           else if rx_failed cfg (hd under_way) w then RxHealthFailed else Stopped)"
  shows "a = jsonRes dump 200 (JObj [(''ok'', JBool True)]) \<and>
     main_loop cfg testStart (before @ under_way @ [hd obs]) Watch_init = Some ending \<and>
     main_exit cfg True stopped testStart (before @ under_way @ [hd obs]) = Some (if ending = RxHealthFailed then 3 else 0)"
proof -
  have s: "a = jsonRes dump 200 (JObj [(''ok'', JBool True)])" "h' = requestShutdown h"
    using assms(1-4) by (auto simp: serve_def dispatch_def split: if_splits)
  have "hn_shutdown g" using run_flags [OF assms(5)] s(2) by (simp add: flags_ok_def requestShutdown_def)
  then have "ob_stop (hd obs)" using shutdown_seen [OF assms(6)] assms(7) by (cases obs) simp_all
  then have "main_loop cfg testStart (under_way @ [hd obs]) (fold watch_arm before Watch_init) = Some ending"
    using assms(9) by (auto simp: assms(10,11) Let_def)
  then have "main_loop cfg testStart (before @ under_way @ [hd obs]) Watch_init = Some ending"
    by (simp add: loop_after [OF assms(8)])
  then show ?thesis using s(1) by (simp add: main_exit_def)
qed

theorem shutdown_ends_run_witness:
  "\<exists>a obs ob. serve (\<lambda>_. Inl []) (\<lambda>_. []) (\<lambda>_. Some ''{}'') roster_config [] \<lparr>rd_sysNs = 0, rd_steadyNs = 0, rd_writable = True, rd_used = 0\<rparr>
     \<lparr>hq_method = POST, hq_path = ''/v1/shutdown'', hq_authorization = [], hq_body = []\<rparr> new_harness = Some (a, requestShutdown new_harness) \<and>
     \<not> ob_stop ob \<and> length obs = 1 \<and> main_exit roster_config True False 0 ([ob] @ obs) = Some 0"
proof -
  let ?req = "\<lparr>hq_method = POST, hq_path = ''/v1/shutdown'', hq_authorization = [], hq_body = []\<rparr>"
  let ?rd = "\<lparr>rd_sysNs = 0, rd_steadyNs = 0, rd_writable = True, rd_used = 0\<rparr>" and ?h = "requestShutdown new_harness"
  let ?ob = "\<lparr>ob_stop = False, ob_now = 0, ob_active = 0, ob_suspended = 0, ob_txPackets = 0, ob_rxDatagrams = 0\<rparr>"
  have s: "serve (\<lambda>_. Inl []) (\<lambda>_. []) (\<lambda>_. Some ''{}'') roster_config [] ?rd ?req new_harness = Some (Answered 200 ''{}'', ?h)"
    by (simp add: serve_def routed_def bearerOk_def dispatch_def jsonRes_def)
  obtain ob where "watched (\<lambda>k m. None) (\<lambda>x y. 0) roster_config ?h ([] @ [ob]) ?h"
    using watched.look [OF watched.start rtranclp.rtrancl_refl rtranclp.rtrancl_refl rtranclp.rtrancl_refl rtranclp.rtrancl_refl rtranclp.rtrancl_refl]
    by blast
  then have w: "watched (\<lambda>k m. None) (\<lambda>x y. 0) roster_config ?h [ob] ?h" by simp
  have "\<not> rx_failed roster_config ?ob (watch_arm ?ob Watch_init)" "\<not> duration_reached roster_config 0 ?ob"
    by (simp_all add: rx_failed_def duration_reached_def seconds_ns_def)
  then have "main_exit roster_config True False 0 [?ob, ob] = Some 0"
    using shutdown_ends_run [OF s _ _ _ rtranclp.rtrancl_refl w, of 0 "[]" "[?ob]" _ _ False] by (simp add: routed_def bearerOk_def)
  with s show ?thesis by (intro exI [of _ "Answered 200 ''{}''"] exI [of _ "[ob]"] exI [of _ ?ob]) simp
qed

section \<open>A run to look at\<close>

text \<open>A generator without clients, whose services never answer, ended by a signal.\<close>

definition idle_cli :: Cli where
  "idle_cli = sample_cli\<lparr>cl_int := [''clients'' \<mapsto> 0, ''index-limit'' \<mapsto> 25]\<rparr>"

definition idle_config :: Config where
  "idle_config = sample_config\<lparr>cf_clients := 0\<rparr>"

lemma idle_valid: "validate idle_config = Inr []"
  using sample_valid sample_bind
  by (auto simp: validate_empty validate_ranges_empty validate_bind_empty idle_config_def sample_config_def needsPassword_def
      ControlBind_init_def Config_init_def)

lemma idle_load: "load sd sample_env None (Some idle_cli) = Inr idle_config"
proof -
  have "cl_config idle_cli = Some (Some ''LT_EMAIL=other@example.com'')" "\<not> cl_help idle_cli"
    by (simp_all add: idle_cli_def sample_cli_def)
  moreover have "load_defaults None (fold (\<lambda>step c. step c) (cli_steps idle_cli) sample_layered) = idle_config"
    by (simp add: cli_steps_def cli_defs idle_cli_def sample_cli_def)
       (simp add: load_defaults_def sample_layered_def Config_init_def sample_config_def idle_config_def defaultInstanceId_def)
  ultimately show ?thesis by (simp add: load_def sample_kv sample_layers idle_valid)
qed

text \<open>Talking to services that never answer: nothing is learnt, and they still do not answer.\<close>

definition same_http :: "Provisioner \<Rightarrow> Provisioner \<Rightarrow> bool" where
  "same_http p q \<longleftrightarrow> wo_http (pv_world q) = wo_http (pv_world p)"

interpretation http: frame_relation same_http
  by standard (simp_all add: same_http_def)

lemma http_retry: "framed same_http (requestWithRetry url q v b no_stop hs)"
proof -
  have "framed same_http (send url q v b hs)" by (auto simp: framed_def send_alt same_http_def)
  then show ?thesis unfolding requestWithRetry_def by (rule http.framed_retry)
qed

lemma observe_down:
  assumes "services_down p"
  shows "\<exists>q. observeReplayLogging cfg p = Some (''unknown'', q) \<and> services_down q"
proof -
  let ?l = "requestWithRetry (cf_managementApiUrl cfg) LOGIN_MUTATION
     (creds_input (cf_email cfg) (cf_password cfg)) [] no_stop []"
  obtain r q where l: "?l p = (r, q)" by fastforce
  from retry_answer(1) [OF l] have r: "r = Inl (GraphQLError CurlFailed [] True)"
    using assms by (simp add: services_down_def interpret_answer_def)
  have "same_http p q" by (rule framedD [OF http_retry l])
  then have "services_down q" using assms by (simp add: services_down_def same_http_def)
  moreover have "readReplayLogging cfg p = (Inr None, q)"
    using l r by (simp add: readReplayLogging_def login_def io_bind_def)
  ultimately show ?thesis by (simp add: observeReplayLogging_def replayLoggingLabel_def)
qed

lemma idle_start:
  "\<exists>g p. harness_start idle_config new_harness True g \<and> hn_provisioner g = Some p \<and> services_down p \<and> hn_adding g = NoAdd \<and>
     hn_control g = None \<and> cq_queue (hn_controlQueue g) = [] \<and> hn_started g"
proof -
  have cfg: "cf_rosterFile idle_config = []" "cf_replayLogging idle_config = ''leave''" "cf_clients idle_config = 0"
    by (simp_all add: idle_config_def sample_config_def Config_init_def)
  have "services_down (Provisioner_init (sample_world []))"
    by (simp add: services_down_def Provisioner_init_def sample_world_def)
  from observe_down [OF this, of idle_config] obtain q where
    q: "observeReplayLogging idle_config (Provisioner_init (sample_world [])) = Some (''unknown'', q)" "services_down q" by blast
  have "\<exists>h. start_setup idle_config Unreadable (sample_world []) False new_harness = Some (True, h) \<and> hn_provisioner h = Some q \<and>
      hn_adding h = NoAdd \<and> hn_control h = None \<and> cq_queue (hn_controlQueue h) = []"
    using q(1) cfg by (simp add: start_setup_def Let_def new_provisioner_def start_replay_def new_harness_def)
  then obtain h where h: "start_setup idle_config Unreadable (sample_world []) False new_harness = Some (True, h)" "hn_provisioner h = Some q"
      "hn_adding h = NoAdd" "hn_control h = None" "cq_queue (hn_controlQueue h) = []" by blast
  let ?g = "start_finish 0 0 (start_mark h)"
  have "harness_start idle_config new_harness True ?g" by (rule harness_start.no_clients [OF h(1)]) (simp add: cfg)
  moreover have "hn_provisioner ?g = Some (markRunStarted q) \<and> hn_adding ?g = NoAdd \<and> hn_control ?g = None \<and>
      cq_queue (hn_controlQueue ?g) = [] \<and> hn_started ?g"
    using h(2-5) by (simp add: start_finish_def start_mark_def on_hstats_def syncSignIn_def)
  moreover have "services_down (markRunStarted q)" using q(2) by (simp add: services_down_def markRunStarted_def)
  ultimately show ?thesis by blast
qed

theorem process_ends_clean_witness:
  "\<exists>(h :: Harness) sd hm at2. main_run hm at2 sd sample_env None (Some idle_cli) (Exited 0 (Some h)) \<and> 
     population h = mset_set {cf_indexBase idle_config..<cf_indexBase idle_config + hn_used h} \<and> \<not> hn_running h"
proof -
  let ?sd = "(\<lambda>_. Inl InvalidArgument) :: string \<Rightarrow> config_error + double" and ?hm = "(\<lambda>k m. None) :: hmac_fn" and ?at2 = "\<lambda>x y :: double. 0 :: double"
  let ?step = "harness_step ?hm ?at2 idle_config"
  obtain g p where g: "harness_start idle_config new_harness True g" "hn_provisioner g = Some p" "services_down p" "hn_adding g = NoAdd"
      "hn_control g = None" "cq_queue (hn_controlQueue g) = []" "hn_started g"
    using idle_start by blast
  let ?g2 = "g\<lparr>hn_externalStop := True\<rparr>"
  have "?step g ?g2" by (rule harness_step.signal)
  then have sig: "?step\<^sup>*\<^sup>* g ?g2" by (rule r_into_rtranclp)
  obtain ob where "watched ?hm ?at2 idle_config g ([] @ [ob]) ?g2" and ob: "ob_stop ob"
    using watched.look [OF watched.start sig rtranclp.rtrancl_refl rtranclp.rtrancl_refl rtranclp.rtrancl_refl rtranclp.rtrancl_refl]
    by fastforce
  then have w: "watched ?hm ?at2 idle_config g [ob] ?g2" by simp
  obtain q where q: "observeReplayLogging idle_config p = Some (''unknown'', q)" using observe_down [OF g(3)] by blast
  have "observeEndOfRun idle_config True ?g2 \<noteq> None" using q g(2) by (simp add: observeEndOfRun_def)
  then obtain g3 where g3: "observeEndOfRun idle_config True ?g2 = Some g3" by blast
  have n3: "hn_endObserved g3" using observe_flags(2) [OF g3] g(2) by simp
  have s3: "hn_control g3 = None \<and> hn_adding g3 = NoAdd \<and> hn_controlQueue g3 = hn_controlQueue g \<and> hn_started g3"
    using observe_stopped [OF g3] g(4,5,7) by simp
  let ?g5 = "stop_begin g3"
  have s5: "queue_pop (hn_controlQueue ?g5) = ShutDown" "hn_control ?g5 = None" "hn_adding ?g5 = NoAdd" "hn_endObserved ?g5"
    using s3 n3 g(6) by (simp_all add: stop_begin_def queue_pop_def queue_shutdown_def)
  have "observeEndOfRun idle_config True ?g5 = Some ?g5" using s5(4) by (simp add: observeEndOfRun_def split: option.split)
  then obtain lines where fin: "stop_finish idle_config True ?g5 = Some (lines, ?g5)"
    by (simp add: stop_finish_def split_def Let_def)
  have "main_run ?hm ?at2 ?sd sample_env None (Some idle_cli) (Exited 0 (Some ?g5))"
    by (rule main_run.ran [OF idle_load g(1) w _ _ rtranclp.rtrancl_refl g3 rtranclp.rtrancl_refl rtranclp.rtrancl_refl s5(1-3) fin])
       (use ob in \<open>simp_all add: main_exit_def\<close>)
  moreover from process_ends_clean [OF this] obtain cfg where "load ?sd sample_env None (Some idle_cli) = Inr cfg" "\<not> hn_running ?g5"
      "population ?g5 = mset_set {cf_indexBase cfg..<cf_indexBase cfg + hn_used ?g5}"
    by blast
  ultimately show ?thesis using idle_load by (metis sum.inject(2))
qed

end
