(* ===== verification/Settings.thy ===== *)
theory Settings
  imports Config
begin

text \<open>
  What every setting of a loaded configuration is (\<^verbatim>\<open>Config::load\<close> in \<^verbatim>\<open>src/Config.cpp\<close>), by
  tables that give for each setting its option on the command line, its name in the environment
  and in the file, its default, and its field. The tables follow the README, not the order of
  the assignments in the code.
\<close>

section \<open>The settings\<close>

text \<open>\<open>app-id\<close> apart, which is the one 64-bit number; and apart from the three settings whose value is adjusted at the end.\<close>

definition text_settings :: "(string option \<times> string \<times> string \<times> (Config \<Rightarrow> string)) list" where
  "text_settings =
     [(Some ''email'', ''LT_EMAIL'', [], cf_email),
      (Some ''password'', ''LT_PASSWORD'', [], cf_password),
      (None, ''LT_PROVISIONING_TOKEN'', [], cf_provisioningToken),
      (Some ''management-api-url'', ''LT_MANAGEMENT_API_URL'', [], cf_managementApiUrl),
      (Some ''game-api-url'', ''LT_GAME_API_URL'', [], cf_gameApiUrl),
      (Some ''pose-format'', ''LT_POSE_FORMAT'', ''ue5'', cf_poseFormat),
      (Some ''replay-logging'', ''LT_REPLAY_LOGGING'', ''leave'', cf_replayLogging),
      (Some ''control-bind'', ''LT_CONTROL_BIND'', ''127.0.0.1:9109'', cf_controlBind),
      (Some ''control-token'', ''LT_CONTROL_TOKEN'', [], cf_controlToken),
      (Some ''stats-dir'', ''LT_STATS_DIR'', [], cf_statsDir),
      (Some ''csv-out'', ''LT_CSV_OUT'', [], cf_csvOut),
      (Some ''email-pattern'', ''LT_EMAIL_PATTERN'', ''{local}+lt-{index}@'' @ ''{domain}'', cf_emailPattern),
      (Some ''roster'', ''LT_ROSTER_FILE'', [], cf_rosterFile)]"

definition int_settings :: "(string option \<times> string \<times> int \<times> (Config \<Rightarrow> int)) list" where
  "int_settings =
     [(Some ''clients'', ''LT_CLIENTS'', 10, cf_clients),
      (Some ''update-hz'', ''LT_UPDATE_HZ'', 10, cf_updateHz),
      (Some ''spawn-radius-chunks'', ''LT_SPAWN_RADIUS_CHUNKS'', 8, cf_spawnRadiusChunks),
      (Some ''distance'', ''LT_DISTANCE'', 8, cf_distance),
      (Some ''volume-chunks'', ''LT_VOLUME_CHUNKS'', 0, cf_volumeChunks),
      (Some ''sparse-range-chunks'', ''LT_SPARSE_RANGE_CHUNKS'', 0, cf_sparseRangeChunks),
      (Some ''sparse-group'', ''LT_SPARSE_GROUP'', 1, cf_sparseGroup),
      (Some ''volume-base-up'', ''LT_VOLUME_BASE_UP'', 0, cf_volumeBaseUp),
      (Some ''permission-window-radius-chunks'', ''LT_PERMISSION_WINDOW_RADIUS_CHUNKS'', 8, cf_permWindowRadiusChunks),
      (None, ''LT_PERMISSION_RELOAD_GRACE_MS'', 5000, cf_permReloadGraceMs),
      (Some ''decay'', ''LT_DECAY'', 1, cf_decay),
      (Some ''index-base'', ''LT_INDEX_BASE'', 0, cf_indexBase),
      (Some ''index-width'', ''LT_INDEX_WIDTH'', 4, cf_indexWidth),
      (Some ''ramp-batch-size'', ''LT_RAMP_BATCH_SIZE'', 10, cf_rampBatchSize),
      (Some ''ramp-interval-ms'', ''LT_RAMP_INTERVAL_MS'', 1000, cf_rampIntervalMs),
      (Some ''rx-silent-reassign-sec'', ''LT_RX_SILENT_REASSIGN_SEC'', 0, cf_rxSilentReassignSec),
      (Some ''provision-concurrency'', ''LT_PROVISION_CONCURRENCY'', 4, cf_provisionConcurrency),
      (Some ''duration-sec'', ''LT_DURATION_SEC'', 0, cf_durationSec),
      (Some ''stats-interval-sec'', ''LT_STATS_INTERVAL_SEC'', 5, cf_statsIntervalSec),
      (Some ''socket-rcvbuf-bytes'', ''LT_SOCKET_RCVBUF_BYTES'', 0, cf_socketRcvbufBytes),
      (None, ''LT_CAPS_INTERVAL_SEC'', 15, cf_capsIntervalSec),
      (Some ''session-settle-ms'', ''LT_SESSION_SETTLE_MS'', 1500, cf_sessionSettleMs),
      (Some ''rx-health-timeout-sec'', ''LT_RX_HEALTH_TIMEOUT_SEC'', 10, cf_rxHealthTimeoutSec),
      (Some ''token-refresh-lead-sec'', ''LT_TOKEN_REFRESH_LEAD_SEC'', 120, cf_tokenRefreshLeadSec)]"

definition double_settings :: "(string option \<times> string \<times> double \<times> (Config \<Rightarrow> double)) list" where
  "double_settings =
     [(Some ''walk-speed'', ''LT_WALK_SPEED'', -1, cf_walkSpeed),
      (Some ''chunk-size-units'', ''LT_CHUNK_SIZE_UNITS'', -1, cf_chunkSizeUnits)]"

definition bool_settings :: "(string option \<times> string \<times> bool \<times> (Config \<Rightarrow> bool)) list" where
  "bool_settings =
     [(Some ''roster-required'', ''LT_ROSTER_REQUIRED'', False, cf_rosterRequired),
      (Some ''verify-server-hmac'', ''LT_VERIFY_SERVER_HMAC'', False, cf_verifyServerHmac),
      (Some ''client-caps'', ''LT_CLIENT_CAPS'', True, cf_clientCaps),
      (Some ''tls-insecure'', ''LT_TLS_INSECURE'', False, cf_tlsInsecure)]"

text \<open>The first source that names the setting: the command line, the environment, the file.\<close>

definition option_of :: "(string \<rightharpoonup> 'a) \<Rightarrow> string option \<Rightarrow> 'a option" where
  "option_of cl opt = Option.bind opt cl"

definition text_value :: "string option \<Rightarrow> string option \<Rightarrow> string option \<Rightarrow> string \<Rightarrow> string" where
  "text_value a b c dflt = (case a of Some v \<Rightarrow> v | None \<Rightarrow> case b of Some v \<Rightarrow> v | None \<Rightarrow> case c of Some v \<Rightarrow> v | None \<Rightarrow> dflt)"

text \<open>Outside the command line a number or a flag is a text to be read, where an empty text counts as no text.\<close>

definition read_value ::
  "(string \<Rightarrow> config_error + 'a) \<Rightarrow> 'a option \<Rightarrow> string option \<Rightarrow> string option \<Rightarrow> 'a \<Rightarrow> config_error + 'a" where
  "read_value rd a b c dflt =
     (case a of Some v \<Rightarrow> Inr v | None \<Rightarrow> let s = text_value None b c [] in if s = [] then Inr dflt else rd s)"

definition read_flag :: "string \<Rightarrow> config_error + bool" where
  "read_flag s = Inr (s \<in> {''1'', ''true'', ''yes'', ''on''})"

section \<open>Reading them off\<close>

text \<open>
  \<open>settles\<close>: how a list of assignments takes a field from its old value to its new one. The
  assignments to other fields are skipped, and the one to the field itself decides.
\<close>

definition settles :: "(Config \<Rightarrow> 'a) \<Rightarrow> ('a \<Rightarrow> 'a \<Rightarrow> bool) \<Rightarrow> (Config \<Rightarrow> config_error + Config) list \<Rightarrow> bool" where
  "settles sel P steps \<longleftrightarrow> (\<forall>c c'. foldl ebind (Inr c) steps = Inr c' \<longrightarrow> P (sel c) (sel c'))"

lemma settlesD: "settles sel P steps \<Longrightarrow> foldl ebind (Inr c) steps = Inr c' \<Longrightarrow> P (sel c) (sel c')"
  by (simp add: settles_def)

lemma foldl_ebind_Cons: "foldl ebind (Inr c) (s # ss) = Inr c' \<longleftrightarrow> (\<exists>d. s c = Inr d \<and> foldl ebind (Inr d) ss = Inr c')"
  by (cases "s c") (simp_all add: foldl_ebind_Inl)

lemma settles_skip: "keeps sel s \<Longrightarrow> settles sel P ss \<Longrightarrow> settles sel P (s # ss)"
  unfolding settles_def foldl_ebind_Cons keeps_def by metis

lemma settles_here:
  assumes "list_all (keeps sel) ss" "\<And>c d. s c = Inr d \<Longrightarrow> P (sel c) (sel d)"
  shows "settles sel P (s # ss)"
  unfolding settles_def foldl_ebind_Cons using assms foldl_keeps by metis

lemma settles_str:
  "list_all (keeps sel) ss \<Longrightarrow> (\<And>f c. sel (upd f c) = f (sel c)) \<Longrightarrow> settles sel (\<lambda>x y. y = lget l n x) (layer_str l n sel upd # ss)"
  by (erule settles_here) (auto simp: layer_defs)

lemma settles_bool:
  "list_all (keeps sel) ss \<Longrightarrow> (\<And>f c. sel (upd f c) = f (sel c)) \<Longrightarrow> settles sel (\<lambda>x y. (Inr (lgetBool l n x) :: config_error + bool) = Inr y) (layer_bool l n sel upd # ss)"
  by (erule settles_here) (auto simp: layer_defs)

lemma settles_int:
  "list_all (keeps sel) ss \<Longrightarrow> (\<And>f c. sel (upd f c) = f (sel c)) \<Longrightarrow> settles sel (\<lambda>x y. lgetInt l n x = Inr y) (layer_int l n sel upd # ss)"
  by (erule settles_here) (auto simp: layer_defs ebind_Inr_iff)

lemma settles_i64:
  "list_all (keeps sel) ss \<Longrightarrow> (\<And>f c. sel (upd f c) = f (sel c)) \<Longrightarrow> settles sel (\<lambda>x y. lgetI64 l n x = Inr y) (layer_i64 l n sel upd # ss)"
  by (erule settles_here) (auto simp: layer_defs ebind_Inr_iff)

lemma settles_double:
  "list_all (keeps sel) ss \<Longrightarrow> (\<And>f c. sel (upd f c) = f (sel c)) \<Longrightarrow> settles sel (\<lambda>x y. lgetDouble sd l n x = Inr y) (layer_double sd l n sel upd # ss)"
  by (erule settles_here) (auto simp: layer_defs ebind_Inr_iff)

lemmas settles_own = settles_str settles_bool settles_int settles_i64 settles_double

lemmas settings_defs = text_settings_def int_settings_def double_settings_def bool_settings_def

lemma layers_settle:
  "list_all (\<lambda>(opt, n, d, sel). settles sel (\<lambda>x y. y = lget l n x) (layer_steps sd l)) text_settings"
  "list_all (\<lambda>(opt, n, d, sel). settles sel (\<lambda>x y. lgetInt l n x = Inr y) (layer_steps sd l)) int_settings"
  "list_all (\<lambda>(opt, n, d, sel). settles sel (\<lambda>x y. lgetDouble sd l n x = Inr y) (layer_steps sd l)) double_settings"
  "list_all (\<lambda>(opt, n, d, sel). settles sel (\<lambda>x y. (Inr (lgetBool l n x) :: config_error + bool) = Inr y) (layer_steps sd l)) bool_settings"
  "settles cf_appId (\<lambda>x y. lgetI64 l ''LT_APP_ID'' x = Inr y) (layer_steps sd l)"
  "settles cf_instanceId (\<lambda>x y. y = lget l ''LT_INSTANCE_ID'' x) (layer_steps sd l)"
  "settles cf_indexLimit (\<lambda>x y. lgetInt l ''LT_INDEX_LIMIT'' x = Inr y) (layer_steps sd l)"
  "settles cf_threads (\<lambda>x y. lgetInt l ''LT_THREADS'' x = Inr y) (layer_steps sd l)"
  unfolding settings_defs list.pred_inject prod.case layer_steps_def
  by ((intro conjI list.pred_inject(1))?;
      (((rule settles_skip, rule keeps_simps, (simp; fail))+)?, rule settles_own, (simp add: keeps_simps; fail), (simp; fail)))+

text \<open>The same for the command line.\<close>

definition cli_settles :: "(Config \<Rightarrow> 'a) \<Rightarrow> ('a \<Rightarrow> 'a) \<Rightarrow> (Config \<Rightarrow> Config) list \<Rightarrow> bool" where
  "cli_settles sel g steps \<longleftrightarrow> (\<forall>c. sel (fold (\<lambda>step c. step c) steps c) = g (sel c))"

lemma cli_skip: "cli_keeps sel s \<Longrightarrow> cli_settles sel g ss \<Longrightarrow> cli_settles sel g (s # ss)"
  by (simp add: cli_settles_def cli_keeps_def)

lemma cli_none: "list_all (cli_keeps sel) ss \<Longrightarrow> cli_settles sel (\<lambda>x. case option_of cl None of Some v \<Rightarrow> v | None \<Rightarrow> x) ss"
  by (simp add: cli_settles_def option_of_def fold_cli_keeps)

lemma cli_here:
  assumes "list_all (cli_keeps sel) ss" "\<And>c. sel (s c) = g (sel c)"
  shows "cli_settles sel g (s # ss)"
  using assms by (simp add: cli_settles_def fold_cli_keeps)

lemma cli_own:
  "list_all (cli_keeps sel1) ss \<Longrightarrow> (\<And>f c. sel1 (upd1 f c) = f (sel1 c)) \<Longrightarrow>
     cli_settles sel1 (\<lambda>x. case option_of (cl_str cli) (Some n) of Some v \<Rightarrow> v | None \<Rightarrow> x) (cli_str cli n upd1 # ss)"
  "list_all (cli_keeps sel2) ss \<Longrightarrow> (\<And>f c. sel2 (upd2 f c) = f (sel2 c)) \<Longrightarrow>
     cli_settles sel2 (\<lambda>x. case option_of (cl_int cli) (Some n) of Some v \<Rightarrow> v | None \<Rightarrow> x) (cli_int cli n upd2 # ss)"
  "list_all (cli_keeps sel3) ss \<Longrightarrow> (\<And>f c. sel3 (upd3 f c) = f (sel3 c)) \<Longrightarrow>
     cli_settles sel3 (\<lambda>x. case option_of (cl_double cli) (Some n) of Some v \<Rightarrow> v | None \<Rightarrow> x) (cli_double cli n upd3 # ss)"
  "list_all (cli_keeps sel4) ss \<Longrightarrow> (\<And>f c. sel4 (upd4 f c) = f (sel4 c)) \<Longrightarrow>
     cli_settles sel4 (\<lambda>x. case option_of (cl_bool cli) (Some n) of Some v \<Rightarrow> v | None \<Rightarrow> x) (cli_bool cli n upd4 # ss)"
  by (rule cli_here; simp add: cli_defs option_of_def split: option.split)+

lemma cli_settle:
  "list_all (\<lambda>(opt, n, d, sel). cli_settles sel (\<lambda>x. case option_of (cl_str cli) opt of Some v \<Rightarrow> v | None \<Rightarrow> x) (cli_steps cli)) text_settings"
  "list_all (\<lambda>(opt, n, d, sel). cli_settles sel (\<lambda>x. case option_of (cl_int cli) opt of Some v \<Rightarrow> v | None \<Rightarrow> x) (cli_steps cli)) int_settings"
  "list_all (\<lambda>(opt, n, d, sel). cli_settles sel (\<lambda>x. case option_of (cl_double cli) opt of Some v \<Rightarrow> v | None \<Rightarrow> x) (cli_steps cli)) double_settings"
  "list_all (\<lambda>(opt, n, d, sel). cli_settles sel (\<lambda>x. case option_of (cl_bool cli) opt of Some v \<Rightarrow> v | None \<Rightarrow> x) (cli_steps cli)) bool_settings"
  "cli_settles cf_appId (\<lambda>x. case option_of (cl_int cli) (Some ''app-id'') of Some v \<Rightarrow> v | None \<Rightarrow> x) (cli_steps cli)"
  "cli_settles cf_instanceId (\<lambda>x. case option_of (cl_str cli) (Some ''instance-id'') of Some v \<Rightarrow> v | None \<Rightarrow> x) (cli_steps cli)"
  "cli_settles cf_indexLimit (\<lambda>x. case option_of (cl_int cli) (Some ''index-limit'') of Some v \<Rightarrow> v | None \<Rightarrow> x) (cli_steps cli)"
  "cli_settles cf_threads (\<lambda>x. case option_of (cl_int cli) (Some ''threads'') of Some v \<Rightarrow> v | None \<Rightarrow> x) (cli_steps cli)"
  unfolding settings_defs list.pred_inject prod.case cli_steps_def
  by ((intro conjI list.pred_inject(1))?;
      ((rule cli_none, (simp add: cli_keeps_simps; fail)) |
       (((rule cli_skip, rule cli_keeps_simps, (simp; fail))+)?, rule cli_own, (simp add: cli_keeps_simps; fail), (simp; fail))))+

text \<open>The adjustments at the end, and the defaults.\<close>

lemma load_defaults_frame:
  assumes "\<And>f c. sel (cf_instanceId_update f c) = sel c" "\<And>f c. sel (cf_indexLimit_update f c) = sel c"
    "\<And>f c. sel (cf_threads_update f c) = sel c"
  shows "sel (load_defaults h c) = sel c"
  using assms by (simp add: load_defaults_def Let_def)

lemma settings_frame:
  "list_all (\<lambda>(opt, n, d, sel). sel Config_init = d \<and> (\<forall>h c. sel (load_defaults h c) = sel c)) text_settings"
  "list_all (\<lambda>(opt, n, d, sel). sel Config_init = d \<and> (\<forall>h c. sel (load_defaults h c) = sel c)) int_settings"
  "list_all (\<lambda>(opt, n, d, sel). sel Config_init = d \<and> (\<forall>h c. sel (load_defaults h c) = sel c)) double_settings"
  "list_all (\<lambda>(opt, n, d, sel). sel Config_init = d \<and> (\<forall>h c. sel (load_defaults h c) = sel c)) bool_settings"
  "cf_appId (load_defaults h c) = cf_appId c"
  by (simp_all add: settings_defs load_defaults_frame) (simp_all add: Config_init_def)

lemma lget_value: "lget \<lparr>ly_env = env, ly_file = kv\<rparr> n d = text_value None (env n) (kv n) d"
  by (simp add: lget_def text_value_def split: option.split)

lemma lget_read:
  "lgetInt \<lparr>ly_env = env, ly_file = kv\<rparr> n d = read_value stoi None (env n) (kv n) d"
  "lgetI64 \<lparr>ly_env = env, ly_file = kv\<rparr> n d = read_value stoll None (env n) (kv n) d"
  "lgetDouble sd \<lparr>ly_env = env, ly_file = kv\<rparr> n x = read_value sd None (env n) (kv n) x"
  "Inr (lgetBool \<lparr>ly_env = env, ly_file = kv\<rparr> n b) = read_value read_flag None (env n) (kv n) b"
  by (simp_all add: lgetInt_def lgetI64_def lgetDouble_def lgetBool_def read_value_def read_flag_def lget_value Let_def)

lemma load_defaults_own:
  "cf_instanceId (load_defaults h c) = (if cf_instanceId c = [] then defaultInstanceId h else cf_instanceId c)"
  "cf_indexLimit (load_defaults h c) = (if cf_indexLimit c < 0 then cf_clients c else cf_indexLimit c)"
  "cf_threads (load_defaults h c) = (if cf_clients c > 0 \<and> cf_threads c > cf_clients c then cf_clients c else cf_threads c)"
  "cf_clients (load_defaults h c) = cf_clients c"
  by (simp_all add: load_defaults_def Let_def)

text \<open>Putting the three parts of \<^verbatim>\<open>load\<close> together.\<close>

lemma read_with_cli:
  "read_value rd None b d dflt = Inr x \<Longrightarrow> read_value rd a b d dflt = Inr (case a of Some v \<Rightarrow> v | None \<Rightarrow> x)"
  by (simp add: read_value_def split: option.split)

lemma text_with_cli: "text_value a b d dflt = (case a of Some v \<Rightarrow> v | None \<Rightarrow> text_value None b d dflt)"
  by (simp add: text_value_def split: option.split)

lemma read_all:
  assumes "foldl ebind (Inr Config_init) steps = Inr c0" "c = load_defaults h (fold (\<lambda>step c. step c) csteps c0)"
    and "list_all (\<lambda>(opt, n, d, sel). settles sel (\<lambda>x y. layer n x = Inr y) steps) S"
    and "list_all (\<lambda>(opt, n, d, sel). cli_settles sel (\<lambda>x. case option_of cl opt of Some v \<Rightarrow> v | None \<Rightarrow> x) csteps) S"
    and "list_all (\<lambda>(opt, n, d, sel). sel Config_init = d \<and> (\<forall>h c. sel (load_defaults h c) = sel c)) S"
    and "\<And>n x. layer n x = read_value rd None (env n) (kv n) x"
  shows "\<forall>(opt, n, d, sel) \<in> set S. read_value rd (option_of cl opt) (env n) (kv n) d = Inr (sel c)"
proof (clarify)
  fix opt n d sel assume m: "(opt, n, d, sel) \<in> set S"
  have s: "settles sel (\<lambda>x y. layer n x = Inr y) steps" using assms(3) m by (auto simp: list_all_iff)
  have k: "cli_settles sel (\<lambda>x. case option_of cl opt of Some v \<Rightarrow> v | None \<Rightarrow> x) csteps" using assms(4) m by (auto simp: list_all_iff)
  have f: "sel Config_init = d" "\<forall>h c. sel (load_defaults h c) = sel c" using assms(5) m by (auto simp: list_all_iff)
  from settlesD [OF s assms(1)] have "read_value rd None (env n) (kv n) d = Inr (sel c0)" by (simp add: assms(6) f(1))
  from read_with_cli [OF this] show "read_value rd (option_of cl opt) (env n) (kv n) d = Inr (sel c)"
    using k f(2) by (simp add: assms(2) cli_settles_def)
qed

lemma text_all:
  assumes "foldl ebind (Inr Config_init) (layer_steps sd \<lparr>ly_env = env, ly_file = kv\<rparr>) = Inr c0"
    and "c = load_defaults h (fold (\<lambda>step c. step c) (cli_steps cli) c0)"
  shows "\<forall>(opt, n, d, sel) \<in> set text_settings. sel c = text_value (option_of (cl_str cli) opt) (env n) (kv n) d"
proof (clarify)
  fix opt n d sel assume m: "(opt, n, d, sel) \<in> set text_settings"
  have s: "settles sel (\<lambda>x y. y = lget \<lparr>ly_env = env, ly_file = kv\<rparr> n x) (layer_steps sd \<lparr>ly_env = env, ly_file = kv\<rparr>)"
    using layers_settle(1) m by (fastforce simp: list_all_iff)
  have k: "cli_settles sel (\<lambda>x. case option_of (cl_str cli) opt of Some v \<Rightarrow> v | None \<Rightarrow> x) (cli_steps cli)"
    using cli_settle(1) m by (fastforce simp: list_all_iff)
  have f: "sel Config_init = d" "\<forall>h c. sel (load_defaults h c) = sel c" using settings_frame(1) m by (auto simp: list_all_iff)
  show "sel c = text_value (option_of (cl_str cli) opt) (env n) (kv n) d"
    using settlesD [OF s assms(1)] k f by (simp add: assms(2) cli_settles_def lget_value text_with_cli [of "option_of _ _"] cong: option.case_cong)
qed

section \<open>Properties\<close>

text \<open>
  C20. Precedence of the sources, for every setting. The value of a setting in a loaded
  configuration is the one given on the command line; without it the one in the environment;
  without that the one in the configuration file; and the default else, where an empty number or
  flag in the environment counts as given and means the default. Each setting has its own option, its
  own name and its own default, those of the tables. Three settings are adjusted at the end:
  an empty instance id becomes the default one, a negative index limit the number of clients,
  and more threads than clients as many as clients. Exactly two of the options in the tables are never
  declared to the option parser, so a command line that gives them is refused: they can be set
  in the environment and the file only.
\<close>

theorem load_precedence:
  assumes "load sd env hostname (Some cli) = Inr c"
  shows "\<exists>kv limit threads. (case cl_config cli of None \<Rightarrow> Inr Map.empty | Some contents \<Rightarrow> parseKvFile contents) = Inr kv \<and>
     (\<forall>(opt, n, d, sel) \<in> set text_settings. sel c = text_value (option_of (cl_str cli) opt) (env n) (kv n) d) \<and>
     (\<forall>(opt, n, d, sel) \<in> set int_settings. read_value stoi (option_of (cl_int cli) opt) (env n) (kv n) d = Inr (sel c)) \<and>
     (\<forall>(opt, n, d, sel) \<in> set double_settings. read_value sd (option_of (cl_double cli) opt) (env n) (kv n) d = Inr (sel c)) \<and>
     (\<forall>(opt, n, d, sel) \<in> set bool_settings. read_value read_flag (option_of (cl_bool cli) opt) (env n) (kv n) d = Inr (sel c)) \<and>
     read_value stoll (cl_int cli ''app-id'') (env ''LT_APP_ID'') (kv ''LT_APP_ID'') 0 = Inr (cf_appId c) \<and>
     (let v = text_value (cl_str cli ''instance-id'') (env ''LT_INSTANCE_ID'') (kv ''LT_INSTANCE_ID'') []
      in cf_instanceId c = (if v = [] then defaultInstanceId hostname else v)) \<and>
     read_value stoi (cl_int cli ''index-limit'') (env ''LT_INDEX_LIMIT'') (kv ''LT_INDEX_LIMIT'') (- 1) = Inr limit \<and>
     cf_indexLimit c = (if limit < 0 then cf_clients c else limit) \<and>
     read_value stoi (cl_int cli ''threads'') (env ''LT_THREADS'') (kv ''LT_THREADS'') 1 = Inr threads \<and>
     cf_threads c = (if cf_clients c > 0 \<and> threads > cf_clients c then cf_clients c else threads) \<and>
     filter (\<lambda>n. n \<notin> set declared_options)
       (List.map_filter id (map fst text_settings @ map fst int_settings @ map fst double_settings @ map fst bool_settings)) =
       [''rx-silent-reassign-sec'', ''client-caps'']"
proof -
  obtain kv c0 where k: "(case cl_config cli of None \<Rightarrow> Inr Map.empty | Some contents \<Rightarrow> parseKvFile contents) = Inr kv"
    and c0: "foldl ebind (Inr Config_init) (layer_steps sd \<lparr>ly_env = env, ly_file = kv\<rparr>) = Inr c0"
    and c: "c = load_defaults hostname (fold (\<lambda>step c. step c) (cli_steps cli) c0)"
    using assms by (auto elim: load_InrD)
  let ?c1 = "fold (\<lambda>step c. step c) (cli_steps cli) c0"
  note own = layers_settle(5-8) [THEN settlesD, OF c0] and cl = cli_settle(5-8) [of cli, unfolded cli_settles_def option_of_def bind.bind_lunit]
  have t: "\<forall>(opt, n, d, sel) \<in> set text_settings. sel c = text_value (option_of (cl_str cli) opt) (env n) (kv n) d"
    by (rule text_all [OF c0 c])
  have i: "\<forall>(opt, n, d, sel) \<in> set int_settings. read_value stoi (option_of (cl_int cli) opt) (env n) (kv n) d = Inr (sel c)"
    by (rule read_all [OF c0 c layers_settle(2) cli_settle(2) settings_frame(2) lget_read(1)])
  have f: "\<forall>(opt, n, d, sel) \<in> set double_settings. read_value sd (option_of (cl_double cli) opt) (env n) (kv n) d = Inr (sel c)"
    by (rule read_all [OF c0 c layers_settle(3) cli_settle(3) settings_frame(3) lget_read(3)])
  have b: "\<forall>(opt, n, d, sel) \<in> set bool_settings. read_value read_flag (option_of (cl_bool cli) opt) (env n) (kv n) d = Inr (sel c)"
    by (rule read_all [OF c0 c layers_settle(4) cli_settle(4) settings_frame(4) lget_read(4)])
  have "read_value stoll None (env ''LT_APP_ID'') (kv ''LT_APP_ID'') 0 = Inr (cf_appId c0)"
    "read_value stoi None (env ''LT_INDEX_LIMIT'') (kv ''LT_INDEX_LIMIT'') (- 1) = Inr (cf_indexLimit c0)"
    "read_value stoi None (env ''LT_THREADS'') (kv ''LT_THREADS'') 1 = Inr (cf_threads c0)"
    using own by (simp_all add: lget_read Config_init_def)
  note r = this [THEN read_with_cli]
  have a: "read_value stoll (cl_int cli ''app-id'') (env ''LT_APP_ID'') (kv ''LT_APP_ID'') 0 = Inr (cf_appId c)"
    "read_value stoi (cl_int cli ''index-limit'') (env ''LT_INDEX_LIMIT'') (kv ''LT_INDEX_LIMIT'') (- 1) = Inr (cf_indexLimit ?c1)"
    "read_value stoi (cl_int cli ''threads'') (env ''LT_THREADS'') (kv ''LT_THREADS'') 1 = Inr (cf_threads ?c1)"
    using r cl by (simp_all add: c settings_frame(5))
  have d: "text_value (cl_str cli ''instance-id'') (env ''LT_INSTANCE_ID'') (kv ''LT_INSTANCE_ID'') [] = cf_instanceId ?c1"
    using own(2) cl by (simp add: lget_value text_with_cli [of "cl_str _ _"] Config_init_def cong: option.case_cong)
  have "filter (\<lambda>n. n \<notin> set declared_options)
       (List.map_filter id (map fst text_settings @ map fst int_settings @ map fst double_settings @ map fst bool_settings)) =
       [''rx-silent-reassign-sec'', ''client-caps'']"
    by (simp add: settings_defs declared_options_def List.map_filter_def)
  moreover have "cf_instanceId c = (if cf_instanceId ?c1 = [] then defaultInstanceId hostname else cf_instanceId ?c1)"
    "cf_indexLimit c = (if cf_indexLimit ?c1 < 0 then cf_clients c else cf_indexLimit ?c1)"
    "cf_threads c = (if cf_clients c > 0 \<and> cf_threads ?c1 > cf_clients c then cf_clients c else cf_threads ?c1)"
    unfolding c by (simp_all only: load_defaults_own)
  ultimately show ?thesis using k t i f b a d by (intro exI [of _ kv] exI [of _ "cf_indexLimit ?c1"] exI [of _ "cf_threads ?c1"]) (simp only: Let_def simp_thms)
qed

theorem load_precedence_witness:
  "cf_email sample_config = ''qa@example.com'' \<and> cf_clients sample_config = 25 \<and> cf_distance sample_config = 8"
  using load_precedence [OF sample_load [of "\<lambda>_. Inl InvalidArgument"]]
  by (auto simp: sample_cli_def sample_env_def text_settings_def int_settings_def text_value_def read_value_def option_of_def sample_kv sample_file_def)

end
