(* ===== verification/Spec2Isabelle.thy ===== *)
theory Spec2Isabelle
  imports Network Generator Transport Custody Ranges Reporter FleetWait Process Settings
begin

text \<open>
  A verification of cks-loadtest, a load generator for a game's UDP servers. One process drives
  many simulated clients; a driver program controls a fleet of such processes over HTTP.

  \<^bold>\<open>The program and its model.\<close> All paths are under \<^verbatim>\<open>src/src\<close>. A class is a record with its fields in
  the source's order, an enumeration a datatype, a method a function from state to state; \<^verbatim>\<open>int\<close> is
  a HOL integer (overflow is written out where a value from outside reaches it), 64-bit counters
  and wire fields are words, bytes are 8-bit words, \<^verbatim>\<open>double\<close> is a real rounded after each
  operation, clocks are integers in nanoseconds, and exceptions are values of a sum type. What the
  language leaves undefined, such as a sum that leaves \<^verbatim>\<open>int\<close>, a conversion out of range or a missing
  key of a constant document, is a value of its own that no handler catches: \<open>NoMeaning\<close> in \<^verbatim>\<open>Json\<close>,
  \<^verbatim>\<open>Snapshot\<close> and \<^verbatim>\<open>Fleet\<close>, \<open>Undefined\<close> in \<^verbatim>\<open>GraphQL\<close>, \<^verbatim>\<open>Timestamp\<close> and \<^verbatim>\<open>Provisioner\<close>, \<open>RoundUndefined\<close> and
  \<open>OutcomeUndefined\<close> in \<^verbatim>\<open>Ctl\<close>, \<open>BodyUndefined\<close> and then \<open>None\<close> in \<^verbatim>\<open>ControlServer\<close>, \<open>None\<close> elsewhere.

  \<^item> \<^verbatim>\<open>Prelude\<close>, \<^verbatim>\<open>Floating\<close>, \<^verbatim>\<open>Json\<close>: words and byte buffers; rounding to binary64 and binary32; JSON
    values with the accessors of nlohmann::json, and decimal printing.
  \<^item> \<^verbatim>\<open>Wire\<close> (\<^verbatim>\<open>Wire.hpp\<close>, \<^verbatim>\<open>Hmac.hpp\<close>): the datagrams a client builds, signs, parses and verifies.
  \<^item> \<^verbatim>\<open>Snapshot\<close>, \<^verbatim>\<open>Stats\<close>, \<^verbatim>\<open>Fleet\<close> (\<^verbatim>\<open>Stats.hpp\<close>, \<^verbatim>\<open>Stats.cpp\<close>): counter snapshots and their
    documents; live statistics, rung windows, the reporter's turn and the final summary; the merge
    of several hosts' documents.
  \<^item> \<^verbatim>\<open>Reporter\<close> (\<^verbatim>\<open>StatsReporter\<close> in \<^verbatim>\<open>Stats.cpp\<close>): the reporter's thread with its files, its loop around
    the turn of \<^verbatim>\<open>Stats\<close>, and the text of its rows.
  \<^item> \<^verbatim>\<open>Config\<close> (\<^verbatim>\<open>Config.hpp\<close>, \<^verbatim>\<open>Config.cpp\<close>): layers of configuration, parsing, validation, client
    addresses. \<^verbatim>\<open>Settings\<close>: a table of all settings, against which \<^verbatim>\<open>Config::load\<close> is proved.
  \<^item> \<^verbatim>\<open>SimClient\<close> (\<^verbatim>\<open>SimClient.hpp\<close>): placement, walking and the update a client sends.
  \<^item> \<^verbatim>\<open>Worker\<close>, \<^verbatim>\<open>Population\<close> (\<^verbatim>\<open>Worker.hpp\<close>, \<^verbatim>\<open>Worker.cpp\<close>): the loop that activates, receives, sends,
    suspends and resumes clients, its control queue, and the identities of its clients.
  \<^item> \<^verbatim>\<open>GraphQL\<close> (\<^verbatim>\<open>GraphQLClient.hpp\<close>, \<^verbatim>\<open>GraphQLClient.cpp\<close>): requests to the services and what an answer
    means, as a state monad with exceptions over a scripted world; in \<^verbatim>\<open>Transport\<close> the client down to
    the options of the transfer, which implements it, and what a request and its outcome are.
  \<^item> \<^verbatim>\<open>Timestamp\<close>, \<^verbatim>\<open>Provisioner\<close> (\<^verbatim>\<open>Provisioner.hpp\<close>, \<^verbatim>\<open>Provisioner.cpp\<close>): expiry times; roster, sign-in,
    tokens, placement, refresh, and the threads that provision a range.
  \<^item> \<^verbatim>\<open>Harness\<close> (\<^verbatim>\<open>Harness.hpp\<close>, \<^verbatim>\<open>Harness.cpp\<close>): the whole generator. Workers, control thread, add
    thread, reporter and control port are interleaved by \<open>harness_step\<close>; \<open>worker_of\<close> and
    \<open>put_worker\<close> hand a worker the shared statistics and queue and take them back. \<^verbatim>\<open>Ranges\<close> types the
    integer settings of \<^verbatim>\<open>Config\<close>; \<^verbatim>\<open>Custody\<close> follows one suspended client through a run of \<^verbatim>\<open>Harness\<close>.
  \<^item> \<^verbatim>\<open>ControlServer\<close> (\<^verbatim>\<open>ControlServer.hpp\<close>, \<^verbatim>\<open>ControlServer.cpp\<close>), \<^verbatim>\<open>Generator\<close> (\<^verbatim>\<open>main.cpp\<close>), \<^verbatim>\<open>Ctl\<close>
    (\<^verbatim>\<open>ctl.cpp\<close>): the control port, the main loop with its exit codes, and the fleet driver.
  \<^item> \<^verbatim>\<open>Process\<close> (\<^verbatim>\<open>main.cpp\<close>): the process from \<^verbatim>\<open>main\<close> to its exit code, the loop reading the states the
    other threads pass through, and the order in which a run is taken down.
  \<^item> \<^verbatim>\<open>Network\<close>, \<^verbatim>\<open>FleetWait\<close> and this theory: the driver and the control ports of a fleet together.

  \<^bold>\<open>What the lemmas show.\<close> \<^verbatim>\<open>Floating\<close> proves rounding monotone and exact on its grid once, in a
  locale interpreted for both formats. \<^verbatim>\<open>Wire\<close> gives round trips, exact parsing and exact
  verification, two datagram kinds sharing the locale \<open>sealed_datagram\<close>. \<^verbatim>\<open>Snapshot\<close> proves merging
  a commutative monoid (\<open>merge_monoid\<close>, on \<open>snap_sum\<close>, which the program's \<open>snap_plus\<close> computes where the
  tallies stay in \<^verbatim>\<open>int\<close>), from which \<^verbatim>\<open>Fleet\<close> gets exact and order-free totals for hosts whose figures
  add up within \<^verbatim>\<open>int\<close> (\<open>fleet_fits\<close>).
  \<^verbatim>\<open>Worker\<close> proves a property of a turn from that of its parts in the locales \<open>worker_receives\<close> and
  \<open>worker_turn\<close>, interpreted for the invariant, for one request per datagram, for the refresh latch,
  and in \<^verbatim>\<open>Population\<close> for identities; the control queue is an interpretation of \<open>work_queue\<close>.
  The same turn locale, interpreted once more in \<^verbatim>\<open>Custody\<close>, shows that a suspended client always has a
  request or a successful answer on its way, unless an answer for it failed.
  \<^verbatim>\<open>GraphQL\<close> has a locale for frame properties of monadic code, interpreted for what keeps the
  roster, what asks only certain queries, and what changes only the world. \<^verbatim>\<open>Harness\<close> lifts the
  worker's invariant to all workers (\<open>crew_ok\<close>), keeps the books of used indices and of an add in
  flight (\<open>books_ok\<close>), and proves both of every reachable state; \<^verbatim>\<open>Process\<close> rests on them for the
  last state of a run.

  \<^bold>\<open>Bounds and termination.\<close> Loops with a bound in the source are functions with a measure: three
  attempts per request, fifteen placements per control request, the bundle parser by the bytes
  left. Provisioning threads end by the measure \<open>effort\<close>, and \<open>moves\<close> says which of them can go on;
  the control thread ends by \<open>backlog\<close>. The
  driver's waiting loop is a partial function, shown to return once its deadline passes. Lists of
  observations, events and random draws stand for what the system delivers; a result \<open>None\<close> says
  that a loop still waits, and no theorem draws conclusions from it.

  \<^bold>\<open>Parameters.\<close> HMAC-SHA256 and the arc tangent are functions; the kernel, the clocks, the random
  generator, the services (by number of request) and the network are scripts over which every
  theorem quantifies. JSON text is a parser and a printer. The printer is partial, since the library
  throws on a string that is not well-formed UTF-8. Where a theorem needs a document to be read back, it
  says so for that document by \<open>reads_back\<close>: the text is read as the document's \<open>canon\<close>, with the keys of
  objects in order and numbers that are not negative as unsigned ones.

  \<^bold>\<open>Not modelled.\<close> Log output, sleeps and thread start-up; libcurl, OpenSSL, cpp-httplib, cxxopts and
  the text of JSON (third-party); the listening socket and its threads; signal handlers (a signal
  is a step that sets the flag) and directories; the hexadecimal and exponent forms of seconds in a time
  stamp; tests, scripts and packaging. Races inside one step are not either: an operation on state
  that the source guards by one lock, or one turn of a worker, is one step.
\<close>

section \<open>Adding over a fleet\<close>

lemma int_arg: "1 \<le> k \<Longrightarrow> k \<le> int_max \<Longrightarrow> get_int (jint k) = Inr k"
  by (rule get_int_jint) (simp_all add: int_max_def)

definition add_request :: "int \<Rightarrow> json" where
  "add_request k = JObj [(''count'', jint k)]"

definition add_accepted :: "int \<Rightarrow> Node \<Rightarrow> json" where
  "add_accepted k n = JObj [(''accepted'', JBool True), (''count'', jint k),
     (''used'', jint (rd_used (nd_readings n))), (''limit'', jint (cf_indexLimit (nd_config n)))]"

lemma node_add:
  assumes "parse body = Inr (canon (add_request k))" "body \<noteq> []" "1 \<le> k" "k \<le> int_max" "admits token n"
  shows "node_serve parse what dump token ''POST'' ''/v1/clients/add'' body n =
    (case requestAdd (nd_config n) k (nd_harness n) of
       None \<Rightarrow> None
     | Some (err, h) \<Rightarrow>
         if err \<noteq> [] then Some (jsonRes dump 409 (error_body err), h) else Some (jsonRes dump 202 (add_accepted k n), h))"
proof -
  let ?req = "asked_as token ''POST'' ''/v1/clients/add'' body"
  have "node_serve parse what dump token ''POST'' ''/v1/clients/add'' body n =
      dispatch parse what dump (nd_config n) (nd_readings n) ?req (nd_harness n)"
    using bearer_admits [OF assms(5)] by (simp add: node_serve_def serve_def routed_def) (simp add: asked_as_def)
  also have "\<dots> = add_handler parse what dump (nd_config n) (nd_readings n) ?req (nd_harness n)" by (simp add: dispatch_def asked_as_def)
  also have "body_value parse what get_int ?req ''count'' 0 = GoodBody k"
    using assms(1,2) int_arg [OF assms(3,4)] by (simp add: body_value_def asked_as_def jvalue_get_canon) (simp add: add_request_def)
  ultimately show ?thesis by (simp add: add_handler_def add_accepted_def split: option.split)
qed


text \<open>
  The one host, and the part of a JSON library that an add needs: requests print as
  \<^verbatim>\<open>{"count":k}\<close>, of the answers the used count, and texts of the first form are read.
\<close>

definition count_dump :: "json \<Rightarrow> string option" where
  "count_dump j =
     (case (jlookup j ''used'', jlookup j ''count'') of
        (None, Some (JInt w)) \<Rightarrow> Some (''{\"count\":'' @ dec_int (sint w) @ ''}'')
      | (Some (JInt w), _) \<Rightarrow> Some (''{\"used\":'' @ dec_int (sint w) @ ''}'')
      | _ \<Rightarrow> None)"

definition count_parse :: json_parser where
  "count_parse text =
     (let digits = butlast (drop 9 text) in
      if take 9 text = ''{\"count\":'' \<and> digits \<noteq> [] \<and> list_all is_digit digits \<and> last text = CHR ''}''
      then Inr (JObj [(''count'', JUInt (word_of_nat (undec digits)))]) else Inl ''parse error'')"

lemma count_reads_back: "reads_back count_parse count_dump (add_request 3)"
  unfolding reads_back_def by (rule exI [of _ "''{\"count\":3}''"]) code_simp

definition lone_perform :: "json_parser \<Rightarrow> (json \<Rightarrow> string option) \<Rightarrow> curl" where
  "lone_perform parse dump xr = delivered (node_serve parse (\<lambda>_. []) dump [] ''POST'' (drop 8 (xr_url xr)) (xr_body xr) lone_node)"

lemma lone_reaches: "reaches parse (\<lambda>_. []) dump [] (lone_perform parse dump) lone_node"
  by (simp add: reaches_def lone_perform_def curl_request_def joinUrl_def lone_node_def)

lemma lone_admits: "admits [] lone_node"
  by (simp add: admits_def lone_node_def roster_config_def sample_config_def Config_init_def)

definition lone_cli :: CtlOptions where
  "lone_cli = \<lparr>cx_help = False, cx_command = None, cx_token = None, cx_host = None, cx_hosts = None, cx_count = 3, cx_id = None,
     cx_out = None, cx_in = None, cx_timeoutSec = 0, cx_activeDelta = 0, cx_stableSec = 0\<rparr>"


section \<open>Closing a rung over a fleet\<close>

lemma jlookup_host: "is_object j \<Longrightarrow> k \<noteq> ''host'' \<Longrightarrow> jlookup (jset ''host'' v j) k = jlookup j k"
  by (simp add: jlookup_jset)

lemma jvalue_lookup: "is_object j \<Longrightarrow> jvalue get j k d = (case jlookup j k of Some v \<Rightarrow> get v | None \<Rightarrow> Inr d)"
  by (cases j) simp_all

lemma jvalue_host: "is_object j \<Longrightarrow> k \<noteq> ''host'' \<Longrightarrow> jvalue get (jset ''host'' v j) k d = jvalue get j k d"
  by (simp add: jvalue_lookup jlookup_host)

lemma merge_parts_named:
  assumes "is_object j"
  shows "merge_window (jset ''host'' v j) acc = merge_window j acc" "merge_usage (jset ''host'' v j) acc = merge_usage j acc"
    "merge_gauges (jset ''host'' v j) acc = merge_gauges j acc" "merge_interval (jset ''host'' v j) acc = merge_interval j acc"
    "merge_flags (jset ''host'' v j) acc = merge_flags j acc"
  using assms
  by (simp_all add: merge_window_def merge_usage_def merge_gauges_def merge_interval_def merge_flags_def jvalue_host jlookup_host
      split: option.split json.split)

lemma merge_host_named: "is_object j \<Longrightarrow> merge_host acc (jset ''host'' v j) = merge_host acc j"
  by (simp add: merge_host_def merge_parts_named jvalue_host)

lemma merge_named:
  assumes "list_all is_object js" "length vs = length js"
  shows "mergeFleetStats t (map2 (\<lambda>v j. jset ''host'' v j) vs js) = mergeFleetStats t js"
proof -
  have "merge_hosts acc (map2 (\<lambda>v j. jset ''host'' v j) vs js) = merge_hosts acc js" for acc
    using assms(2,1) by (induction vs js arbitrary: acc rule: list_induct2) (simp_all add: merge_host_named)
  then show ?thesis using assms(2) by (simp add: mergeFleetStats_def)
qed

lemma merge_canon: "mergeFleetStats t (map canon js) = mergeFleetStats t js"
proof -
  have "merge_hosts acc (map canon js) = merge_hosts acc js" for acc
    by (induction js arbitrary: acc) (simp_all add: merge_host_canon)
  then show ?thesis by (simp add: mergeFleetStats_def)
qed

text \<open>A generator as the merge sees it.\<close>

definition node_host :: "Node \<Rightarrow> Host" where
  "node_host n = \<lparr>h_meta = snapshot_meta (nd_config n) (rd_steadyNs (nd_readings n)) (nd_harness n),
     h_life = loadLifetime (hn_stats (nd_harness n)), h_win = loadWindow (hn_stats (nd_harness n)), h_iv = st_interval (hn_stats (nd_harness n))\<rparr>"

lemma node_host_json: "host_json (node_host n) = statsJson (nd_config n) (rd_steadyNs (nd_readings n)) (nd_harness n)"
  by (simp add: host_json_def node_host_def statsJson_def)

lemma node_close:
  assumes "admits token n" "dump (statsJson (nd_config n) (rd_steadyNs (nd_readings n)) (nd_harness n)) = Some reply"
  shows "\<exists>h. node_serve sparse what dump token ''POST'' ''/v1/rung/close'' body n = Some (Answered 200 reply, h)"
proof -
  have "node_serve sparse what dump token ''POST'' ''/v1/rung/close'' body n =
      dispatch sparse what dump (nd_config n) (nd_readings n) (asked_as token ''POST'' ''/v1/rung/close'' body) (nd_harness n)"
    using bearer_admits [OF assms(1)] by (simp add: node_serve_def serve_def routed_def) (simp add: asked_as_def)
  then show ?thesis using assms(2)
    by (simp add: dispatch_def asked_as_def case_prod_beta Let_def closeRung_def jsonRes_def split: sum.split)
qed

text \<open>
  C6. \<^verbatim>\<open>rung-close\<close> sums the fleet. Over a fleet whose control ports the driver reaches and is
  admitted to, and whose running totals stay in \<^verbatim>\<open>int\<close>, the command delivers one document: it
  counts the hosts, carries every host's own document under its URL in \<^verbatim>\<open>per_host\<close>, as the JSON
  library reads it back, and its used count, limit, gauges and lifetime counters are the sums over
  the generators' states. The exit code is 0 if all generators are in the same rung and 1, with a
  warning in the document, if not; a document that does not print, for the bytes of a URL in it,
  ends the driver by an exception. Where a running total overflows, the command has no meaning.
\<close>

theorem fleet_rung_close:
  assumes "\<forall>n \<in> set ns. reads_back parse dump (statsJson (nd_config n) (rd_steadyNs (nd_readings n)) (nd_harness n))"
    and "\<forall>n \<in> set ns. reaches parse what dump token (perform 0) n \<and> admits token n"
    and "list_all (\<lambda>n. host_ok (node_host n)) ns"
  shows "if \<not> fleet_fits (map node_host ns)
     then run_command perform (optional parse) dump pretty clock sysNs cli token (map nd_url ns) ''rung-close'' = Some OutcomeUndefined
     else \<exists>fleet. run_command perform (optional parse) dump pretty clock sysNs cli token (map nd_url ns) ''rung-close'' =
         Some (case pretty fleet of
             None \<Rightarrow> Terminated
           | Some printed \<Rightarrow>
               Exit (if list_ex (\<lambda>n. st_rungId (hn_stats (nd_harness n)) \<noteq> st_rungId (hn_stats (nd_harness (hd ns)))) ns then 1 else 0)
                 [deliver cli printed]) \<and>
       jlookup fleet ''hosts'' = Some (JUInt (of_nat (length ns))) \<and>
       jlookup fleet ''per_host'' = Some (JArr (map (\<lambda>n. jset ''host'' (JStr (nd_url n))
          (canon (statsJson (nd_config n) (rd_steadyNs (nd_readings n)) (nd_harness n)))) ns)) \<and>
       jlookup fleet ''used'' = Some (jint (sum_list (map (\<lambda>n. hn_used (nd_harness n)) ns))) \<and>
       jlookup fleet ''limit'' = Some (jint (sum_list (map (\<lambda>n. cf_indexLimit (nd_config n)) ns))) \<and>
       jlookup fleet ''gauges'' = Some (JObj
         [(''active'', jint (sum_list (map (\<lambda>n. st_activeClients (hn_stats (nd_harness n))) ns))),
          (''suspended'', jint (sum_list (map (\<lambda>n. st_suspendedClients (hn_stats (nd_harness n))) ns)))]) \<and>
       jlookup fleet ''lifetime'' = Some (countersJson (foldl snap_sum CounterSnap_init (map (\<lambda>n. loadLifetime (hn_stats (nd_harness n))) ns)))"
proof -
  let ?doc = "\<lambda>n. statsJson (nd_config n) (rd_steadyNs (nd_readings n)) (nd_harness n)"
  let ?named = "map (\<lambda>n. jset ''host'' (JStr (nd_url n)) (canon (?doc n))) ns"
  define rows where "rows = map (\<lambda>n. \<lparr>fi_host = nd_url n, fi_res = \<lparr>hr_status = 200, hr_body = the (dump (?doc n)), hr_error = []\<rparr>\<rparr>) ns"
  have prints: "\<exists>reply. dump (?doc n) = Some reply \<and> parse reply = Inr (canon (?doc n))" if "n \<in> set ns" for n
    using assms(1) that unfolding reads_back_def by blast
  have fan: "fan (perform 0) (map nd_url ns) token ''POST'' ''/v1/rung/close'' ''{}'' = rows"
  proof -
    have "(case delivered (node_serve parse what dump token ''POST'' ''/v1/rung/close'' ''{}'' n) of
        CurlInitFailed \<Rightarrow> \<lparr>hr_status = 0, hr_body = [], hr_error = ''curl_easy_init failed''\<rparr>
      | CurlError e received \<Rightarrow> \<lparr>hr_status = 0, hr_body = received, hr_error = e\<rparr>
      | CurlDone code received \<Rightarrow> \<lparr>hr_status = code, hr_body = received, hr_error = []\<rparr>) = \<lparr>hr_status = 200, hr_body = the (dump (?doc n)), hr_error = []\<rparr>"
      if n: "n \<in> set ns" for n
    proof -
      obtain reply where "dump (?doc n) = Some reply" using prints [OF n] by blast
      then show ?thesis using node_close [of token n dump reply parse what "''{}''"] assms(2) n by (auto simp: delivered_def)
    qed
    then show ?thesis using fan_nodes [of ns parse what dump token "perform 0"] assms(2) by (simp add: rows_def)
  qed
  have obj: "is_object (canon (?doc n))" for n by (simp add: statsJson_def)
  have doc: "host_document (optional parse) \<lparr>fi_host = nd_url n, fi_res = \<lparr>hr_status = 200, hr_body = the (dump (?doc n)), hr_error = []\<rparr>\<rparr> =
      Some (jset ''host'' (JStr (nd_url n)) (canon (?doc n)))" if n: "n \<in> set ns" for n
  proof -
    have "optional parse (the (dump (?doc n))) = Some (canon (?doc n))" using prints [OF n] by (auto simp: optional_def)
    then show ?thesis using obj [of n] by (cases "canon (?doc n)") (simp_all add: host_document_def set_key_def)
  qed
  have rows: "filter (\<lambda>r. hr_status (fi_res r) = 200) rows = rows" "failIfAny rows 200 200 = 0"
    "\<not> list_ex (\<lambda>r. host_document (optional parse) r = None) rows" "List.map_filter (host_document (optional parse)) rows = ?named"
    by (auto simp: rows_def failIfAny_def row_ok_def list_all_iff list_ex_iff doc filter_id_conv List.map_filter_def o_def cong: map_cong filter_cong)
  have merge: "mergeFleetStats sysNs ?named = mergeFleetStats sysNs (map host_json (map node_host ns))"
  proof -
    have "list_all is_object (map canon (map ?doc ns))" using obj by (auto simp: list_all_iff)
    then have "mergeFleetStats sysNs ?named = mergeFleetStats sysNs (map canon (map ?doc ns))"
      using merge_named [of "map canon (map ?doc ns)" "map (\<lambda>n. JStr (nd_url n)) ns" sysNs]
      by (simp add: zip_map_map zip_same_conv_map o_def)
    then show ?thesis unfolding merge_canon by (simp add: node_host_json o_def)
  qed
  have ok: "list_all host_ok (map node_host ns)" using assms(3) by (simp add: list_all_iff)
  have run: "run_command perform (optional parse) dump pretty clock sysNs cli token (map nd_url ns) ''rung-close'' =
      Some (rung_close_command (optional parse) pretty sysNs cli rows)"
    by (simp add: run_command_def Let_def fan)
  show ?thesis
  proof (cases "fleet_fits (map node_host ns)")
    case False
    then have "mergeFleetStats sysNs ?named = Inl NoMeaning" unfolding merge by (rule merge_overflow [OF ok])
    then show ?thesis using False rows by (simp add: run rung_close_command_def run_failed_def)
  next
    case True
    from merged_document [OF ok True, of sysNs] obtain out where out: "mergeFleetStats sysNs ?named = Inr out"
      "jlookup out ''hosts'' = Some (JUInt (of_nat (length ns)))"
      "jlookup out ''lifetime'' = Some (countersJson (foldl snap_sum CounterSnap_init (map (\<lambda>n. loadLifetime (hn_stats (nd_harness n))) ns)))"
      "jlookup out ''used'' = Some (jint (sum_list (map (\<lambda>n. hn_used (nd_harness n)) ns)))"
      "jlookup out ''limit'' = Some (jint (sum_list (map (\<lambda>n. cf_indexLimit (nd_config n)) ns)))"
      "jlookup out ''gauges'' = Some (JObj
         [(''active'', jint (sum_list (map (\<lambda>n. st_activeClients (hn_stats (nd_harness n))) ns))),
          (''suspended'', jint (sum_list (map (\<lambda>n. st_suspendedClients (hn_stats (nd_harness n))) ns)))])"
      "jlookup out ''warning'' = (if list_ex (\<lambda>n. sm_rungId (h_meta (node_host n)) \<noteq> sm_rungId (h_meta (hd (map node_host ns)))) ns
          then Some (JStr ''hosts disagree on rung_id'') else None)"
      unfolding merge by (auto simp: node_host_def snapshot_meta_def Let_def o_def list_ex_iff)
    let ?fleet = "jset ''per_host'' (JArr ?named) out"
    have "is_object out" using out(2) by (cases out) (simp_all add: jlookup_def)
    then have look: "jlookup ?fleet k = (if k = ''per_host'' then Some (JArr ?named) else jlookup out k)" for k by (simp add: jlookup_jset)
    have rung: "list_ex (\<lambda>n. sm_rungId (h_meta (node_host n)) \<noteq> sm_rungId (h_meta (hd (map node_host ns)))) ns \<longleftrightarrow>
        list_ex (\<lambda>n. st_rungId (hn_stats (nd_harness n)) \<noteq> st_rungId (hn_stats (nd_harness (hd ns)))) ns"
      by (cases ns) (simp_all add: node_host_def snapshot_meta_def Let_def)
    have "rung_close_command (optional parse) pretty sysNs cli rows =
       finish pretty cli (if list_ex (\<lambda>n. st_rungId (hn_stats (nd_harness n)) \<noteq> st_rungId (hn_stats (nd_harness (hd ns)))) ns then 1 else 0) ?fleet"
      using rows out(1,7) rung by (simp add: rung_close_command_def Let_def look)
    note close = run [unfolded this finish_def]
    have t: "(\<not> fleet_fits (map node_host ns)) = False" using True by simp
    show ?thesis unfolding t if_False
      by (intro exI [of _ ?fleet] conjI) (rule close, use out(2-6) in \<open>simp_all add: look\<close>)
  qed
qed

definition close_dump :: "json \<Rightarrow> string option" where
  "close_dump j = Some ''...''"

definition close_parse :: "json \<Rightarrow> json_parser" where
  "close_parse j text = (if text = ''...'' then Inr (canon j) else Inl ''parse error'')"

theorem fleet_rung_close_witness:
  "\<exists>fleet. run_command (\<lambda>_. lone_perform (close_parse (statsJson roster_config 0 new_harness)) close_dump)
       (optional (close_parse (statsJson roster_config 0 new_harness))) close_dump close_dump (\<lambda>_. 0) 0 lone_cli [] [''http://a''] ''rung-close'' =
     Some (Exit 0 [Printed ''...'']) \<and> jlookup fleet ''limit'' = Some (jint 25)"
proof -
  let ?parse = "close_parse (statsJson roster_config 0 new_harness)"
  have b: "\<forall>n \<in> set [lone_node]. reads_back ?parse close_dump (statsJson (nd_config n) (rd_steadyNs (nd_readings n)) (nd_harness n))"
    by (simp add: reads_back_def close_dump_def close_parse_def lone_node_def)
  have r: "\<forall>n \<in> set [lone_node]. reaches ?parse (\<lambda>_. []) close_dump [] ((\<lambda>_. lone_perform ?parse close_dump) (0::nat)) n \<and> admits [] n"
    using lone_reaches lone_admits by simp
  note defs = lone_node_def node_host_def new_harness_def Stats_init_def loadLifetime_def loadWindow_def snapshot_meta_def
      snap_minus_def CounterSnap_init_def SnapshotMeta_init_def LATENCY_BUCKETS_def roster_config_def sample_config_def Config_init_def
  have ok: "list_all (\<lambda>n. host_ok (node_host n)) [lone_node]"
    by (simp add: defs host_ok_def snap_wf_def sign_in_int32_def is_int32_def)
  have fits: "fleet_fits (map node_host [lone_node])"
    using fleet_fits_snoc [of "[]" "node_host lone_node"]
    by (simp add: fleet_fits_def sums_fit_def int_figures_def) (simp add: defs saturatingIntSub_def is_int32_def)
  have "map nd_url [lone_node] = [''http://a'']" "cf_indexLimit (nd_config lone_node) = 25" "deliver lone_cli t = Printed t" for t
    by (simp_all add: lone_node_def roster_config_def sample_config_def deliver_def lone_cli_def)
  then show ?thesis using fleet_rung_close [OF b r ok, of close_dump "\<lambda>_. 0" 0 lone_cli] fits by (auto simp: close_dump_def)
qed

end
